(* ===== verification/Prelude.thy ===== *)
theory Prelude
  imports Main "HOL-Library.Word" "HOL-Library.AList"
begin

text \<open>
  The shared ground of the development: the names of the machine types the Go sources use,
  the collections of rewrite rules that the component theories fill, generic facts about lists and
  association lists (Go maps are modelled as association lists with distinct keys wherever the
  code iterates over them or counts them), and the notion of a reachable state with
  the interface through which the components prove their invariants.
\<close>

section \<open>Types and collections\<close>

type_synonym byte = "8 word"
type_synonym bytes = "8 word list"
type_synonym u32 = "32 word"

named_theorems go_str \<open>unfolding rules for the model of Go's strings, strconv and net packages\<close>
named_theorems mux_ops \<open>unfolding rules for the operations of the stream multiplexer\<close>
named_theorems mux_frame \<open>what an operation of the multiplexer leaves unchanged\<close>

section \<open>Reachable states and invariants\<close>

inductive reach :: "('s \<Rightarrow> bool) \<Rightarrow> ('s \<Rightarrow> 's \<Rightarrow> bool) \<Rightarrow> 's \<Rightarrow> bool" for init step where
  reach_init: "init s \<Longrightarrow> reach init step s"
| reach_step: "reach init step s \<Longrightarrow> step s t \<Longrightarrow> reach init step t"

locale invariant_system =
  fixes init :: "'s \<Rightarrow> bool"
    and step :: "'s \<Rightarrow> 's \<Rightarrow> bool"
    and inv :: "'s \<Rightarrow> bool"
  assumes inv_init: "init s \<Longrightarrow> inv s"
    and inv_step: "inv s \<Longrightarrow> step s t \<Longrightarrow> inv t"
begin

lemma reach_inv: "reach init step s \<Longrightarrow> inv s"
  by (induction rule: reach.induct) (blast intro: inv_init inv_step)+

lemma steps_inv: "step\<^sup>*\<^sup>* s t \<Longrightarrow> inv s \<Longrightarrow> inv t"
  by (induction rule: rtranclp_induct) (blast intro: inv_step)+

end

text \<open>
  The contract of a component that comes to rest: while the invariant holds every step reduces its work, and as long as it is not in a final state it has a
  step. Then every way it can go on is finite and ends in a final state.
\<close>

locale settling_system =
  fixes step :: "'s \<Rightarrow> 's \<Rightarrow> bool"
    and inv :: "'s \<Rightarrow> bool"
    and work :: "'s \<Rightarrow> nat"
    and final :: "'s \<Rightarrow> bool"
  assumes keeps: "inv s \<Longrightarrow> step s t \<Longrightarrow> inv t"
    and works: "inv s \<Longrightarrow> step s t \<Longrightarrow> work t < work s"
    and progress: "inv s \<Longrightarrow> \<not> final s \<Longrightarrow> \<exists>t. step s t"
begin

lemma steps_keep: "step\<^sup>*\<^sup>* s t \<Longrightarrow> inv s \<Longrightarrow> inv t"
  by (induction rule: rtranclp_induct) (auto intro: keeps)

lemma bounded: "(step ^^ n) s t \<Longrightarrow> inv s \<Longrightarrow> n \<le> work s"
proof (induction n arbitrary: s)
  case (Suc n)
  from Suc.prems(1) obtain u where "step s u" "(step ^^ n) u t" by (rule relpowp_Suc_E2)
  with Suc.IH [of u] Suc.prems(2) keeps works show ?case by fastforce
qed simp

lemma settles: "inv s \<Longrightarrow> \<exists>t. step\<^sup>*\<^sup>* s t \<and> final t"
proof (induction "work s" arbitrary: s rule: less_induct)
  case less
  show ?case
  proof (cases "final s")
    case False
    with progress less.prems obtain u where u: "step s u" by blast
    with less keeps works obtain t where "step\<^sup>*\<^sup>* u t" "final t" by metis
    with u show ?thesis by (blast intro: converse_rtranclp_into_rtranclp)
  qed blast
qed

lemma stuck_final: "inv s \<Longrightarrow> step\<^sup>*\<^sup>* s t \<Longrightarrow> \<forall>u. \<not> step t u \<Longrightarrow> final t"
  using steps_keep progress by blast

end

section \<open>Self-delimiting codecs\<close>

text \<open>
  The contract of a wire format read from a byte stream: decoding what was encoded gives it back
  and leaves exactly the bytes that follow. The clients of the contract are everything that reads
  more than one message from a connection.
\<close>

locale prefix_codec =
  fixes enc :: "'f \<Rightarrow> 'b list"
    and dec :: "'b list \<Rightarrow> ('f \<times> 'b list) option"
    and ok :: "'f \<Rightarrow> bool"
  assumes dec_enc: "ok f \<Longrightarrow> dec (enc f @ r) = Some (f, r)"
    and enc_nonempty: "ok f \<Longrightarrow> enc f \<noteq> []"
begin

lemma enc_prefix_unique:
  assumes "ok f" and "ok g" and "enc f @ r = enc g @ r'"
  shows "f = g \<and> r = r'"
proof -
  have "Some (f, r) = dec (enc g @ r')"
    using dec_enc [OF assms(1), of r] unfolding assms(3) by (rule sym)
  also have "\<dots> = Some (g, r')"
    by (rule dec_enc [OF assms(2)])
  finally show ?thesis by simp
qed

lemma enc_list_unique:
  "list_all ok fs \<Longrightarrow> list_all ok gs \<Longrightarrow>
   concat (map enc fs) = concat (map enc gs) \<Longrightarrow> fs = gs"
proof (induction fs arbitrary: gs)
  case Nil
  then show ?case by (cases gs) (auto dest: enc_nonempty)
next
  case (Cons f fs)
  have "enc f \<noteq> []" using Cons.prems(1) by (simp add: enc_nonempty)
  with Cons.prems(3) obtain g gs' where gs: "gs = g # gs'"
    by (cases gs) simp_all
  with Cons.prems have fg: "f = g \<and> concat (map enc fs) = concat (map enc gs')"
    by (intro enc_prefix_unique) simp_all
  have "fs = gs'"
    using Cons.prems gs fg by (intro Cons.IH) simp_all
  with fg gs show ?case by simp
qed

end

section \<open>Lists\<close>

lemma list_all_nth_update:
  "list_all P xs \<Longrightarrow> P x \<Longrightarrow> list_all P (xs[i := x])"
  by (auto simp: list_all_iff dest: subsetD [OF set_update_subset_insert])

lemma concat_append_single [simp]: "concat (xss @ [xs]) = concat xss @ xs"
  by simp

section \<open>Association lists as Go maps\<close>

lemma map_of_AList_update: "map_of (AList.update k v m) = (map_of m)(k \<mapsto> v)"
  by (simp add: update_conv')

lemma map_of_AList_delete: "map_of (AList.delete k m) = (map_of m)(k := None)"
  by (simp add: delete_conv')

lemmas go_map_simps = map_of_AList_update map_of_AList_delete

lemma distinct_keys_update:
  "distinct (map fst m) \<Longrightarrow> distinct (map fst (AList.update k v m))"
  by (rule distinct_update)

lemma distinct_keys_delete:
  "distinct (map fst m) \<Longrightarrow> distinct (map fst (AList.delete k m))"
  by (rule distinct_delete)

lemmas go_map_distinct = distinct_keys_update distinct_keys_delete

lemma set_AList_update:
  "(k', v') \<in> set (AList.update k v m) \<Longrightarrow> (k', v') = (k, v) \<or> (k', v') \<in> set m"
  by (induction m) (auto split: if_splits)

lemma set_AList_delete:
  "(k', v') \<in> set (AList.delete k m) \<longleftrightarrow> k' \<noteq> k \<and> (k', v') \<in> set m"
  by (auto simp: AList.delete_eq)

end
