(* ===== verification/Frame.thy ===== *)
theory Frame
  imports Prelude
begin

text \<open>
  The wire format of the multiplexer, \<^verbatim>\<open>internal/mux/frame.go\<close>: the 9-byte header, the
  writer that emits one frame in one or two \<^verbatim>\<open>Write\<close> calls, and the reader that takes exactly one
  frame off a connection. A connection is modelled from both ends: a \<open>writer\<close> is the log of
  the \<^verbatim>\<open>Write\<close> calls made on it together with a plan of which later calls fail (and after how many
  bytes), a \<open>reader\<close> is the bytes that will still arrive together with the error that ends them.
\<close>

section \<open>Errors, connections\<close>

text \<open>The error values of package mux and of the standard library that its code tells apart.\<close>

datatype err =
    EOF | ErrUnexpectedEOF | NetErrClosed | NetErr string
  | ErrStreamReset | ErrSessionClosed | ErrIdleTimeout | ErrTakenOver
  | ErrFrameTooBig u32 | ErrUnknownFrame string

record writer =
  w_calls :: "bytes list"
  w_plan :: "(nat \<times> err) option list"
  w_closed :: bool

definition w_write :: "bytes \<Rightarrow> writer \<Rightarrow> err option \<times> writer" where
  "w_write b w =
     (if w_closed w then (Some NetErrClosed, w)
      else case w_plan w of
        [] \<Rightarrow> (None, w\<lparr>w_calls := w_calls w @ [b]\<rparr>)
      | None # ps \<Rightarrow> (None, w\<lparr>w_calls := w_calls w @ [b], w_plan := ps\<rparr>)
      | Some (k, e) # ps \<Rightarrow> (Some e, w\<lparr>w_calls := w_calls w @ [take k b], w_plan := ps\<rparr>))"

definition w_bytes :: "writer \<Rightarrow> bytes" where
  "w_bytes w = concat (w_calls w)"

record reader =
  r_bytes :: bytes
  r_end :: err

text \<open>\<^verbatim>\<open>io.ReadFull\<close>: all \<open>n\<close> bytes, or the error that cut the read short.\<close>

definition ReadFull :: "nat \<Rightarrow> reader \<Rightarrow> (err + bytes) \<times> reader" where
  "ReadFull n r =
     (if n \<le> length (r_bytes r)
      then (Inr (take n (r_bytes r)), r\<lparr>r_bytes := drop n (r_bytes r)\<rparr>)
      else (Inl (if r_bytes r \<noteq> [] \<and> r_end r = EOF then ErrUnexpectedEOF else r_end r),
            r\<lparr>r_bytes := []\<rparr>))"

section \<open>The frame header\<close>

definition HeaderSize :: nat where "HeaderSize = 9"
definition MaxPayload :: nat where "MaxPayload = 2 ^ 20"
definition coalesceMax :: nat where "coalesceMax = 64 * 2 ^ 10"

definition FrameOpen :: byte where "FrameOpen = 0x01"
definition FrameData :: byte where "FrameData = 0x02"
definition FramePing :: byte where "FramePing = 0x03"
definition FramePong :: byte where "FramePong = 0x04"
definition FrameClose :: byte where "FrameClose = 0x05"
definition FrameReset :: byte where "FrameReset = 0x06"

lemmas frame_types = FrameOpen_def FrameData_def FramePing_def FramePong_def
  FrameClose_def FrameReset_def

definition hex_digit :: "nat \<Rightarrow> char" where
  "hex_digit n = (if n < 10 then char_of (48 + n) else char_of (87 + n))"

definition frameTypeName :: "(byte \<times> string) list" where
  "frameTypeName = [(FrameOpen, ''OPEN''), (FrameData, ''DATA''), (FramePing, ''PING''),
     (FramePong, ''PONG''), (FrameClose, ''CLOSE''), (FrameReset, ''RESET'')]"

definition frameName :: "byte \<Rightarrow> string" where
  "frameName t =
     (case map_of frameTypeName t of
        Some n \<Rightarrow> n
      | None \<Rightarrow> ''0x'' @ [hex_digit (unat t div 16), hex_digit (unat t mod 16)])"

text \<open>\<^verbatim>\<open>binary.BigEndian.PutUint32\<close> and \<^verbatim>\<open>binary.BigEndian.Uint32\<close>.\<close>

definition PutUint32 :: "u32 \<Rightarrow> bytes" where
  "PutUint32 v = [ucast (drop_bit 24 v), ucast (drop_bit 16 v), ucast (drop_bit 8 v), ucast v]"

definition Uint32 :: "bytes \<Rightarrow> u32" where
  "Uint32 b =
     or (ucast (b ! 3)) (or (push_bit 8 (ucast (b ! 2)))
       (or (push_bit 16 (ucast (b ! 1))) (push_bit 24 (ucast (b ! 0)))))"

definition putHeader :: "byte \<Rightarrow> u32 \<Rightarrow> nat \<Rightarrow> bytes" where
  "putHeader typ streamID n = typ # PutUint32 streamID @ PutUint32 (of_nat n)"

section \<open>Writing and reading one frame\<close>

definition writeFrame :: "byte \<Rightarrow> u32 \<Rightarrow> bytes \<Rightarrow> writer \<Rightarrow> err option \<times> writer" where
  "writeFrame typ streamID payload w =
     (if length payload \<le> coalesceMax
      then w_write (putHeader typ streamID (length payload) @ payload) w
      else case w_write (putHeader typ streamID (length payload)) w of
        (Some e, w1) \<Rightarrow> (Some e, w1)
      | (None, w1) \<Rightarrow>
          if 0 < length payload
          then (case w_write payload w1 of (Some e, w2) \<Rightarrow> (Some e, w2) | (None, w2) \<Rightarrow> (None, w2))
          else (None, w1))"

definition readFrame :: "reader \<Rightarrow> (err + byte \<times> u32 \<times> bytes) \<times> reader" where
  "readFrame r =
     (case ReadFull HeaderSize r of
        (Inl e, r1) \<Rightarrow> (Inl e, r1)
      | (Inr hdr, r1) \<Rightarrow>
          let typ = hdr ! 0;
              streamID = Uint32 (take 4 (drop 1 hdr));
              n = Uint32 (take 4 (drop 5 hdr))
          in if of_nat MaxPayload < n then (Inl (ErrFrameTooBig n), r1)
             else if n = 0 then (Inr (typ, streamID, []), r1)
             else (case ReadFull (unat n) r1 of
                     (Inl e, r2) \<Rightarrow> (Inl e, r2)
                   | (Inr payload, r2) \<Rightarrow> (Inr (typ, streamID, payload), r2)))"

text \<open>A frame as a value, its bytes on the wire, and the reader as a decoder of byte lists.\<close>

type_synonym frame = "byte \<times> u32 \<times> bytes"

definition frame_bytes :: "frame \<Rightarrow> bytes" where
  "frame_bytes f = (case f of (typ, streamID, payload) \<Rightarrow>
     putHeader typ streamID (length payload) @ payload)"

definition frame_ok :: "frame \<Rightarrow> bool" where
  "frame_ok f \<longleftrightarrow> length (snd (snd f)) \<le> MaxPayload"

definition decode_frame :: "bytes \<Rightarrow> (frame \<times> bytes) option" where
  "decode_frame b =
     (case readFrame \<lparr>r_bytes = b, r_end = EOF\<rparr> of
        (Inl e, r) \<Rightarrow> None
      | (Inr f, r) \<Rightarrow> Some (f, r_bytes r))"

section \<open>Big-endian words\<close>

lemma length_PutUint32 [simp]: "length (PutUint32 v) = 4"
  by (simp add: PutUint32_def)

lemma Uint32_PutUint32 [simp]: "Uint32 (PutUint32 v) = v"
proof (rule bit_word_eqI)
  fix n assume "n < LENGTH(32)"
  then consider "n < 8" | "8 \<le> n \<and> n < 16" | "16 \<le> n \<and> n < 24" | "24 \<le> n \<and> n < 32"
    by fastforce
  then show "bit (Uint32 (PutUint32 v)) n = bit v n"
    unfolding Uint32_def PutUint32_def
    by cases (auto simp: bit_simps)
qed

lemma length_putHeader [simp]: "length (putHeader t i n) = HeaderSize"
  by (simp add: putHeader_def HeaderSize_def)

lemma of_nat_u32_le: "n \<le> MaxPayload \<Longrightarrow> unat (of_nat n :: u32) = n"
  by (simp add: MaxPayload_def unat_of_nat)

lemma MaxPayload_less_u32: "n \<le> MaxPayload \<Longrightarrow> \<not> of_nat MaxPayload < (of_nat n :: u32)"
  by (simp add: word_less_nat_alt of_nat_u32_le)

lemma u32_of_nat_0: "n \<le> MaxPayload \<Longrightarrow> (of_nat n :: u32) = 0 \<longleftrightarrow> n = 0"
  using of_nat_u32_le [of n] unat_0_iff [of "of_nat n :: u32"] by auto

lemma putHeader_fields:
  "(putHeader t i n @ xs) ! 0 = t"
  "Uint32 (take 4 (drop (Suc 0) (putHeader t i n))) = i"
  "Uint32 (take 4 (drop 5 (putHeader t i n))) = of_nat n"
  by (simp_all add: putHeader_def)

lemma putHeader_nth_0 [simp]: "putHeader t i n ! 0 = t"
  by (simp add: putHeader_def)

section \<open>Reading\<close>

lemma ReadFull_exact:
  "r_bytes r = xs @ ys \<Longrightarrow> length xs = n \<Longrightarrow> ReadFull n r = (Inr xs, r\<lparr>r_bytes := ys\<rparr>)"
  by (simp add: ReadFull_def)

lemma ReadFull_short:
  "length (r_bytes r) < n \<Longrightarrow>
   ReadFull n r = (Inl (if r_bytes r \<noteq> [] \<and> r_end r = EOF then ErrUnexpectedEOF else r_end r),
                   r\<lparr>r_bytes := []\<rparr>)"
  by (simp add: ReadFull_def)

text \<open>What the reader does once the nine header bytes are in.\<close>

lemma readFrame_header:
  assumes "r_bytes r = putHeader t i n @ ys"
  shows "readFrame r =
     (if of_nat MaxPayload < (of_nat n :: u32) then (Inl (ErrFrameTooBig (of_nat n)), r\<lparr>r_bytes := ys\<rparr>)
      else if (of_nat n :: u32) = 0 then (Inr (t, i, []), r\<lparr>r_bytes := ys\<rparr>)
      else (case ReadFull (unat (of_nat n :: u32)) (r\<lparr>r_bytes := ys\<rparr>) of
              (Inl e, r2) \<Rightarrow> (Inl e, r2)
            | (Inr payload, r2) \<Rightarrow> (Inr (t, i, payload), r2)))"
  using ReadFull_exact [OF assms, of HeaderSize]
  by (simp add: readFrame_def Let_def putHeader_fields)

lemma readFrame_frame_bytes:
  assumes "length p \<le> MaxPayload" and "r_bytes r = frame_bytes (t, i, p) @ rest"
  shows "readFrame r = (Inr (t, i, p), r\<lparr>r_bytes := rest\<rparr>)"
proof -
  have r: "r_bytes r = putHeader t i (length p) @ p @ rest"
    using assms(2) by (simp add: frame_bytes_def)
  show ?thesis
  proof (cases "p = []")
    case True
    with assms(1) show ?thesis
      by (simp add: readFrame_header [OF r] MaxPayload_def)
  next
    case False
    have "ReadFull (length p) (r\<lparr>r_bytes := p @ rest\<rparr>) = (Inr p, r\<lparr>r_bytes := rest\<rparr>)"
      by (simp add: ReadFull_def)
    with False assms(1) show ?thesis
      by (simp add: readFrame_header [OF r] MaxPayload_less_u32 u32_of_nat_0 of_nat_u32_le)
  qed
qed

lemma readFrame_consumes:
  assumes "readFrame r = (Inr f, r')"
  shows "length (r_bytes r') + HeaderSize \<le> length (r_bytes r) \<and> r_end r' = r_end r"
  using assms
  by (auto simp: readFrame_def ReadFull_def HeaderSize_def Let_def split: if_splits)

lemma readFrame_shrinks:
  "(Inr f, r') = readFrame r \<Longrightarrow> length (r_bytes r') < length (r_bytes r)"
  using readFrame_consumes [of r f r'] by (simp add: HeaderSize_def)

interpretation fc: prefix_codec frame_bytes decode_frame frame_ok
proof unfold_locales
  fix f r
  assume "frame_ok f"
  then show "decode_frame (frame_bytes f @ r) = Some (f, r)"
    by (cases f) (simp add: decode_frame_def frame_ok_def readFrame_frame_bytes)
next
  fix f
  show "frame_bytes f \<noteq> []"
    by (cases f) (simp add: frame_bytes_def putHeader_def)
qed

section \<open>Writing\<close>

lemma w_write_ok:
  "w_write b w = (None, w') \<Longrightarrow> w_calls w' = w_calls w @ [b] \<and> w_closed w' = w_closed w"
  by (auto simp: w_write_def split: if_splits list.splits option.splits)

lemma writeFrame_ok_bytes:
  assumes "writeFrame t i p w = (None, w')"
  shows "w_bytes w' = w_bytes w @ frame_bytes (t, i, p)"
  using assms
  by (auto simp: writeFrame_def w_bytes_def frame_bytes_def dest!: w_write_ok
           split: if_splits prod.splits option.splits)

lemma writeFrame_healthy:
  assumes "w_plan w = []" and "\<not> w_closed w"
  shows "\<exists>w'. writeFrame t i p w = (None, w') \<and> w_plan w' = [] \<and> \<not> w_closed w'"
  using assms by (simp add: writeFrame_def w_write_def)

section \<open>Properties of the wire format\<close>

text \<open>
  Property C18. Whatever \<^verbatim>\<open>writeFrame\<close> put on a connection in one successful call, for any frame
  type, any stream id and any payload up to \<^verbatim>\<open>MaxPayload\<close>, \<^verbatim>\<open>readFrame\<close> takes off the other end
  as exactly that frame, and leaves exactly the bytes that follow it. It does not matter whether the
  writer coalesced header and payload into one \<^verbatim>\<open>Write\<close> or used two.
\<close>

theorem frame_roundtrip:
  assumes "writeFrame typ streamID payload w = (None, w')"
    and "length payload \<le> MaxPayload"
    and "r_bytes r = drop (length (w_bytes w)) (w_bytes w') @ rest"
  shows "readFrame r = (Inr (typ, streamID, payload), r\<lparr>r_bytes := rest\<rparr>)"
  using writeFrame_ok_bytes [OF assms(1)] assms(2,3) by (simp add: readFrame_frame_bytes)

theorem frame_roundtrip_witness:
  "readFrame \<lparr>r_bytes = [2, 0, 0, 0, 7, 0, 0, 0, 2, 104, 105, 9], r_end = EOF\<rparr> =
     (Inr (FrameData, 7, [104, 105]), \<lparr>r_bytes = [9], r_end = EOF\<rparr>)"
proof -
  let ?w = "\<lparr>w_calls = [[1]], w_plan = [], w_closed = False\<rparr>"
  let ?w' = "\<lparr>w_calls = [[1], [2, 0, 0, 0, 7, 0, 0, 0, 2, 104, 105]], w_plan = [], w_closed = False\<rparr>"
  have "writeFrame FrameData 7 [104, 105] ?w = (None, ?w')"
    by (simp add: writeFrame_def w_write_def putHeader_def PutUint32_def FrameData_def coalesceMax_def)
  then show ?thesis
    using frame_roundtrip [of FrameData 7 "[104, 105]" ?w ?w'
        "\<lparr>r_bytes = [2, 0, 0, 0, 7, 0, 0, 0, 2, 104, 105, 9], r_end = EOF\<rparr>" "[9]"]
    by (simp add: w_bytes_def MaxPayload_def)
qed

text \<open>
  A connection that dies inside a frame never yields that frame: on any proper prefix of
  a frame's bytes \<^verbatim>\<open>readFrame\<close> fails, with a clean \<^verbatim>\<open>EOF\<close> only when the cut falls before the header
  or exactly between header and payload, and with \<^verbatim>\<open>io.ErrUnexpectedEOF\<close> anywhere else.
\<close>

theorem readFrame_truncated:
  assumes "frame_ok (t, i, p)" and "k < length (frame_bytes (t, i, p))"
  shows "fst (readFrame \<lparr>r_bytes = take k (frame_bytes (t, i, p)), r_end = EOF\<rparr>) =
     Inl (if k = 0 \<or> k = HeaderSize then EOF else ErrUnexpectedEOF)"
proof (cases "k < HeaderSize")
  case True
  then have "length (take k (frame_bytes (t, i, p))) < HeaderSize" by simp
  from ReadFull_short [of "\<lparr>r_bytes = take k (frame_bytes (t, i, p)), r_end = EOF\<rparr>", OF _]
    this True show ?thesis
    using assms(2) by (auto simp: readFrame_def frame_bytes_def putHeader_def)
next
  case False
  let ?ys = "take (k - HeaderSize) p"
  have k: "k - HeaderSize < length p"
    using assms(2) False by (simp add: frame_bytes_def)
  have r: "take k (frame_bytes (t, i, p)) = putHeader t i (length p) @ ?ys"
    using False by (simp add: frame_bytes_def)
  have len: "length p \<le> MaxPayload" "length p \<noteq> 0"
    using assms(1) k by (auto simp: frame_ok_def)
  have "ReadFull (length p) \<lparr>r_bytes = ?ys, r_end = EOF\<rparr> =
      (Inl (if ?ys \<noteq> [] then ErrUnexpectedEOF else EOF), \<lparr>r_bytes = [], r_end = EOF\<rparr>)"
    using k by (simp add: ReadFull_short)
  then show ?thesis
    using len k False
    by (auto simp: r readFrame_header [of _ t i "length p" ?ys]
        MaxPayload_less_u32 u32_of_nat_0 of_nat_u32_le HeaderSize_def)
qed

theorem readFrame_truncated_witness:
  "fst (readFrame \<lparr>r_bytes = [2, 0, 0, 0, 7, 0, 0, 0, 2, 104], r_end = EOF\<rparr>) = Inl ErrUnexpectedEOF"
  using readFrame_truncated [of FrameData 7 "[104, 105]" 10]
  by (simp add: frame_ok_def MaxPayload_def frame_bytes_def putHeader_def PutUint32_def
      FrameData_def HeaderSize_def)

text \<open>
  A header that announces more than \<^verbatim>\<open>MaxPayload\<close> bytes is refused at once: the reader
  reports the announced size and has consumed the nine header bytes only, so it neither allocates nor
  waits for the oversized payload.
\<close>

theorem readFrame_oversize:
  assumes "MaxPayload < unat n" and "r_bytes r = t # PutUint32 i @ PutUint32 n @ rest"
  shows "readFrame r = (Inl (ErrFrameTooBig n), r\<lparr>r_bytes := rest\<rparr>)"
proof -
  have "r_bytes r = putHeader t i (unat n) @ rest"
    using assms(2) by (simp add: putHeader_def)
  moreover have "of_nat MaxPayload < n"
    using assms(1) by (simp add: word_less_nat_alt MaxPayload_def)
  ultimately show ?thesis by (simp add: readFrame_header)
qed

theorem readFrame_oversize_witness:
  "readFrame \<lparr>r_bytes = [2, 0, 0, 0, 1, 0, 16, 0, 1, 42], r_end = EOF\<rparr> =
     (Inl (ErrFrameTooBig 0x100001), \<lparr>r_bytes = [42], r_end = EOF\<rparr>)"
  using readFrame_oversize [where n = "0x100001" and t = 2 and i = 1 and rest = "[42]"
      and r = "\<lparr>r_bytes = [2, 0, 0, 0, 1, 0, 16, 0, 1, 42], r_end = EOF\<rparr>"]
  by (simp add: MaxPayload_def PutUint32_def)

text \<open>
  The framing is unambiguous: two sequences of frames (each with a payload the protocol
  allows) that put the same bytes on the wire are the same sequence.
\<close>

theorem framing_unambiguous:
  assumes "list_all frame_ok fs" and "list_all frame_ok gs"
    and "concat (map frame_bytes fs) = concat (map frame_bytes gs)"
  shows "fs = gs"
  using assms by (rule fc.enc_list_unique)

theorem framing_unambiguous_witness:
  "concat (map frame_bytes [(FrameClose, 3, [])]) = [5, 0, 0, 0, 3, 0, 0, 0, 0] \<and>
   concat (map frame_bytes [(5, 3, [])]) = [5, 0, 0, 0, 3, 0, 0, 0, 0] \<and>
   [(FrameClose, 3, [])] = [(5, 3, []) :: frame]"
proof -
  have b: "concat (map frame_bytes [(FrameClose, 3, [])]) = [5, 0, 0, 0, 3, 0, 0, 0, 0]"
    "concat (map frame_bytes [(5, 3, [])]) = [5, 0, 0, 0, 3, 0, 0, 0, 0]"
    by (simp_all add: frame_bytes_def putHeader_def PutUint32_def FrameClose_def)
  with framing_unambiguous [of "[(FrameClose, 3, [])]" "[(5, 3, [])]"] show ?thesis
    by (simp add: frame_ok_def)
qed

end
