(* ===== verification/Mux.thy ===== *)
theory Mux
  imports Frame
begin

text \<open>
  The state and the operations of the stream multiplexer, \<^verbatim>\<open>internal/mux/session.go\<close> and
  \<^verbatim>\<open>internal/mux/stream.go\<close>. A session owns its streams through pointers, and a stream outlives its
  entry in the session's map (the handler goroutine keeps it), so the model has a heap: a
  reference is an index into \<open>s_heap\<close>, the map \<open>s_streams\<close> takes stream ids to references. A
  channel that is only ever closed (\<^verbatim>\<open>eofCh\<close>, \<^verbatim>\<open>aborted\<close>, \<^verbatim>\<open>done\<close>) is the flag "is closed"; closing it a
  second time is Go's run-time panic and sets \<open>s_panicked\<close>. A \<^verbatim>\<open>sync.Once\<close> is the flag "has run".

  The operations here are whole calls, run without another goroutine in between; a session's state
  machine (\<^verbatim>\<open>Mux_Inv\<close>) interleaves whole calls in any order. Where a \<^verbatim>\<open>select\<close> has several ready cases the
  argument \<open>pick\<close> decides, so a statement for all \<open>pick\<close> covers every choice of the runtime. Times are
  nanoseconds since the session's \<^verbatim>\<open>epoch\<close>, from the monotonic clock.
\<close>

section \<open>State\<close>

record stream =
  st_id :: u32
  chunks :: "bytes list"
  eofCh :: bool
  cur :: bytes
  aborted :: bool
  readErr :: "err option"
  readDone :: bool
  sentClose :: bool
  rst :: bool
  removed :: bool

definition chunksCap :: nat where "chunksCap = 16"

definition newStream :: "u32 \<Rightarrow> stream" where
  "newStream sid = \<lparr>st_id = sid, chunks = [], eofCh = False, cur = [], aborted = False,
     readErr = None, readDone = False, sentClose = False, rst = False, removed = False\<rparr>"

record session =
  s_server :: bool
  s_streams :: "(u32 \<times> nat) list"
  s_closed :: bool
  s_nextID :: u32
  s_onStream :: bool
  s_onClose :: bool
  s_PingInterval :: int
  s_IdleTimeout :: int
  s_lastRecv :: int
  s_stalled :: bool
  s_pongs :: "bytes option"
  s_done :: bool
  s_closeOnce :: bool
  s_cbOnce :: bool
  s_closeErr :: "err option"
  s_conn :: writer
  s_heap :: "stream list"
  s_served :: "nat list"
  s_closeCalls :: "err option list"
  s_panicked :: bool

definition newSession :: "writer \<Rightarrow> bool \<Rightarrow> session" where
  "newSession conn server =
     \<lparr>s_server = server, s_streams = [], s_closed = False, s_nextID = 0, s_onStream = False,
      s_onClose = False, s_PingInterval = 0, s_IdleTimeout = 0, s_lastRecv = 0, s_stalled = False,
      s_pongs = None, s_done = False, s_closeOnce = False, s_cbOnce = False, s_closeErr = None,
      s_conn = conn, s_heap = [], s_served = [], s_closeCalls = [], s_panicked = False\<rparr>"

definition NewServerSession :: "writer \<Rightarrow> session" where
  "NewServerSession conn = (newSession conn True)\<lparr>s_nextID := 1\<rparr>"

definition NewClientSession :: "writer \<Rightarrow> session" where
  "NewClientSession conn = (newSession conn False)\<lparr>s_nextID := 2\<rparr>"

definition IsServer :: "session \<Rightarrow> bool" where
  "IsServer s = s_server s"

definition strm :: "session \<Rightarrow> nat \<Rightarrow> stream" where
  "strm s r = s_heap s ! r"

definition upd :: "nat \<Rightarrow> (stream \<Rightarrow> stream) \<Rightarrow> session \<Rightarrow> session" where
  "upd r f s = s\<lparr>s_heap := (s_heap s)[r := f (s_heap s ! r)]\<rparr>"

definition alloc :: "u32 \<Rightarrow> session \<Rightarrow> nat \<times> session" where
  "alloc sid s = (length (s_heap s), s\<lparr>s_heap := s_heap s @ [newStream sid]\<rparr>)"

section \<open>The session's own helpers\<close>

definition DefaultPingInterval :: int where "DefaultPingInterval = 15 * 10 ^ 9"
definition DefaultIdleTimeout :: int where "DefaultIdleTimeout = 45 * 10 ^ 9"

definition markRecv :: "int \<Rightarrow> session \<Rightarrow> session" where
  "markRecv now s = s\<lparr>s_lastRecv := now\<rparr>"

text \<open>\<^verbatim>\<open>liveReader.Read\<close>: a read that brought at least one byte restarts the silence clock.\<close>

definition liveRead :: "int \<Rightarrow> nat \<Rightarrow> session \<Rightarrow> session" where
  "liveRead now n s = (if 0 < n then markRecv now s else s)"

definition silence :: "int \<Rightarrow> session \<Rightarrow> int" where
  "silence now s = now - s_lastRecv s"

definition pingInterval :: "session \<Rightarrow> int" where
  "pingInterval s = (if 0 < s_PingInterval s then s_PingInterval s else DefaultPingInterval)"

definition idleTimeout :: "session \<Rightarrow> int" where
  "idleTimeout s = (if s_IdleTimeout s \<le> 0 then DefaultIdleTimeout else s_IdleTimeout s)"

definition Stale :: "int \<Rightarrow> session \<Rightarrow> bool" where
  "Stale now s =
     (if s_stalled s then False
      else let p = pingInterval s in p + p div 2 < silence now s)"

definition getStream :: "u32 \<Rightarrow> session \<Rightarrow> nat option" where
  "getStream sid s = map_of (s_streams s) sid"

definition removeStream :: "u32 \<Rightarrow> session \<Rightarrow> session" where
  "removeStream sid s = s\<lparr>s_streams := AList.delete sid (s_streams s)\<rparr>"

definition StreamCount :: "session \<Rightarrow> nat" where
  "StreamCount s = length (s_streams s)"

definition sess_writeFrame :: "byte \<Rightarrow> u32 \<Rightarrow> bytes \<Rightarrow> session \<Rightarrow> err option \<times> session" where
  "sess_writeFrame typ sid payload s =
     (if s_closed s then (Some ErrSessionClosed, s)
      else case writeFrame typ sid payload (s_conn s) of (e, w) \<Rightarrow> (e, s\<lparr>s_conn := w\<rparr>))"

definition OpenStream :: "bytes \<Rightarrow> session \<Rightarrow> (err + nat) \<times> session" where
  "OpenStream meta s =
     (let sid = s_nextID s + 2 - 2;
          s1 = s\<lparr>s_nextID := s_nextID s + 2\<rparr>
      in case alloc sid s1 of (st, s2) \<Rightarrow>
        if s_closed s2 then (Inl ErrSessionClosed, s2)
        else let s3 = s2\<lparr>s_streams := AList.update sid st (s_streams s2)\<rparr>
             in case sess_writeFrame FrameOpen sid meta s3 of
                  (Some e, s4) \<Rightarrow> (Inl e, removeStream sid s4)
                | (None, s4) \<Rightarrow> (Inr st, s4))"

section \<open>Streams\<close>

definition signalAbort :: "nat \<Rightarrow> session \<Rightarrow> session" where
  "signalAbort r s = (if aborted (strm s r) then s else upd r (\<lambda>st. st\<lparr>aborted := True\<rparr>) s)"

definition closeEof :: "nat \<Rightarrow> session \<Rightarrow> session" where
  "closeEof r s =
     (if eofCh (strm s r) then s\<lparr>s_panicked := True\<rparr> else upd r (\<lambda>st. st\<lparr>eofCh := True\<rparr>) s)"

definition markReadDone :: "nat \<Rightarrow> err \<Rightarrow> session \<Rightarrow> bool \<times> session" where
  "markReadDone r e s =
     (if readDone (strm s r) then (False, s)
      else (True, closeEof r (upd r (\<lambda>st. st\<lparr>readDone := True, readErr := Some e\<rparr>) s)))"

definition remove :: "nat \<Rightarrow> session \<Rightarrow> session" where
  "remove r s =
     (if removed (strm s r) then s
      else removeStream (st_id (strm s r)) (upd r (\<lambda>st. st\<lparr>removed := True\<rparr>) s))"

definition remoteClose :: "nat \<Rightarrow> session \<Rightarrow> session" where
  "remoteClose r s =
     (let s1 = snd (markReadDone r EOF s)
      in if sentClose (strm s1 r) then remove r s1 else s1)"

definition remoteReset :: "nat \<Rightarrow> session \<Rightarrow> session" where
  "remoteReset r s =
     (let s1 = upd r (\<lambda>st. st\<lparr>rst := True\<rparr>) s;
          s2 = snd (markReadDone r ErrStreamReset s1)
      in remove r (signalAbort r s2))"

text \<open>
  \<^verbatim>\<open>pushData\<close>: \<open>None\<close> while the call blocks on a full buffer. When the payload could be queued and the
  stream or session has ended meanwhile, \<open>pick\<close> is the case \<^verbatim>\<open>select\<close> takes (\<open>True\<close>: drop).
\<close>

definition pushData :: "bool \<Rightarrow> nat \<Rightarrow> bytes \<Rightarrow> session \<Rightarrow> session option" where
  "pushData pick r p s =
     (let st = strm s r;
          room = length (chunks st) < chunksCap;
          gone = eofCh st \<or> s_done s
      in if readDone st then Some s
         else if room \<and> \<not> (gone \<and> pick) then Some (upd r (\<lambda>st. st\<lparr>chunks := chunks st @ [p]\<rparr>) s)
         else if gone then Some s
         else None)"

datatype read_res = RData bytes | RErr err | RBlock | RSpin

text \<open>
  \<^verbatim>\<open>Stream.Read\<close> into a buffer of \<open>n\<close> bytes, as far as it runs without waiting: data, an error,
  \<open>RBlock\<close> when the call waits in its \<^verbatim>\<open>select\<close>, \<open>RSpin\<close> when it goes round its loop with nothing that
  could change (the session's \<^verbatim>\<open>done\<close> channel is closed but the stream was never marked).
\<close>

definition readEnd :: "stream \<Rightarrow> err" where
  "readEnd st =
     (case readErr st of
        None \<Rightarrow> EOF
      | Some e \<Rightarrow> (if e = EOF then EOF else if e = ErrSessionClosed then ErrUnexpectedEOF else e))"

function stRead :: "nat \<Rightarrow> bool \<Rightarrow> stream \<Rightarrow> read_res \<times> stream" where
  "stRead n sdone st =
     (if cur st \<noteq> [] then (RData (take n (cur st)), st\<lparr>cur := drop n (cur st)\<rparr>)
      else case chunks st of
        c # cs \<Rightarrow> stRead n sdone (st\<lparr>cur := c, chunks := cs\<rparr>)
      | [] \<Rightarrow>
          if readDone st then (RErr (readEnd st), st)
          else if eofCh st \<or> sdone then (RSpin, st)
          else (RBlock, st))"
  by pat_completeness auto
termination
  by (relation "measure (\<lambda>(n, d, st). length (chunks st))") auto

declare stRead.simps [simp del]

definition Read :: "nat \<Rightarrow> nat \<Rightarrow> session \<Rightarrow> read_res \<times> session" where
  "Read n r s =
     (case stRead n (s_done s) (strm s r) of (res, st) \<Rightarrow> (res, upd r (\<lambda>_. st) s))"

definition checkWrite :: "stream \<Rightarrow> err option" where
  "checkWrite st =
     (if rst st then Some ErrStreamReset else if sentClose st then Some NetErrClosed else None)"

function writeLoop :: "nat \<Rightarrow> bytes \<Rightarrow> nat \<Rightarrow> session \<Rightarrow> (nat \<times> err option) \<times> session" where
  "writeLoop r b tot s =
     (if b = [] then ((tot, None), s)
      else case (if 0 < tot then checkWrite (strm s r) else None) of
        Some e \<Rightarrow> ((tot, Some e), s)
      | None \<Rightarrow>
          let n = min (length b) MaxPayload
          in case sess_writeFrame FrameData (st_id (strm s r)) (take n b) s of
               (Some e, s1) \<Rightarrow> ((tot, Some e), s1)
             | (None, s1) \<Rightarrow> writeLoop r (drop n b) (tot + n) s1)"
  by pat_completeness auto
termination
  by (relation "measure (\<lambda>(r, b, t, s). length b)") (auto simp: MaxPayload_def)

declare writeLoop.simps [simp del]

definition Write :: "nat \<Rightarrow> bytes \<Rightarrow> session \<Rightarrow> (nat \<times> err option) \<times> session" where
  "Write r b s =
     (case checkWrite (strm s r) of
        Some e \<Rightarrow> ((0, Some e), s)
      | None \<Rightarrow> writeLoop r b 0 s)"

definition CloseWrite :: "nat \<Rightarrow> session \<Rightarrow> err option \<times> session" where
  "CloseWrite r s =
     (if sentClose (strm s r) \<or> rst (strm s r) then (None, s)
      else let s1 = upd r (\<lambda>st. st\<lparr>sentClose := True\<rparr>) s;
               peerDone = readDone (strm s r)
           in case sess_writeFrame FrameClose (st_id (strm s r)) [] s1 of
                (e, s2) \<Rightarrow> (e, if peerDone then remove r s2 else s2))"

definition Abort :: "nat \<Rightarrow> session \<Rightarrow> session" where
  "Abort r s =
     (let st = strm s r
      in if rst st then s
         else let finished = sentClose st \<and> readDone st \<and> readErr st = Some EOF;
                  s1 = upd r (\<lambda>st. st\<lparr>rst := True, sentClose := True\<rparr>) s;
                  s2 = (if finished then s1
                        else snd (sess_writeFrame FrameReset (st_id st) [] s1));
                  s3 = snd (markReadDone r ErrStreamReset s2)
              in remove r (signalAbort r s3))"

definition Reset :: "nat \<Rightarrow> session \<Rightarrow> err option \<times> session" where
  "Reset r s = (None, Abort r s)"

definition stream_Close :: "nat \<Rightarrow> session \<Rightarrow> err option \<times> session" where
  "stream_Close r s = CloseWrite r s"

section \<open>Closing the session\<close>

definition abandon :: "nat \<Rightarrow> session \<Rightarrow> session" where
  "abandon r s = signalAbort r (snd (markReadDone r ErrSessionClosed s))"

definition shutdown :: "err \<Rightarrow> session \<Rightarrow> session" where
  "shutdown e s =
     (if s_closeOnce s then s
      else let s1 = s\<lparr>s_closeOnce := True, s_closed := True, s_closeErr := Some e\<rparr>;
               s2 = fold abandon (map snd (s_streams s1)) s1;
               s3 = (if s_done s2 then s2\<lparr>s_panicked := True\<rparr> else s2\<lparr>s_done := True\<rparr>)
           in s3\<lparr>s_conn := (s_conn s3)\<lparr>w_closed := True\<rparr>\<rparr>)"

definition fireOnClose :: "err option \<Rightarrow> session \<Rightarrow> session" where
  "fireOnClose e s =
     (if s_onClose s
      then if s_cbOnce s then s
           else s\<lparr>s_cbOnce := True, s_closeCalls := s_closeCalls s @ [e]\<rparr>
      else s)"

definition CloseWithError :: "err \<Rightarrow> session \<Rightarrow> session" where
  "CloseWithError e s = fireOnClose (Some e) (shutdown e s)"

definition sess_Close :: "session \<Rightarrow> session" where
  "sess_Close s = CloseWithError NetErrClosed s"

text \<open>\<^verbatim>\<open>Wait\<close>: \<open>None\<close> while it blocks on \<^verbatim>\<open>done\<close>.\<close>

definition Wait :: "session \<Rightarrow> err option option" where
  "Wait s = (if s_done s then Some (s_closeErr s) else None)"

section \<open>The read loop\<close>

text \<open>One round of the read loop's \<^verbatim>\<open>switch\<close>: the next state, a wait in \<^verbatim>\<open>pushData\<close>, or a fatal error.\<close>

datatype outcome = Next session | Block session | Fail err

definition dispatch :: "int \<Rightarrow> bool \<Rightarrow> frame \<Rightarrow> session \<Rightarrow> outcome" where
  "dispatch now pick f s =
     (case f of (typ, sid, payload) \<Rightarrow>
       if typ = FrameOpen then
         (case alloc sid s of (st, s1) \<Rightarrow>
            if s_closed s1 then Next s1
            else let s2 = s1\<lparr>s_streams := AList.update sid st (s_streams s1)\<rparr>
                 in Next (if s_onStream s2 then s2\<lparr>s_served := s_served s2 @ [st]\<rparr> else s2))
       else if typ = FrameData then
         (case getStream sid s of
            None \<Rightarrow> Next s
          | Some st \<Rightarrow>
              let s1 = s\<lparr>s_stalled := True\<rparr>
              in case pushData pick st payload s1 of
                   None \<Rightarrow> Block s1
                 | Some s2 \<Rightarrow> Next ((markRecv now s2)\<lparr>s_stalled := False\<rparr>))
       else if typ = FrameClose then
         (case getStream sid s of None \<Rightarrow> Next s | Some st \<Rightarrow> Next (remoteClose st s))
       else if typ = FrameReset then
         (case getStream sid s of None \<Rightarrow> Next s | Some st \<Rightarrow> Next (remoteReset st s))
       else if typ = FramePing then
         Next (case s_pongs s of None \<Rightarrow> s\<lparr>s_pongs := Some payload\<rparr> | Some _ \<Rightarrow> s)
       else if typ = FramePong then Next s
       else Fail (ErrUnknownFrame (frameName typ)))"

text \<open>
  The read loop over the bytes that arrive: it stops with an error, or waits in \<^verbatim>\<open>pushData\<close> with
  the rest of the input unread. The clock and the \<^verbatim>\<open>select\<close> choices are functions of the number of
  frames read so far.
\<close>

datatype loop_res = Stopped err session | Waiting frame session reader

function readLoop ::
  "(nat \<Rightarrow> int) \<Rightarrow> (nat \<Rightarrow> bool) \<Rightarrow> nat \<Rightarrow> reader \<Rightarrow> session \<Rightarrow> loop_res" where
  "readLoop clk pick k rd s =
     (case readFrame rd of
        (Inl e, rd1) \<Rightarrow>
          Stopped (if e = EOF then ErrUnexpectedEOF else e)
            (liveRead (clk k) (length (r_bytes rd) - length (r_bytes rd1)) s)
      | (Inr f, rd1) \<Rightarrow>
          (case dispatch (clk k) (pick k) f
                  (liveRead (clk k) (length (r_bytes rd) - length (r_bytes rd1)) s) of
             Next s1 \<Rightarrow> readLoop clk pick (Suc k) rd1 s1
           | Block s1 \<Rightarrow> Waiting f s1 rd1
           | Fail e \<Rightarrow> Stopped e (liveRead (clk k) (length (r_bytes rd) - length (r_bytes rd1)) s)))"
  by pat_completeness auto
termination
  by (relation "measure (\<lambda>(c, p, k, rd, s). length (r_bytes rd))")
     (simp_all add: readFrame_shrinks)

declare readLoop.simps [simp del]

text \<open>The tail of \<^verbatim>\<open>Run\<close>, once the read loop has returned.\<close>

definition finishRun :: "err \<Rightarrow> session \<Rightarrow> err option \<times> session" where
  "finishRun e s =
     (let s1 = shutdown e s in (s_closeErr s1, fireOnClose (s_closeErr s1) s1))"

definition Run :: "int \<Rightarrow> (nat \<Rightarrow> int) \<Rightarrow> (nat \<Rightarrow> bool) \<Rightarrow> reader \<Rightarrow> session \<Rightarrow>
    (err option \<times> session) option" where
  "Run now clk pick rd s =
     (case readLoop clk pick 0 rd (markRecv now s) of
        Stopped e s1 \<Rightarrow> Some (finishRun e s1)
      | Waiting f s1 rd1 \<Rightarrow> None)"

section \<open>Heartbeat\<close>

text \<open>\<^verbatim>\<open>binary.BigEndian.PutUint64\<close>, for the timestamp in a ping.\<close>

definition PutUint64 :: "64 word \<Rightarrow> bytes" where
  "PutUint64 v = map (\<lambda>k. ucast (drop_bit k v)) [56, 48, 40, 32, 24, 16, 8, 0]"

definition pingTick :: "64 word \<Rightarrow> session \<Rightarrow> err option \<times> session" where
  "pingTick unixNano s = sess_writeFrame FramePing 0 (PutUint64 unixNano) s"

definition pongTick :: "session \<Rightarrow> (err option \<times> session) option" where
  "pongTick s =
     (case s_pongs s of
        None \<Rightarrow> None
      | Some p \<Rightarrow> Some (sess_writeFrame FramePong 0 p (s\<lparr>s_pongs := None\<rparr>)))"

definition watchdogPeriod :: "int \<Rightarrow> int" where
  "watchdogPeriod idle = max (idle div 4) (10 ^ 6)"

definition watchdogTick :: "int \<Rightarrow> int \<Rightarrow> session \<Rightarrow> session" where
  "watchdogTick idle now s =
     (if s_done s then s
      else if s_stalled s then s
      else if idle < silence now s then CloseWithError ErrIdleTimeout s
      else s)"

end
