(* ===== verification/Mux_Inv.thy ===== *)
theory Mux_Inv
  imports Mux
begin

text \<open>
  The invariant of a multiplexer session and the proof that every operation keeps it. The
  operations are first brought to a normal form, one update of one stream followed by at most one
  deletion from the map (the lemmas named \<open>_net\<close>), so that one lemma about such a step carries all
  the preservation proofs.
\<close>

section \<open>Updating one stream\<close>

lemma upd_frame [simp, mux_frame]:
  "s_server (upd r f s) = s_server s" "s_streams (upd r f s) = s_streams s"
  "s_closed (upd r f s) = s_closed s" "s_nextID (upd r f s) = s_nextID s"
  "s_onStream (upd r f s) = s_onStream s" "s_onClose (upd r f s) = s_onClose s"
  "s_PingInterval (upd r f s) = s_PingInterval s" "s_IdleTimeout (upd r f s) = s_IdleTimeout s"
  "s_lastRecv (upd r f s) = s_lastRecv s" "s_stalled (upd r f s) = s_stalled s"
  "s_pongs (upd r f s) = s_pongs s" "s_done (upd r f s) = s_done s"
  "s_closeOnce (upd r f s) = s_closeOnce s" "s_cbOnce (upd r f s) = s_cbOnce s"
  "s_closeErr (upd r f s) = s_closeErr s" "s_conn (upd r f s) = s_conn s"
  "s_served (upd r f s) = s_served s" "s_closeCalls (upd r f s) = s_closeCalls s"
  "s_panicked (upd r f s) = s_panicked s" "length (s_heap (upd r f s)) = length (s_heap s)"
  by (simp_all add: upd_def)

lemma strm_upd [simp]:
  "r < length (s_heap s) \<Longrightarrow> strm (upd r f s) q = (if q = r then f (strm s r) else strm s q)"
  by (simp add: strm_def upd_def nth_list_update)

lemma upd_upd: "r < length (s_heap s) \<Longrightarrow> upd r g (upd r f s) = upd r (\<lambda>st. g (f st)) s"
  by (simp add: upd_def)

lemma upd_same: "f (strm s r) = strm s r \<Longrightarrow> upd r f s = s"
  by (simp add: upd_def strm_def list_update_id)

lemma upd_cong: "f (strm s r) = g (strm s r) \<Longrightarrow> upd r f s = upd r g s"
  by (simp add: upd_def strm_def)

lemma removeStream_frame [simp, mux_frame]:
  "s_heap (removeStream i s) = s_heap s" "s_closed (removeStream i s) = s_closed s"
  "s_done (removeStream i s) = s_done s" "s_closeOnce (removeStream i s) = s_closeOnce s"
  "s_cbOnce (removeStream i s) = s_cbOnce s" "s_closeErr (removeStream i s) = s_closeErr s"
  "s_conn (removeStream i s) = s_conn s" "s_served (removeStream i s) = s_served s"
  "s_closeCalls (removeStream i s) = s_closeCalls s" "s_panicked (removeStream i s) = s_panicked s"
  "s_streams (removeStream i s) = AList.delete i (s_streams s)"
  "s_nextID (removeStream i s) = s_nextID s" "s_server (removeStream i s) = s_server s"
  "s_stalled (removeStream i s) = s_stalled s" "s_lastRecv (removeStream i s) = s_lastRecv s"
  "strm (removeStream i s) r = strm s r"
  by (simp_all add: removeStream_def strm_def)

section \<open>The invariant\<close>

definition stream_ok :: "stream \<Rightarrow> bool" where
  "stream_ok st \<longleftrightarrow>
     eofCh st = readDone st \<and> (readErr st \<noteq> None) = readDone st \<and>
     length (chunks st) \<le> chunksCap \<and>
     (rst st \<longrightarrow> readDone st \<and> aborted st \<and> removed st) \<and>
     (removed st \<longrightarrow> readDone st) \<and> (aborted st \<longrightarrow> readDone st)"

definition map_ok :: "session \<Rightarrow> bool" where
  "map_ok s \<longleftrightarrow>
     distinct (map fst (s_streams s)) \<and>
     (\<forall>(i, r) \<in> set (s_streams s). r < length (s_heap s) \<and> st_id (strm s r) = i \<and>
        \<not> removed (strm s r) \<and> (s_done s \<longrightarrow> readDone (strm s r) \<and> aborted (strm s r)))"

definition close_ok :: "session \<Rightarrow> bool" where
  "close_ok s \<longleftrightarrow>
     s_closed s = s_closeOnce s \<and> s_done s = s_closed s \<and> (s_closeErr s \<noteq> None) = s_closed s \<and>
     (s_done s \<longrightarrow> w_closed (s_conn s)) \<and>
     length (s_closeCalls s) = (if s_cbOnce s then 1 else 0) \<and> \<not> s_panicked s"

definition sess_ok :: "session \<Rightarrow> bool" where
  "sess_ok s \<longleftrightarrow>
     list_all stream_ok (s_heap s) \<and> map_ok s \<and> close_ok s \<and>
     (\<forall>r < length (s_heap s). aborted (strm s r) \<longrightarrow> rst (strm s r) \<or> s_done s)"

lemma sess_okD_stream: "sess_ok s \<Longrightarrow> r < length (s_heap s) \<Longrightarrow> stream_ok (strm s r)"
  by (simp add: sess_ok_def list_all_length strm_def)

lemma getStream_ok:
  assumes "sess_ok s" and "getStream i s = Some r"
  shows "r < length (s_heap s) \<and> st_id (strm s r) = i \<and> \<not> removed (strm s r)"
  using assms map_of_SomeD [of "s_streams s" i r]
  by (fastforce simp: sess_ok_def map_ok_def getStream_def)

text \<open>The fields the invariant does not mention may change freely.\<close>

lemma sess_ok_same:
  assumes "sess_ok s"
    and "s_heap s' = s_heap s" "s_streams s' = s_streams s" "s_done s' = s_done s"
    and "s_closed s' = s_closed s" "s_closeOnce s' = s_closeOnce s" "s_closeErr s' = s_closeErr s"
    and "w_closed (s_conn s') = w_closed (s_conn s)" "s_closeCalls s' = s_closeCalls s"
    and "s_cbOnce s' = s_cbOnce s" "s_panicked s' = s_panicked s"
  shows "sess_ok s'"
  using assms(1) unfolding sess_ok_def map_ok_def close_ok_def strm_def assms(2-) .

lemma new_sessions_ok:
  "\<not> w_closed w \<Longrightarrow> sess_ok (NewServerSession w)" "\<not> w_closed w \<Longrightarrow> sess_ok (NewClientSession w)"
  by (simp_all add: sess_ok_def map_ok_def close_ok_def NewServerSession_def NewClientSession_def
      newSession_def)

text \<open>One stream changes: what has to hold of the change for the invariant to survive it.\<close>

definition stream_step :: "bool \<Rightarrow> stream \<Rightarrow> stream \<Rightarrow> bool" where
  "stream_step sdone st st' \<longleftrightarrow>
     stream_ok st' \<and> st_id st' = st_id st \<and>
     (readDone st \<longrightarrow> readDone st') \<and> (aborted st \<longrightarrow> aborted st') \<and>
     (rst st \<longrightarrow> rst st') \<and> (aborted st' \<longrightarrow> rst st' \<or> sdone)"

lemma sess_ok_aborted:
  "sess_ok s \<Longrightarrow> r < length (s_heap s) \<Longrightarrow> aborted (strm s r) \<Longrightarrow> rst (strm s r) \<or> s_done s"
  by (simp add: sess_ok_def)

lemma upd_ok:
  assumes ok: "sess_ok s" and r: "r < length (s_heap s)"
    and f: "stream_step (s_done s) (strm s r) (f (strm s r))"
    and rm: "removed (f (strm s r)) = removed (strm s r)"
  shows "sess_ok (upd r f s)"
proof -
  have "list_all stream_ok (s_heap (upd r f s))"
    using ok f by (simp add: sess_ok_def stream_step_def upd_def strm_def list_all_nth_update)
  moreover have "map_ok (upd r f s)"
    using ok r f rm by (fastforce simp: sess_ok_def map_ok_def stream_step_def)
  moreover have "close_ok (upd r f s)"
    using ok by (simp add: sess_ok_def close_ok_def)
  ultimately show ?thesis
    using ok r f by (auto simp: sess_ok_def stream_step_def)
qed

lemma removeStream_ok: "sess_ok s \<Longrightarrow> sess_ok (removeStream i s)"
  by (auto simp: sess_ok_def map_ok_def close_ok_def set_AList_delete intro!: distinct_keys_delete)

text \<open>The same when the stream leaves the map in the step.\<close>

lemma upd_removed_ok:
  assumes ok: "sess_ok s" and r: "r < length (s_heap s)"
    and f: "stream_step (s_done s) (strm s r) (f (strm s r))"
  shows "sess_ok (removeStream (st_id (strm s r)) (upd r f s))"
proof -
  let ?s = "removeStream (st_id (strm s r)) (upd r f s)"
  have "list_all stream_ok (s_heap ?s)"
    using ok f by (simp add: sess_ok_def stream_step_def upd_def strm_def list_all_nth_update)
  moreover have "map_ok ?s"
    using ok r f
    by (fastforce simp: sess_ok_def map_ok_def stream_step_def set_AList_delete
        intro!: distinct_keys_delete)
  moreover have "close_ok ?s"
    using ok by (simp add: sess_ok_def close_ok_def)
  ultimately show ?thesis
    using ok r f by (auto simp: sess_ok_def stream_step_def)
qed

section \<open>Normal forms\<close>

definition st_done :: "err \<Rightarrow> stream \<Rightarrow> stream" where
  "st_done e st = (if readDone st then st
     else st\<lparr>readDone := True, readErr := Some e, eofCh := True\<rparr>)"

lemma st_done_fields [simp]:
  "st_id (st_done e st) = st_id st" "chunks (st_done e st) = chunks st"
  "cur (st_done e st) = cur st" "aborted (st_done e st) = aborted st" "readDone (st_done e st)"
  "sentClose (st_done e st) = sentClose st" "rst (st_done e st) = rst st"
  "removed (st_done e st) = removed st"
  "readErr (st_done e st) = (if readDone st then readErr st else Some e)"
  by (simp_all add: st_done_def)

lemma upd_st_done_open:
  "\<not> readDone (strm s r) \<Longrightarrow>
   upd r (st_done e) s = upd r (\<lambda>st. st\<lparr>readDone := True, readErr := Some e, eofCh := True\<rparr>) s"
  by (rule upd_cong) (simp add: st_done_def)

lemma stream_ok_done: "stream_ok st \<Longrightarrow> stream_ok (st_done e st)"
  by (auto simp: stream_ok_def st_done_def)

lemma markReadDone_net:
  "r < length (s_heap s) \<Longrightarrow> eofCh (strm s r) = readDone (strm s r) \<Longrightarrow>
   snd (markReadDone r e s) = upd r (st_done e) s"
proof (cases "readDone (strm s r)")
  case True
  then show ?thesis by (simp add: markReadDone_def upd_same st_done_def)
next
  case False
  assume "r < length (s_heap s)" "eofCh (strm s r) = readDone (strm s r)"
  with False show ?thesis
    by (simp add: markReadDone_def closeEof_def upd_upd upd_st_done_open)
qed

lemma signalAbort_net:
  "signalAbort r s = upd r (\<lambda>st. st\<lparr>aborted := True\<rparr>) s"
  by (auto simp: signalAbort_def upd_same)

lemma remove_net:
  "r < length (s_heap s) \<Longrightarrow> remove r s =
   (if removed (strm s r) then s
    else removeStream (st_id (strm s r)) (upd r (\<lambda>st. st\<lparr>removed := True\<rparr>) s))"
  by (simp add: remove_def)

lemma abandon_net:
  assumes "r < length (s_heap s)" and "stream_ok (strm s r)"
  shows "abandon r s = upd r (\<lambda>st. (st_done ErrSessionClosed st)\<lparr>aborted := True\<rparr>) s"
  using assms by (simp add: abandon_def markReadDone_net signalAbort_net upd_upd stream_ok_def)

lemma remoteReset_net:
  assumes "r < length (s_heap s)" and "stream_ok (strm s r)" and "\<not> removed (strm s r)"
  shows "remoteReset r s = removeStream (st_id (strm s r))
     (upd r (\<lambda>st. (st_done ErrStreamReset (st\<lparr>rst := True\<rparr>))\<lparr>aborted := True, removed := True\<rparr>) s)"
  using assms
  by (simp add: remoteReset_def markReadDone_net signalAbort_net remove_net upd_upd stream_ok_def)

lemma remoteClose_net:
  assumes "r < length (s_heap s)" and "stream_ok (strm s r)" and "\<not> removed (strm s r)"
  shows "remoteClose r s =
     (if sentClose (strm s r)
      then removeStream (st_id (strm s r)) (upd r (\<lambda>st. (st_done EOF st)\<lparr>removed := True\<rparr>) s)
      else upd r (st_done EOF) s)"
  using assms
  by (simp add: remoteClose_def Let_def markReadDone_net remove_net upd_upd stream_ok_def)

section \<open>Every operation keeps the invariant\<close>

subsection \<open>Writing frames, opening streams\<close>

lemma w_write_closed: "w_closed (snd (w_write b w)) = w_closed w"
  by (simp add: w_write_def split: list.splits option.splits prod.splits)

lemma writeFrame_closed: "w_closed (snd (writeFrame t i p w)) = w_closed w"
proof -
  obtain e w1 where 1: "w_write (putHeader t i (length p)) w = (e, w1)" by fastforce
  obtain e' w2 where 2: "w_write p w1 = (e', w2)" by fastforce
  have "w_closed w1 = w_closed w" "w_closed w2 = w_closed w1"
    using w_write_closed [of "putHeader t i (length p)" w] w_write_closed [of p w1] 1 2 by simp_all
  then show ?thesis
    by (cases e; cases e') (simp_all add: writeFrame_def 1 2 w_write_closed)
qed

text \<open>A step that only writes to the connection.\<close>

definition conn_only :: "session \<Rightarrow> session \<Rightarrow> bool" where
  "conn_only s s' \<longleftrightarrow> (\<exists>w. s' = s\<lparr>s_conn := w\<rparr> \<and> w_closed w = w_closed (s_conn s))"

lemma conn_only_refl [simp]: "conn_only s s"
  unfolding conn_only_def by (rule exI [of _ "s_conn s"]) simp

lemma conn_onlyI: "w_closed w = w_closed (s_conn s) \<Longrightarrow> conn_only s (s\<lparr>s_conn := w\<rparr>)"
  unfolding conn_only_def by (rule exI [of _ w]) simp

lemma conn_onlyE:
  assumes "conn_only s s'"
  obtains w where "s' = s\<lparr>s_conn := w\<rparr>" and "w_closed w = w_closed (s_conn s)"
  using assms unfolding conn_only_def by blast

lemma conn_only_trans: "conn_only s s' \<Longrightarrow> conn_only s' s'' \<Longrightarrow> conn_only s s''"
  by (elim conn_onlyE) (simp add: conn_onlyI)

lemma conn_only_frame:
  assumes "conn_only s s'"
  shows "s_heap s' = s_heap s" "s_streams s' = s_streams s" "s_done s' = s_done s"
    "s_closed s' = s_closed s" "s_nextID s' = s_nextID s" "s_closeCalls s' = s_closeCalls s"
    "strm s' r = strm s r" "s_server s' = s_server s"
  using assms by (elim conn_onlyE, simp add: strm_def)+

lemma conn_only_ok: "conn_only s s' \<Longrightarrow> sess_ok s \<Longrightarrow> sess_ok s'"
  by (elim conn_onlyE) (erule sess_ok_same, simp_all)

lemma sess_writeFrame_conn_only: "conn_only s (snd (sess_writeFrame t i p s))"
proof (cases "s_closed s")
  case True
  then show ?thesis by (simp add: sess_writeFrame_def)
next
  case False
  obtain e w where "writeFrame t i p (s_conn s) = (e, w)" by fastforce
  with False writeFrame_closed [of t i p "s_conn s"] show ?thesis
    by (simp add: sess_writeFrame_def conn_onlyI)
qed

lemma sess_writeFrame_ok: "sess_ok s \<Longrightarrow> sess_ok (snd (sess_writeFrame t i p s))"
  by (rule conn_only_ok [OF sess_writeFrame_conn_only])

lemmas sess_writeFrame_same [simp, mux_frame] = conn_only_frame [OF sess_writeFrame_conn_only]

text \<open>Changes outside the heap, the map and the closing flags.\<close>

lemma other_fields_ok [simp]:
  "sess_ok (s\<lparr>s_nextID := a\<rparr>) = sess_ok s" "sess_ok (s\<lparr>s_stalled := b\<rparr>) = sess_ok s"
  "sess_ok (s\<lparr>s_pongs := c\<rparr>) = sess_ok s" "sess_ok (s\<lparr>s_served := d\<rparr>) = sess_ok s"
  "sess_ok (s\<lparr>s_lastRecv := l\<rparr>) = sess_ok s"
  by (auto elim: sess_ok_same)

lemma stream_ok_new [simp]: "stream_ok (newStream i)"
  by (simp add: stream_ok_def newStream_def)

lemma strm_append:
  "strm (s\<lparr>s_heap := s_heap s @ [st]\<rparr>) r =
     (if r < length (s_heap s) then strm s r
      else if r = length (s_heap s) then st else strm (s\<lparr>s_heap := s_heap s @ [st]\<rparr>) r)"
  by (simp add: strm_def nth_append)

lemma alloc_ok: "sess_ok s \<Longrightarrow> sess_ok (s\<lparr>s_heap := s_heap s @ [newStream i]\<rparr>)"
  by (auto simp: sess_ok_def map_ok_def close_ok_def strm_def nth_append newStream_def less_Suc_eq
      split: prod.splits)
     (auto simp: stream_ok_def)

lemma insert_ok:
  assumes "sess_ok s" and "\<not> s_closed s" and "r < length (s_heap s)"
    and "st_id (strm s r) = i" and "\<not> removed (strm s r)"
  shows "sess_ok (s\<lparr>s_streams := AList.update i r (s_streams s)\<rparr>)"
  using assms
  by (auto simp: sess_ok_def map_ok_def close_ok_def strm_def distinct_keys_update
      dest!: set_AList_update)

lemma alloc_insert_ok:
  assumes "sess_ok s" and "\<not> s_closed s"
  shows "sess_ok (s\<lparr>s_heap := s_heap s @ [newStream i],
                     s_streams := AList.update i (length (s_heap s)) (s_streams s)\<rparr>)"
  using insert_ok [OF alloc_ok [OF assms(1), of i], of "length (s_heap s)" i] assms(2)
  by (simp add: strm_def newStream_def)

lemma OpenStream_ok: "sess_ok s \<Longrightarrow> sess_ok (snd (OpenStream meta s))"
proof -
  assume ok: "sess_ok s"
  let ?s2 = "s\<lparr>s_nextID := s_nextID s + 2, s_heap := s_heap s @ [newStream (s_nextID s)]\<rparr>"
  show ?thesis
  proof (cases "s_closed s")
    case True
    with ok show ?thesis
      using alloc_ok [of "s\<lparr>s_nextID := s_nextID s + 2\<rparr>"] by (simp add: OpenStream_def alloc_def)
  next
    case False
    let ?s3 = "?s2\<lparr>s_streams := AList.update (s_nextID s) (length (s_heap s)) (s_streams s)\<rparr>"
    obtain e s4 where s4: "sess_writeFrame FrameOpen (s_nextID s) meta ?s3 = (e, s4)" by fastforce
    have "sess_ok ?s3"
      using alloc_insert_ok [of "s\<lparr>s_nextID := s_nextID s + 2\<rparr>" "s_nextID s"] ok False by simp
    then have "sess_ok s4"
      using sess_writeFrame_ok [of ?s3 FrameOpen "s_nextID s" meta] by (simp add: s4)
    with False s4 show ?thesis
      by (cases e) (simp_all add: OpenStream_def alloc_def removeStream_ok Let_def)
  qed
qed

subsection \<open>Streams\<close>

lemma remoteClose_ok:
  assumes "sess_ok s" and "r < length (s_heap s)" and "\<not> removed (strm s r)"
  shows "sess_ok (remoteClose r s)"
proof -
  have st: "stream_ok (strm s r)" using assms by (simp add: sess_okD_stream)
  have ab: "aborted (strm s r) \<longrightarrow> rst (strm s r) \<or> s_done s"
    using assms sess_ok_aborted by blast
  have step: "stream_step (s_done s) (strm s r) ((st_done EOF (strm s r))\<lparr>removed := b\<rparr>)"
    if "b = removed (strm s r) \<or> b" for b
    using st ab that assms(3) by (auto simp: stream_step_def stream_ok_def st_done_def)
  from step [of "False"] assms st step [of True] show ?thesis
    by (auto simp: remoteClose_net upd_removed_ok stream_step_def stream_ok_done
        intro!: upd_ok upd_removed_ok)
qed

lemma remoteReset_ok:
  assumes "sess_ok s" and "r < length (s_heap s)" and "\<not> removed (strm s r)"
  shows "sess_ok (remoteReset r s)"
proof -
  have st: "stream_ok (strm s r)" using assms by (simp add: sess_okD_stream)
  then show ?thesis
    using assms
    by (auto simp: remoteReset_net stream_step_def stream_ok_def st_done_def
        intro!: upd_removed_ok)
qed

lemma pushData_ok:
  assumes "sess_ok s" and "r < length (s_heap s)" and "pushData pick r p s = Some s'"
  shows "sess_ok s'"
  using assms sess_okD_stream [OF assms(1,2)] sess_ok_aborted [OF assms(1,2)]
  by (auto simp: pushData_def Let_def stream_step_def stream_ok_def
      split: if_splits intro!: upd_ok)

lemma stRead_flags:
  "stRead n d st = (res, st') \<Longrightarrow>
   st' = st\<lparr>cur := cur st', chunks := chunks st'\<rparr> \<and> length (chunks st') \<le> length (chunks st)"
proof (induction n d st arbitrary: res st' rule: stRead.induct)
  case (1 n d st)
  show ?case
  proof (cases "cur st = [] \<and> chunks st \<noteq> []")
    case True
    then obtain c cs where c: "chunks st = c # cs" by (cases "chunks st") auto
    with True "1.prems" have "stRead n d (st\<lparr>cur := c, chunks := cs\<rparr>) = (res, st')"
      by (simp add: stRead.simps [of n d st])
    then have "st' = st\<lparr>cur := cur st', chunks := chunks st'\<rparr> \<and> length (chunks st') \<le> length cs"
      using "1.IH" [of c cs res st'] True c by simp
    with c show ?thesis by simp
  next
    case False
    then have "st' = st \<or> (\<exists>x. st' = st\<lparr>cur := x\<rparr>)"
      using "1.prems" by (auto simp: stRead.simps [of n d st] split: if_splits list.splits)
    then show ?thesis by auto
  qed
qed

lemma Read_ok:
  assumes "sess_ok s" and "r < length (s_heap s)"
  shows "sess_ok (snd (Read n r s))"
proof -
  obtain res st' where st': "stRead n (s_done s) (strm s r) = (res, st')"
    by fastforce
  from stRead_flags [OF this] obtain c cs where "st' = (strm s r)\<lparr>cur := c, chunks := cs\<rparr>"
    and "length cs \<le> length (chunks (strm s r))"
    by metis
  then have "stream_step (s_done s) (strm s r) st' \<and> removed st' = removed (strm s r)"
    using sess_okD_stream [OF assms] sess_ok_aborted [OF assms]
    by (simp add: stream_step_def stream_ok_def)
  then show ?thesis
    using upd_ok [OF assms, of "\<lambda>_. st'"] by (simp add: Read_def st')
qed

lemma writeLoop_conn_only: "conn_only s (snd (writeLoop r b t s))"
proof (induction r b t s rule: writeLoop.induct)
  case (1 r b t s)
  let ?n = "min (length b) MaxPayload"
  let ?f = "sess_writeFrame FrameData (st_id (strm s r)) (take ?n b) s"
  show ?case
  proof (cases "b = [] \<or> (0 < t \<and> checkWrite (strm s r) \<noteq> None)")
    case True
    then show ?thesis by (auto simp: writeLoop.simps [of r b t s] split: option.splits)
  next
    case False
    then have c: "(if 0 < t then checkWrite (strm s r) else None) = None" "b \<noteq> []" by auto
    obtain e s1 where f: "?f = (e, s1)" by fastforce
    have s1: "conn_only s s1"
      using sess_writeFrame_conn_only [of s FrameData "st_id (strm s r)" "take ?n b"] f by simp
    show ?thesis
    proof (cases e)
      case None
      with "1.IH" c f have "conn_only s1 (snd (writeLoop r (drop ?n b) (t + ?n) s1))" by simp
      with s1 show ?thesis
        using c f None by (auto simp: writeLoop.simps [of r b t s] Let_def intro: conn_only_trans)
    next
      case (Some x)
      with c f s1 show ?thesis by (simp add: writeLoop.simps [of r b t s] Let_def)
    qed
  qed
qed

lemma Write_conn_only: "conn_only s (snd (Write r b s))"
  by (simp add: Write_def writeLoop_conn_only split: option.splits)

lemma Write_ok: "sess_ok s \<Longrightarrow> sess_ok (snd (Write r b s))"
  by (rule conn_only_ok [OF Write_conn_only])

lemma remove_ok:
  assumes "sess_ok s" and "r < length (s_heap s)" and "readDone (strm s r)"
  shows "sess_ok (remove r s)"
  using assms sess_okD_stream [OF assms(1,2)] sess_ok_aborted [OF assms(1,2)]
  by (auto simp: remove_net stream_step_def stream_ok_def intro!: upd_removed_ok)

lemma CloseWrite_ok:
  assumes "sess_ok s" and "r < length (s_heap s)"
  shows "sess_ok (snd (CloseWrite r s))"
proof -
  let ?s1 = "upd r (\<lambda>st. st\<lparr>sentClose := True\<rparr>) s"
  obtain e s2 where s2: "sess_writeFrame FrameClose (st_id (strm s r)) [] ?s1 = (e, s2)"
    by fastforce
  have "sess_ok ?s1"
    using assms sess_okD_stream [OF assms] sess_ok_aborted [OF assms]
    by (auto simp: stream_step_def stream_ok_def intro!: upd_ok)
  then have ok2: "sess_ok s2"
    using sess_writeFrame_ok [of ?s1 FrameClose "st_id (strm s r)" "[]"] by (simp add: s2)
  have "strm s2 r = (strm s r)\<lparr>sentClose := True\<rparr>" "s_heap s2 = s_heap ?s1"
    using sess_writeFrame_same [of FrameClose "st_id (strm s r)" "[]" ?s1] s2 assms(2) by simp_all
  then show ?thesis
    using assms ok2 remove_ok [OF ok2, of r] s2 by (simp add: CloseWrite_def Let_def)
qed

abbreviation fully_finished :: "stream \<Rightarrow> bool" where
  "fully_finished st \<equiv> sentClose st \<and> readDone st \<and> readErr st = Some EOF"

abbreviation st_abort :: "stream \<Rightarrow> stream" where
  "st_abort st \<equiv> (st_done ErrStreamReset (st\<lparr>rst := True, sentClose := True\<rparr>))\<lparr>aborted := True\<rparr>"

lemma sess_writeFrame_upd:
  "snd (sess_writeFrame t i p (upd r f s)) = upd r f (snd (sess_writeFrame t i p s))"
  by (simp add: sess_writeFrame_def upd_def split: prod.splits)

lemma Abort_net:
  assumes "sess_ok s" and r: "r < length (s_heap s)" and live: "\<not> rst (strm s r)"
    and t: "t = (if fully_finished (strm s r) then s
        else snd (sess_writeFrame FrameReset (st_id (strm s r)) [] s))"
  shows "Abort r s =
      (if removed (strm s r) then upd r st_abort t
       else removeStream (st_id (strm s r)) (upd r (\<lambda>st. (st_abort st)\<lparr>removed := True\<rparr>) t))"
proof -
  let ?st = "strm s r"
  have st: "stream_ok ?st" using assms by (intro sess_okD_stream)
  have heap: "s_heap t = s_heap s" "strm t r = ?st" by (simp_all add: t)
  define s2 where "s2 = upd r (\<lambda>st. st\<lparr>rst := True, sentClose := True\<rparr>) t"
  have "Abort r s = remove r (signalAbort r (snd (markReadDone r ErrStreamReset s2)))"
    using live by (simp add: Abort_def Let_def s2_def t sess_writeFrame_upd)
  also have "signalAbort r (snd (markReadDone r ErrStreamReset s2)) = upd r st_abort t"
    using r st heap by (simp add: s2_def markReadDone_net signalAbort_net upd_upd stream_ok_def)
  also have "remove r (upd r st_abort t) =
      (if removed ?st then upd r st_abort t
       else removeStream (st_id ?st) (upd r (\<lambda>st. (st_abort st)\<lparr>removed := True\<rparr>) t))"
    using r heap by (simp add: remove_net upd_upd)
  finally show ?thesis .
qed

lemma Abort_ok:
  assumes ok: "sess_ok s" and r: "r < length (s_heap s)"
  shows "sess_ok (Abort r s)"
proof (cases "rst (strm s r)")
  case True
  with ok show ?thesis by (simp add: Abort_def)
next
  case False
  let ?st = "strm s r"
  define t where "t = (if fully_finished ?st then s
      else snd (sess_writeFrame FrameReset (st_id ?st) [] s))"
  have st: "stream_ok ?st" using assms by (rule sess_okD_stream)
  have "conn_only s t" by (simp add: t_def sess_writeFrame_conn_only)
  then have t: "sess_ok t" "strm t r = ?st" "s_done t = s_done s" "s_heap t = s_heap s"
    using conn_only_ok [OF _ ok] conn_only_frame by (auto elim: conn_onlyE simp: strm_def)
  have "removed ?st \<Longrightarrow> stream_step (s_done s) ?st (st_abort ?st)"
    "stream_step (s_done s) ?st ((st_abort ?st)\<lparr>removed := True\<rparr>)"
    using st by (auto simp: stream_step_def stream_ok_def st_done_def)
  then show ?thesis
    using Abort_net [OF ok r False t_def] upd_ok [OF t(1), of r st_abort] t r
      upd_removed_ok [OF t(1), of r "\<lambda>st. (st_abort st)\<lparr>removed := True\<rparr>"] by simp
qed

subsection \<open>Closing the session\<close>

lemma fold_abandon:
  assumes "list_all stream_ok (s_heap s)" and "\<forall>r \<in> set rs. r < length (s_heap s)"
  shows "\<exists>h. fold abandon rs s = s\<lparr>s_heap := h\<rparr> \<and> length h = length (s_heap s) \<and>
     list_all stream_ok h \<and>
     (\<forall>q < length h. h ! q = (if q \<in> set rs then (st_done ErrSessionClosed (s_heap s ! q))\<lparr>aborted := True\<rparr>
                           else s_heap s ! q))"
  using assms
proof (induction rs arbitrary: s)
  case Nil
  then show ?case by (intro exI [of _ "s_heap s"]) simp
next
  case (Cons r rs)
  let ?g = "\<lambda>st. (st_done ErrSessionClosed st)\<lparr>aborted := True\<rparr>"
  let ?s = "upd r ?g s"
  have r: "r < length (s_heap s)" "stream_ok (strm s r)"
    using Cons.prems by (auto simp: strm_def list_all_length)
  have g: "stream_ok (?g (strm s r))"
    using r(2) by (auto simp: stream_ok_def st_done_def)
  have "list_all stream_ok (s_heap ?s)"
    using Cons.prems(1) g by (simp add: upd_def strm_def list_all_nth_update)
  then obtain h where h: "fold abandon rs ?s = ?s\<lparr>s_heap := h\<rparr>" "length h = length (s_heap s)"
      "list_all stream_ok h"
      "\<forall>q < length h. h ! q = (if q \<in> set rs then ?g (s_heap ?s ! q) else s_heap ?s ! q)"
    using Cons.IH [of ?s] Cons.prems(2) by auto
  moreover have "?g (?g st) = ?g st" for st
    by (simp add: st_done_def)
  ultimately show ?case
    using r by (intro exI [of _ h]) (auto simp: abandon_net upd_def nth_list_update)
qed

lemma shutdown_open:
  assumes "sess_ok s" and "\<not> s_closeOnce s"
  obtains h where "shutdown e s = s\<lparr>s_closeOnce := True, s_closed := True, s_closeErr := Some e,
      s_heap := h, s_done := True, s_conn := (s_conn s)\<lparr>w_closed := True\<rparr>\<rparr>"
    and "length h = length (s_heap s)" and "list_all stream_ok h"
    and "\<And>q. q < length h \<Longrightarrow> h ! q = (if q \<in> snd ` set (s_streams s)
           then (st_done ErrSessionClosed (s_heap s ! q))\<lparr>aborted := True\<rparr> else s_heap s ! q)"
proof -
  let ?s1 = "s\<lparr>s_closeOnce := True, s_closed := True, s_closeErr := Some e\<rparr>"
  have "\<forall>r \<in> set (map snd (s_streams s)). r < length (s_heap s)"
    using assms(1) by (auto simp: sess_ok_def map_ok_def)
  with assms(1) obtain h where h: "fold abandon (map snd (s_streams s)) ?s1 = ?s1\<lparr>s_heap := h\<rparr>"
    "length h = length (s_heap s)" "list_all stream_ok h"
    "\<forall>q < length h. h ! q = (if q \<in> set (map snd (s_streams s))
        then (st_done ErrSessionClosed (s_heap s ! q))\<lparr>aborted := True\<rparr> else s_heap s ! q)"
    using fold_abandon [of ?s1 "map snd (s_streams s)"] by (auto simp: sess_ok_def)
  moreover have "\<not> s_done s"
    using assms by (simp add: sess_ok_def close_ok_def)
  ultimately have "shutdown e s = s\<lparr>s_closeOnce := True, s_closed := True, s_closeErr := Some e,
      s_heap := h, s_done := True, s_conn := (s_conn s)\<lparr>w_closed := True\<rparr>\<rparr>"
    using assms(2) by (simp add: shutdown_def Let_def)
  with that h show thesis by simp
qed

lemma shutdown_ok:
  assumes "sess_ok s"
  shows "sess_ok (shutdown e s)"
proof (cases "s_closeOnce s")
  case True
  with assms show ?thesis by (simp add: shutdown_def)
next
  case False
  from shutdown_open [OF assms False, of e] obtain h where
    h: "shutdown e s = s\<lparr>s_closeOnce := True, s_closed := True, s_closeErr := Some e,
      s_heap := h, s_done := True, s_conn := (s_conn s)\<lparr>w_closed := True\<rparr>\<rparr>"
      "length h = length (s_heap s)" "list_all stream_ok h"
      "\<And>q. q < length h \<Longrightarrow> h ! q = (if q \<in> snd ` set (s_streams s)
           then (st_done ErrSessionClosed (s_heap s ! q))\<lparr>aborted := True\<rparr> else s_heap s ! q)"
    by blast
  have entry: "r < length h \<and> st_id (h ! r) = i \<and> \<not> removed (h ! r) \<and> readDone (h ! r) \<and> aborted (h ! r)"
    if "(i, r) \<in> set (s_streams s)" for i r
  proof -
    have "r < length h" and "r \<in> snd ` set (s_streams s)"
      and "st_id (s_heap s ! r) = i \<and> \<not> removed (s_heap s ! r)"
      using assms that h(2) by (force simp: sess_ok_def map_ok_def strm_def)+
    then show ?thesis by (simp add: h(4))
  qed
  have "map_ok (shutdown e s)"
    using assms entry by (auto simp: sess_ok_def map_ok_def strm_def h(1))
  then show ?thesis
    using assms by (simp add: sess_ok_def h(1,3) close_ok_def)
qed

lemma fireOnClose_ok: "sess_ok s \<Longrightarrow> sess_ok (fireOnClose e s)"
  by (auto simp: fireOnClose_def sess_ok_def map_ok_def close_ok_def strm_def)

lemma CloseWithError_ok: "sess_ok s \<Longrightarrow> sess_ok (CloseWithError e s)"
  by (simp add: CloseWithError_def fireOnClose_ok shutdown_ok)

lemma finishRun_ok: "sess_ok s \<Longrightarrow> sess_ok (snd (finishRun e s))"
  by (simp add: finishRun_def Let_def fireOnClose_ok shutdown_ok)

subsection \<open>The read loop and the heartbeat\<close>

lemma markRecv_ok [simp]: "sess_ok (markRecv now s) = sess_ok s"
  by (simp add: markRecv_def)

lemma liveRead_ok [simp]: "sess_ok (liveRead now n s) = sess_ok s"
  by (simp add: liveRead_def)

lemma liveRead_frame [simp, mux_frame]:
  "s_heap (liveRead now n s) = s_heap s" "s_streams (liveRead now n s) = s_streams s"
  "s_closed (liveRead now n s) = s_closed s" "s_done (liveRead now n s) = s_done s"
  "s_stalled (liveRead now n s) = s_stalled s" "s_onStream (liveRead now n s) = s_onStream s"
  "s_pongs (liveRead now n s) = s_pongs s" "s_closeOnce (liveRead now n s) = s_closeOnce s"
  "s_closeErr (liveRead now n s) = s_closeErr s" "s_cbOnce (liveRead now n s) = s_cbOnce s"
  "s_nextID (liveRead now n s) = s_nextID s" "s_conn (liveRead now n s) = s_conn s"
  "strm (liveRead now n s) r = strm s r" "getStream i (liveRead now n s) = getStream i s"
  by (simp_all add: liveRead_def markRecv_def strm_def getStream_def)

lemma dispatch_open_ok:
  "sess_ok s \<Longrightarrow> dispatch now pick (FrameOpen, i, p) s = Next s' \<Longrightarrow> sess_ok s'"
  using alloc_ok [of s i] alloc_insert_ok [of s i]
  by (auto simp: dispatch_def alloc_def Let_def split: if_splits)

lemma dispatch_data:
  "dispatch now pick (FrameData, i, p) s =
     (case getStream i s of
        None \<Rightarrow> Next s
      | Some r \<Rightarrow> (case pushData pick r p (s\<lparr>s_stalled := True\<rparr>) of
                    None \<Rightarrow> Block (s\<lparr>s_stalled := True\<rparr>)
                  | Some s2 \<Rightarrow> Next ((markRecv now s2)\<lparr>s_stalled := False\<rparr>)))"
  by (cases "getStream i s") (simp_all add: dispatch_def frame_types Let_def)

lemma dispatch_data_ok:
  assumes "sess_ok s"
  shows "dispatch now pick (FrameData, i, p) s = Next s' \<Longrightarrow> sess_ok s'"
    and "dispatch now pick (FrameData, i, p) s = Block s' \<Longrightarrow> sess_ok s'"
  using assms getStream_ok [OF assms, of i] pushData_ok [of "s\<lparr>s_stalled := True\<rparr>" _ pick p]
  by (auto simp: dispatch_data split: option.splits)

lemma dispatch_ok:
  assumes ok: "sess_ok s" and d: "dispatch now pick f s = Next s' \<or> dispatch now pick f s = Block s'"
  shows "sess_ok s'"
proof -
  obtain t i p where f: "f = (t, i, p)" by (cases f)
  consider "t = FrameOpen" | "t = FrameData" | "t \<noteq> FrameOpen" "t \<noteq> FrameData" by blast
  then show ?thesis
  proof cases
    case 1
    with ok d f show ?thesis
      by (auto intro: dispatch_open_ok simp: dispatch_def alloc_def Let_def split: if_splits)
  next
    case 2
    with ok d f show ?thesis by (auto intro: dispatch_data_ok)
  next
    case 3
    with ok d f getStream_ok [OF ok, of i] show ?thesis
      by (auto simp: dispatch_def remoteClose_ok remoteReset_ok split: if_splits option.splits)
  qed
qed

lemma readLoop_next:
  assumes "readFrame rd = (Inr f, rd1)"
    and "dispatch (clk k) (pick k) f
           (liveRead (clk k) (length (r_bytes rd) - length (r_bytes rd1)) s) = Next s1"
  shows "readLoop clk pick k rd s = readLoop clk pick (Suc k) rd1 s1"
  using assms by (simp add: readLoop.simps [of clk pick k rd s])

primrec loop_state :: "loop_res \<Rightarrow> session" where
  "loop_state (Stopped e s) = s"
| "loop_state (Waiting f s rd) = s"

lemma readLoop_ok: "sess_ok s \<Longrightarrow> sess_ok (loop_state (readLoop clk pick k rd s))"
proof (induction clk pick k rd s rule: readLoop.induct)
  case (1 clk pick k rd s)
  obtain res rd1 where rf: "readFrame rd = (res, rd1)" by fastforce
  let ?s = "liveRead (clk k) (length (r_bytes rd) - length (r_bytes rd1)) s"
  have ok: "sess_ok ?s" using "1.prems" by simp
  show ?case
  proof (cases res)
    case (Inl e)
    with rf ok show ?thesis by (simp add: readLoop.simps [of clk pick k rd s])
  next
    case (Inr f)
    show ?thesis
    proof (cases "dispatch (clk k) (pick k) f ?s")
      case (Next s1)
      with ok have "sess_ok s1" using dispatch_ok by blast
      with "1.IH" [OF rf [symmetric] Inr Next] Next Inr rf show ?thesis
        by (simp add: readLoop_next)
    next
      case (Block s1)
      with ok have "sess_ok s1" using dispatch_ok by blast
      with Block Inr rf show ?thesis by (simp add: readLoop.simps [of clk pick k rd s])
    next
      case (Fail e)
      with Inr rf ok show ?thesis by (simp add: readLoop.simps [of clk pick k rd s])
    qed
  qed
qed

lemma watchdogTick_ok: "sess_ok s \<Longrightarrow> sess_ok (watchdogTick idle now s)"
  by (simp add: watchdogTick_def CloseWithError_ok)

lemma pongTick_ok: "sess_ok s \<Longrightarrow> pongTick s = Some (e, s') \<Longrightarrow> sess_ok s'"
  using sess_writeFrame_ok [of "s\<lparr>s_pongs := None\<rparr>" FramePong 0 "the (s_pongs s)"]
  by (auto simp: pongTick_def split: option.splits)

section \<open>A session as a state machine\<close>

text \<open>
  Everything that happens to a session: calls of its users, of its streams' users, frames that
  arrive, the heartbeat goroutines. \<open>mux_init\<close> are the states in which a session is handed to its
  users, with the callbacks and the liveness settings they chose.
\<close>

definition mux_init :: "session \<Rightarrow> bool" where
  "mux_init s \<longleftrightarrow>
     (\<exists>w os oc pi it. \<not> w_closed w \<and>
        (s = (NewServerSession w)\<lparr>s_onStream := os, s_onClose := oc, s_PingInterval := pi, s_IdleTimeout := it\<rparr> \<or>
         s = (NewClientSession w)\<lparr>s_onStream := os, s_onClose := oc, s_PingInterval := pi, s_IdleTimeout := it\<rparr>))"

inductive mux_op :: "session \<Rightarrow> session \<Rightarrow> bool" where
  op_open: "mux_op s (snd (OpenStream meta s))"
| op_bytes: "mux_op s (liveRead now n s)"
| op_frame: "dispatch now pick f s = Next s' \<Longrightarrow> mux_op s s'"
| op_stall: "dispatch now pick f s = Block s' \<Longrightarrow> mux_op s s'"
| op_read: "r < length (s_heap s) \<Longrightarrow> mux_op s (snd (Read n r s))"
| op_write: "r < length (s_heap s) \<Longrightarrow> mux_op s (snd (Write r b s))"
| op_closeWrite: "r < length (s_heap s) \<Longrightarrow> mux_op s (snd (CloseWrite r s))"
| op_abort: "r < length (s_heap s) \<Longrightarrow> mux_op s (Abort r s)"
| op_close: "mux_op s (CloseWithError e s)"
| op_finish: "mux_op s (snd (finishRun e s))"
| op_ping: "mux_op s (snd (pingTick t s))"
| op_pong: "pongTick s = Some (e, s') \<Longrightarrow> mux_op s s'"
| op_watchdog: "mux_op s (watchdogTick idle now s)"

lemma mux_init_ok: "mux_init s \<Longrightarrow> sess_ok s"
  by (auto simp: mux_init_def intro: sess_ok_same [OF new_sessions_ok(1)]
      sess_ok_same [OF new_sessions_ok(2)])

lemma mux_op_ok: "mux_op s t \<Longrightarrow> sess_ok s \<Longrightarrow> sess_ok t"
  by (induction rule: mux_op.induct)
     (auto simp: pingTick_def intro: OpenStream_ok dispatch_ok Read_ok Write_ok CloseWrite_ok
        Abort_ok CloseWithError_ok finishRun_ok sess_writeFrame_ok pongTick_ok watchdogTick_ok)

interpretation mux: invariant_system mux_init mux_op sess_ok
  by unfold_locales (blast intro: mux_init_ok mux_op_ok)+

end
