(* ===== verification/Mux_Props.thy ===== *)
theory Mux_Props
  imports Mux_Inv
begin

text \<open>
  What the multiplexer promises its users: data arrives complete and in order, an end of stream is
  clean only when the peer closed cleanly, stream ids do not collide, resets and session ends reach
  every reader and writer, and the liveness rules of the heartbeat.
\<close>

section \<open>Reading a stream to its end\<close>

lemma stRead_data:
  "stRead n d st = (RData b, st') \<Longrightarrow> 0 < n \<Longrightarrow>
   b \<noteq> [] \<and> b @ cur st' @ concat (chunks st') = cur st @ concat (chunks st)"
proof (induction n d st arbitrary: b st' rule: stRead.induct)
  case (1 n d st)
  show ?case
  proof (cases "cur st = [] \<and> chunks st \<noteq> []")
    case True
    then obtain c cs where c: "chunks st = c # cs" by (cases "chunks st") auto
    with True "1.prems" have "stRead n d (st\<lparr>cur := c, chunks := cs\<rparr>) = (RData b, st')"
      by (simp add: stRead.simps [of n d st])
    with "1.IH" [of c cs b st'] True c "1.prems"(2) show ?thesis by simp
  next
    case False
    with "1.prems" show ?thesis
      by (auto simp: stRead.simps [of n d st] split: if_splits list.splits)
  qed
qed

lemma stRead_end:
  "stRead n d st = (res, st') \<Longrightarrow> \<forall>b. res \<noteq> RData b \<Longrightarrow>
   cur st @ concat (chunks st) = [] \<and>
   res = (if readDone st then RErr (readEnd st) else if eofCh st \<or> d then RSpin else RBlock)"
proof (induction n d st arbitrary: res st' rule: stRead.induct)
  case (1 n d st)
  show ?case
  proof (cases "cur st = [] \<and> chunks st \<noteq> []")
    case True
    then obtain c cs where c: "chunks st = c # cs" by (cases "chunks st") auto
    with True "1.prems" have "stRead n d (st\<lparr>cur := c, chunks := cs\<rparr>) = (res, st')"
      by (simp add: stRead.simps [of n d st])
    with "1.IH" [of c cs res st'] True c "1.prems"(2) show ?thesis
      by (simp add: readEnd_def)
  next
    case False
    with "1.prems" show ?thesis
      by (auto simp: stRead.simps [of n d st] split: if_splits list.splits)
  qed
qed

text \<open>
  The loop of a consumer (\<^verbatim>\<open>io.Copy\<close>, the HTTP parsers) that keeps calling \<^verbatim>\<open>Read\<close> with a buffer of
  \<open>n > 0\<close> bytes: what it has collected when \<^verbatim>\<open>Read\<close> returns something other than data, and what that is.
\<close>

function readAll :: "nat \<Rightarrow> bool \<Rightarrow> stream \<Rightarrow> bytes \<times> read_res" where
  "readAll n d st =
     (if n = 0 then ([], RBlock)
      else case stRead n d st of
        (RData b, st') \<Rightarrow> (case readAll n d st' of (bs, e) \<Rightarrow> (b @ bs, e))
      | (res, st') \<Rightarrow> ([], res))"
  by pat_completeness auto
termination
proof (relation "measure (\<lambda>(n, d, st). length (cur st @ concat (chunks st)))", goal_cases)
  case (2 n d st x st' b)
  then have "b \<noteq> [] \<and> b @ cur st' @ concat (chunks st') = cur st @ concat (chunks st)"
    using stRead_data [of n d st b st'] by simp
  then have "length (cur st' @ concat (chunks st')) < length (cur st @ concat (chunks st))"
    by (metis add_less_same_cancel2 length_append length_greater_0_conv less_add_same_cancel2)
  then show ?case by simp
qed simp

declare readAll.simps [simp del]

lemma readAll_spec:
  "0 < n \<Longrightarrow> readAll n d st =
     (cur st @ concat (chunks st),
      if readDone st then RErr (readEnd st) else if eofCh st \<or> d then RSpin else RBlock)"
proof (induction n d st rule: readAll.induct)
  case (1 n d st)
  obtain res st' where r: "stRead n d st = (res, st')" by fastforce
  show ?case
  proof (cases "\<exists>b. res = RData b")
    case True
    then obtain b where b: "res = RData b" by blast
    obtain c cs where "st' = st\<lparr>cur := c, chunks := cs\<rparr>"
      using stRead_flags [OF r] by metis
    then have same: "readDone st' = readDone st" "readEnd st' = readEnd st" "eofCh st' = eofCh st"
      by (simp_all add: readEnd_def)
    have "b @ cur st' @ concat (chunks st') = cur st @ concat (chunks st)"
      using stRead_data [of n d st b st'] r b "1.prems" by simp
    moreover have "readAll n d st' = (cur st' @ concat (chunks st'),
        if readDone st' then RErr (readEnd st') else if eofCh st' \<or> d then RSpin else RBlock)"
      using "1.IH" [OF _ r [symmetric] b] "1.prems" by simp
    ultimately show ?thesis
      using r b "1.prems" by (simp add: readAll.simps [of n d st] same)
  next
    case False
    then show ?thesis
      using stRead_end [OF r] r "1.prems"
      by (cases res) (simp_all add: readAll.simps [of n d st])
  qed
qed

section \<open>Writing\<close>

function chunked :: "bytes \<Rightarrow> bytes list" where
  "chunked b = (if b = [] then [] else take MaxPayload b # chunked (drop MaxPayload b))"
  by pat_completeness auto
termination
  by (relation "measure length") (auto simp: MaxPayload_def)

declare chunked.simps [simp del]

lemma chunked_Nil [simp]: "chunked [] = []"
  by (simp add: chunked.simps [of "[]"])

lemma concat_chunked [simp]: "concat (chunked b) = b"
  by (induction b rule: chunked.induct) (subst chunked.simps, simp)

lemma chunked_bounds: "p \<in> set (chunked b) \<Longrightarrow> 0 < length p \<and> length p \<le> MaxPayload"
proof (induction b rule: chunked.induct)
  case (1 b)
  then show ?case
    by (cases "b = []") (auto simp: chunked.simps [of b] MaxPayload_def)
qed

lemma length_chunked: "length (chunked b) = (length b + MaxPayload - 1) div MaxPayload"
proof (induction b rule: chunked.induct)
  case (1 b)
  show ?case
  proof (cases "length b \<le> MaxPayload")
    case True
    then have "chunked b = (if b = [] then [] else [b])"
      by (simp add: chunked.simps [of b])
    moreover have "b \<noteq> [] \<Longrightarrow> (length b + MaxPayload - 1) div MaxPayload = 1"
      using True by (cases b) (auto simp: MaxPayload_def intro: div_nat_eqI)
    ultimately show ?thesis by (auto simp: MaxPayload_def)
  next
    case False
    then have b: "b \<noteq> []" by auto
    have "length (chunked b) = Suc ((length b - MaxPayload + MaxPayload - 1) div MaxPayload)"
      using "1.IH" b by (simp add: chunked.simps [of b])
    also have "\<dots> = (length b + MaxPayload - 1) div MaxPayload"
      using False div_add_self2 [of MaxPayload "length b - 1"] by (auto simp: MaxPayload_def)
    finally show ?thesis .
  qed
qed

abbreviation data_frames :: "u32 \<Rightarrow> bytes \<Rightarrow> frame list" where
  "data_frames i b \<equiv> map (\<lambda>p. (FrameData, i, p)) (chunked b)"

lemma sess_writeFrame_bytes:
  "sess_writeFrame t i p s = (None, s') \<Longrightarrow>
   w_bytes (s_conn s') = w_bytes (s_conn s) @ frame_bytes (t, i, p)"
  by (auto simp: sess_writeFrame_def dest: writeFrame_ok_bytes split: if_splits prod.splits)

lemma writeLoop_sent:
  "writeLoop r b t s = ((n, None), s') \<Longrightarrow>
   n = t + length b \<and>
   w_bytes (s_conn s') = w_bytes (s_conn s) @ concat (map frame_bytes (data_frames (st_id (strm s r)) b))"
proof (induction r b t s rule: writeLoop.induct)
  case (1 r b t s)
  let ?n = "min (length b) MaxPayload"
  let ?i = "st_id (strm s r)"
  show ?case
  proof (cases "b = []")
    case True
    with "1.prems" show ?thesis
      by (simp add: writeLoop.simps [of r "[]" t s])
  next
    case False
    obtain e s1 where w: "sess_writeFrame FrameData ?i (take ?n b) s = (e, s1)" by fastforce
    with "1.prems" False have c: "(if 0 < t then checkWrite (strm s r) else None) = None" "e = None"
      and rec: "writeLoop r (drop ?n b) (t + ?n) s1 = ((n, None), s')"
      by (auto simp: writeLoop.simps [of r b t s] Let_def split: option.splits)
    have "st_id (strm s1 r) = ?i"
      using sess_writeFrame_same(7) [of FrameData ?i "take ?n b" s r] w by simp
    with "1.IH" [OF False c(1) refl w [symmetric] _ rec] c w
    have "n = t + ?n + length (drop ?n b) \<and> w_bytes (s_conn s') = w_bytes (s_conn s1) @
        concat (map frame_bytes (data_frames ?i (drop ?n b)))"
      by simp
    moreover have "take ?n b = take MaxPayload b" "drop ?n b = drop MaxPayload b"
      by (simp_all add: min_def)
    ultimately show ?thesis
      using False sess_writeFrame_bytes [of FrameData ?i "take ?n b" s s1] w c
      by (auto simp: chunked.simps [of b])
  qed
qed

lemma Write_sent:
  "Write r b s = ((n, None), s') \<Longrightarrow>
   n = length b \<and>
   w_bytes (s_conn s') = w_bytes (s_conn s) @ concat (map frame_bytes (data_frames (st_id (strm s r)) b))"
  by (auto simp: Write_def dest: writeLoop_sent split: option.splits)

section \<open>Delivering frames\<close>

lemma getStream_live:
  assumes "sess_ok s" and "getStream i s = Some r" and "\<not> readDone (strm s r)"
  shows "\<not> s_done s \<and> \<not> eofCh (strm s r)"
proof -
  have "(i, r) \<in> set (s_streams s)"
    using assms(2) by (simp add: getStream_def map_of_SomeD)
  then show ?thesis
    using assms getStream_ok [OF assms(1,2)] sess_okD_stream [of s r]
    by (auto simp: sess_ok_def map_ok_def stream_ok_def)
qed

text \<open>Reading frames leaves the connection and the closing flag alone.\<close>

definition quiet :: "session \<Rightarrow> session \<Rightarrow> bool" where
  "quiet s s' \<longleftrightarrow> s_conn s' = s_conn s \<and> s_closed s' = s_closed s"

lemma quiet_refl [simp]: "quiet s s"
  by (simp add: quiet_def)

lemma quiet_trans: "quiet s s1 \<Longrightarrow> quiet s1 s2 \<Longrightarrow> quiet s s2"
  by (simp add: quiet_def)

lemma deliver_data:
  assumes ok: "sess_ok s" and g: "getStream i s = Some q" and open_: "\<not> readDone (strm s q)"
    and room: "length (chunks (strm s q)) < chunksCap" and len: "length p \<le> MaxPayload"
    and rd: "r_bytes rd = frame_bytes (FrameData, i, p) @ rest"
  shows "\<exists>s'. readLoop clk pick k rd s = readLoop clk pick (Suc k) (rd\<lparr>r_bytes := rest\<rparr>) s' \<and>
     sess_ok s' \<and> getStream i s' = Some q \<and>
     strm s' q = (strm s q)\<lparr>chunks := chunks (strm s q) @ [p]\<rparr> \<and> quiet s s'"
proof -
  have rf: "readFrame rd = (Inr (FrameData, i, p), rd\<lparr>r_bytes := rest\<rparr>)"
    using len rd by (rule readFrame_frame_bytes)
  let ?n = "length (r_bytes rd) - length (r_bytes (rd\<lparr>r_bytes := rest\<rparr>))"
  let ?s = "liveRead (clk k) ?n s"
  have q: "q < length (s_heap s)" using getStream_ok [OF ok g] by simp
  let ?f = "\<lambda>st. st\<lparr>chunks := chunks st @ [p]\<rparr>"
  have push: "pushData (pick k) q p (?s\<lparr>s_stalled := True\<rparr>) = Some (upd q ?f (?s\<lparr>s_stalled := True\<rparr>))"
    using getStream_live [OF ok g open_] open_ room by (simp add: pushData_def Let_def strm_def)
  let ?s' = "(markRecv (clk k) (upd q ?f (?s\<lparr>s_stalled := True\<rparr>)))\<lparr>s_stalled := False\<rparr>"
  have d: "dispatch (clk k) (pick k) (FrameData, i, p) ?s = Next ?s'"
    using g push by (simp add: dispatch_data)
  have "sess_ok ?s'"
    using dispatch_ok [of ?s "clk k" "pick k" "(FrameData, i, p)" ?s'] ok d by simp
  moreover have "getStream i ?s' = Some q"
    using g by (simp add: getStream_def markRecv_def)
  moreover have "strm ?s' q = ?f (strm s q)"
    using q by (simp add: strm_def markRecv_def upd_def)
  moreover have "quiet s ?s'" by (simp add: quiet_def markRecv_def upd_def liveRead_def)
  ultimately show ?thesis
    using readLoop_next [where clk = clk and pick = pick and k = k, OF rf d] by blast
qed

lemma deliver_datas:
  assumes "sess_ok s" and "getStream i s = Some q" and "\<not> readDone (strm s q)"
    and "length (chunks (strm s q)) + length ps \<le> chunksCap" and "\<forall>p \<in> set ps. length p \<le> MaxPayload"
    and "r_bytes rd = concat (map frame_bytes (map (\<lambda>p. (FrameData, i, p)) ps)) @ rest"
  shows "\<exists>s'. readLoop clk pick k rd s = readLoop clk pick (k + length ps) (rd\<lparr>r_bytes := rest\<rparr>) s' \<and>
     sess_ok s' \<and> getStream i s' = Some q \<and>
     strm s' q = (strm s q)\<lparr>chunks := chunks (strm s q) @ ps\<rparr> \<and> quiet s s'"
  using assms
proof (induction ps arbitrary: s rd k)
  case Nil
  then have "rd\<lparr>r_bytes := rest\<rparr> = rd" by (cases rd) simp
  then show ?case
    using Nil by (intro exI [of _ s]) (auto simp del: reader.update_convs)
next
  case (Cons p ps)
  let ?rest = "concat (map frame_bytes (map (\<lambda>p. (FrameData, i, p)) ps)) @ rest"
  obtain s1 where s1: "readLoop clk pick k rd s = readLoop clk pick (Suc k) (rd\<lparr>r_bytes := ?rest\<rparr>) s1"
      "sess_ok s1" "getStream i s1 = Some q"
      "strm s1 q = (strm s q)\<lparr>chunks := chunks (strm s q) @ [p]\<rparr>" "quiet s s1"
    using deliver_data [OF Cons.prems(1,2,3), of p rd ?rest clk pick k] Cons.prems(4-) by auto
  obtain s2 where "readLoop clk pick (Suc k) (rd\<lparr>r_bytes := ?rest\<rparr>) s1 =
      readLoop clk pick (Suc k + length ps) ((rd\<lparr>r_bytes := ?rest\<rparr>)\<lparr>r_bytes := rest\<rparr>) s2"
      "sess_ok s2" "getStream i s2 = Some q"
      "strm s2 q = (strm s1 q)\<lparr>chunks := chunks (strm s1 q) @ ps\<rparr>" "quiet s1 s2"
    using Cons.IH [of s1 "rd\<lparr>r_bytes := ?rest\<rparr>" "Suc k"] s1 Cons.prems(3-) by auto
  with s1 show ?case by (intro exI [of _ s2]) (auto intro: quiet_trans)
qed

lemma dispatch_close:
  "dispatch now pick (FrameClose, i, p) s =
     (case getStream i s of None \<Rightarrow> Next s | Some r \<Rightarrow> Next (remoteClose r s))"
  by (simp add: dispatch_def frame_types)

lemma remoteClose_quiet: "quiet s (remoteClose r s)"
  by (simp add: quiet_def remoteClose_def Let_def markReadDone_def closeEof_def remove_def removeStream_def upd_def)

lemma deliver_close:
  assumes ok: "sess_ok s" and g: "getStream i s = Some q" and open_: "\<not> readDone (strm s q)"
    and rd: "r_bytes rd = frame_bytes (FrameClose, i, []) @ rest"
  shows "\<exists>s'. readLoop clk pick k rd s = readLoop clk pick (Suc k) (rd\<lparr>r_bytes := rest\<rparr>) s' \<and>
     sess_ok s' \<and> cur (strm s' q) = cur (strm s q) \<and> chunks (strm s' q) = chunks (strm s q) \<and>
     readDone (strm s' q) \<and> readErr (strm s' q) = Some EOF \<and> quiet s s' \<and>
     (\<not> sentClose (strm s q) \<longrightarrow> strm s' q = st_done EOF (strm s q) \<and> q < length (s_heap s'))"
proof -
  have rf: "readFrame rd = (Inr (FrameClose, i, []), rd\<lparr>r_bytes := rest\<rparr>)"
    using rd by (intro readFrame_frame_bytes) simp_all
  let ?n = "length (r_bytes rd) - length (r_bytes (rd\<lparr>r_bytes := rest\<rparr>))"
  let ?s = "liveRead (clk k) ?n s"
  have q: "q < length (s_heap ?s)" "\<not> removed (strm ?s q)" "stream_ok (strm ?s q)"
    using getStream_ok [OF ok g] sess_okD_stream [OF ok] by simp_all
  have d: "dispatch (clk k) (pick k) (FrameClose, i, []) ?s = Next (remoteClose q ?s)"
    using g by (simp add: dispatch_close)
  moreover have "sess_ok (remoteClose q ?s)"
    using ok q by (simp add: remoteClose_ok)
  moreover have quiet: "quiet s (remoteClose q ?s)"
    by (intro quiet_trans [OF _ remoteClose_quiet]) (simp add: quiet_def liveRead_def markRecv_def)
  ultimately show ?thesis
    using readLoop_next [where clk = clk and pick = pick and k = k, OF rf d] q open_
    by (intro exI [of _ "remoteClose q ?s"]) (simp add: remoteClose_net quiet)
qed

lemma checkWrite_None: "checkWrite st = None \<longleftrightarrow> \<not> rst st \<and> \<not> sentClose st"
  by (simp add: checkWrite_def)

lemma remove_conn [simp]: "s_conn (remove r s) = s_conn s"
  by (simp add: remove_def removeStream_def)

lemma CloseWrite_sent:
  assumes "CloseWrite r s = (None, s')" and "\<not> sentClose (strm s r)" and "\<not> rst (strm s r)"
  shows "w_bytes (s_conn s') = w_bytes (s_conn s) @ frame_bytes (FrameClose, st_id (strm s r), [])"
  using assms
  by (auto simp: CloseWrite_def Let_def dest!: sess_writeFrame_bytes split: prod.splits if_splits)

section \<open>Closing is final\<close>

text \<open>No operation touches the recorded close error once the session is closed.\<close>

lemma stream_ops_closeErr [simp]:
  "s_closeErr (signalAbort r s) = s_closeErr s" "s_closed (signalAbort r s) = s_closed s"
  "s_closeErr (snd (markReadDone r e s)) = s_closeErr s" "s_closed (snd (markReadDone r e s)) = s_closed s"
  "s_closeErr (remove r s) = s_closeErr s" "s_closed (remove r s) = s_closed s"
  "s_closeErr (remoteClose r s) = s_closeErr s" "s_closed (remoteClose r s) = s_closed s"
  "s_closeErr (remoteReset r s) = s_closeErr s" "s_closed (remoteReset r s) = s_closed s"
  by (simp_all add: signalAbort_def markReadDone_def closeEof_def remove_def remoteClose_def
      remoteReset_def Let_def)

lemma sess_writeFrame_closeErr [simp]: "s_closeErr (snd (sess_writeFrame t i p s)) = s_closeErr s"
  using sess_writeFrame_conn_only [of s t i p] by (elim conn_onlyE) simp

lemma user_ops_closeErr [simp]:
  "s_closeErr (snd (Write r b s)) = s_closeErr s" "s_closed (snd (Write r b s)) = s_closed s"
  "s_closeErr (snd (Read n r s)) = s_closeErr s" "s_closed (snd (Read n r s)) = s_closed s"
  "s_closeErr (Abort r s) = s_closeErr s" "s_closed (Abort r s) = s_closed s"
  using Write_conn_only [of s r b]
  by (auto simp: Read_def Abort_def Let_def split: prod.splits elim: conn_onlyE)

lemma CloseWrite_closeErr [simp]:
  "s_closeErr (snd (CloseWrite r s)) = s_closeErr s" "s_closed (snd (CloseWrite r s)) = s_closed s"
proof -
  let ?s1 = "upd r (\<lambda>st. st\<lparr>sentClose := True\<rparr>) s"
  obtain e s2 where "sess_writeFrame FrameClose (st_id (strm s r)) [] ?s1 = (e, s2)" by fastforce
  moreover from this have "s_closeErr s2 = s_closeErr s" "s_closed s2 = s_closed s"
    using sess_writeFrame_closeErr [of FrameClose "st_id (strm s r)" "[]" ?s1]
      sess_writeFrame_same(4) [of FrameClose "st_id (strm s r)" "[]" ?s1] by simp_all
  ultimately show "s_closeErr (snd (CloseWrite r s)) = s_closeErr s"
    "s_closed (snd (CloseWrite r s)) = s_closed s"
    by (simp_all add: CloseWrite_def Let_def)
qed

lemma dispatch_closeErr:
  "dispatch now pick f s = Next t \<or> dispatch now pick f s = Block t \<Longrightarrow>
   s_closeErr t = s_closeErr s \<and> s_closed t = s_closed s"
  by (cases f)
     (auto simp: dispatch_def alloc_def pushData_def markRecv_def Let_def
        split: if_splits option.splits)

lemma mux_op_closed:
  "mux_op s t \<Longrightarrow> sess_ok s \<Longrightarrow> s_closed s \<Longrightarrow> s_closeErr t = s_closeErr s \<and> s_closed t"
proof (induction rule: mux_op.induct)
  case (op_open s meta)
  then show ?case by (simp add: OpenStream_def alloc_def Let_def)
next
  case (op_pong s e s')
  then show ?case by (auto simp: pongTick_def sess_writeFrame_def split: option.splits)
next
  case (op_frame now pick f s s')
  then show ?case using dispatch_closeErr [of now pick f s s'] by simp
next
  case (op_stall now pick f s s')
  then show ?case using dispatch_closeErr [of now pick f s s'] by simp
qed (auto simp: CloseWithError_def finishRun_def fireOnClose_def shutdown_def watchdogTick_def
      pingTick_def sess_ok_def close_ok_def Let_def)

section \<open>Two sessions to try things on\<close>

definition fresh_conn :: writer where
  "fresh_conn = \<lparr>w_calls = [], w_plan = [], w_closed = False\<rparr>"

text \<open>A server session that has opened stream 1, and a client session that has received its OPEN.\<close>

definition demo_server :: session where
  "demo_server = snd (OpenStream [] (NewServerSession fresh_conn))"

definition demo_client :: session where
  "demo_client = loop_state (readLoop (\<lambda>_. 0) (\<lambda>_. False) 0
     \<lparr>r_bytes = frame_bytes (FrameOpen, 1, []), r_end = EOF\<rparr> (NewClientSession fresh_conn))"

lemma demo_server_eq:
  "demo_server = (NewServerSession fresh_conn)\<lparr>s_nextID := 3, s_heap := [newStream 1],
     s_streams := [(1, 0)],
     s_conn := \<lparr>w_calls = [frame_bytes (FrameOpen, 1, [])], w_plan = [], w_closed = False\<rparr>\<rparr>"
  by (simp add: demo_server_def OpenStream_def NewServerSession_def newSession_def alloc_def
      sess_writeFrame_def writeFrame_def w_write_def fresh_conn_def frame_bytes_def)

lemma demo_client_eq:
  "demo_client = (NewClientSession fresh_conn)\<lparr>s_heap := [newStream 1], s_streams := [(1, 0)]\<rparr>"
proof -
  let ?s = "(NewClientSession fresh_conn)\<lparr>s_heap := [newStream 1], s_streams := [(1, 0)]\<rparr>"
  let ?rd = "\<lparr>r_bytes = frame_bytes (FrameOpen, 1, []), r_end = EOF\<rparr>"
  have rf: "readFrame ?rd = (Inr (FrameOpen, 1, []), \<lparr>r_bytes = [], r_end = EOF\<rparr>)"
    using readFrame_frame_bytes [of "[]" ?rd FrameOpen 1 "[]"] by simp
  have d: "dispatch 0 False (FrameOpen, 1, []) (liveRead 0 n (NewClientSession fresh_conn)) = Next ?s" for n
    by (simp add: dispatch_def liveRead_def markRecv_def NewClientSession_def newSession_def alloc_def)
  have "readLoop (\<lambda>_. 0) (\<lambda>_. False) 0 ?rd (NewClientSession fresh_conn) =
      readLoop (\<lambda>_. 0) (\<lambda>_. False) (Suc 0) \<lparr>r_bytes = [], r_end = EOF\<rparr> ?s"
    by (rule readLoop_next [OF rf d])
  moreover have "readFrame \<lparr>r_bytes = [], r_end = EOF\<rparr> = (Inl EOF, \<lparr>r_bytes = [], r_end = EOF\<rparr>)"
    by (simp add: readFrame_def ReadFull_def HeaderSize_def)
  ultimately show ?thesis
    by (simp add: demo_client_def readLoop.simps [of _ _ "Suc 0"] liveRead_def)
qed

lemma demo_ok [simp]: "sess_ok demo_server" "sess_ok demo_client"
  using OpenStream_ok [OF new_sessions_ok(1) [of fresh_conn]]
    readLoop_ok [OF new_sessions_ok(2) [of fresh_conn]]
  by (simp_all add: demo_server_def demo_client_def fresh_conn_def)

lemma demo_facts [simp]:
  "getStream 1 demo_client = Some 0" "getStream 1 demo_server = Some 0"
  "strm demo_client 0 = newStream 1" "strm demo_server 0 = newStream 1"
  "length (s_heap demo_server) = 1" "length (s_heap demo_client) = 1"
  "s_closed demo_server = False" "s_closeOnce demo_server = False" "s_done demo_server = False"
  "s_stalled demo_server = False" "s_lastRecv demo_server = 0" "s_nextID demo_server = 3"
  "s_conn demo_server = \<lparr>w_calls = [frame_bytes (FrameOpen, 1, [])], w_plan = [], w_closed = False\<rparr>"
  by (simp_all add: demo_client_eq demo_server_eq getStream_def strm_def NewServerSession_def newSession_def)

lemma demo_reach: "reach mux_init mux_op demo_server"
proof -
  have "NewServerSession fresh_conn = (NewServerSession fresh_conn)
      \<lparr>s_onStream := False, s_onClose := False, s_PingInterval := 0, s_IdleTimeout := 0\<rparr>"
    by (simp add: NewServerSession_def newSession_def)
  then have "mux_init (NewServerSession fresh_conn)"
    unfolding mux_init_def by (metis fresh_conn_def writer.select_convs(3))
  then show ?thesis
    unfolding demo_server_def by (blast intro: reach.intros mux_op.op_open)
qed

lemma demo_write:
  "Write 0 [104, 105] demo_server = ((2, None), demo_server\<lparr>s_conn :=
     \<lparr>w_calls = [frame_bytes (FrameOpen, 1, []), frame_bytes (FrameData, 1, [104, 105])],
      w_plan = [], w_closed = False\<rparr>\<rparr>)"
  by (simp add: Write_def checkWrite_def newStream_def writeLoop.simps [of 0 "[104, 105]"]
      writeLoop.simps [of 0 "[]"] Let_def MaxPayload_def sess_writeFrame_def demo_server_eq
      NewServerSession_def newSession_def strm_def writeFrame_def w_write_def coalesceMax_def
      frame_bytes_def)

lemma demo_closeWrite:
  "CloseWrite 0 (demo_server\<lparr>s_conn := \<lparr>w_calls = cs, w_plan = [], w_closed = False\<rparr>\<rparr>) =
     (None, demo_server\<lparr>s_heap := [(newStream 1)\<lparr>sentClose := True\<rparr>],
        s_conn := \<lparr>w_calls = cs @ [frame_bytes (FrameClose, 1, [])], w_plan = [], w_closed = False\<rparr>\<rparr>)"
  by (simp add: CloseWrite_def newStream_def Let_def sess_writeFrame_def demo_server_eq
      NewServerSession_def newSession_def strm_def upd_def writeFrame_def w_write_def
      coalesceMax_def frame_bytes_def)

section \<open>Properties\<close>

text \<open>
  End to end over one stream: if one side's \<^verbatim>\<open>Write\<close> of \<open>b\<close> and \<^verbatim>\<open>CloseWrite\<close> succeed, then
  the other side, whatever else its session holds, once its read loop has gone through those bytes,
  gives a reader exactly what it had buffered before followed by \<open>b\<close>, and then a clean EOF. The bytes
  cross the wire chunked into frames of at most \<^verbatim>\<open>MaxPayload\<close>; the hypothesis on the number of chunks
  is the per-stream buffer, beyond which the read loop waits for the reader.
\<close>

theorem stream_transfer:
  assumes w: "Write r b sA = ((n, None), sA1)" and c: "CloseWrite r sA1 = (None, sA2)"
    and ok: "sess_ok sB" and g: "getStream (st_id (strm sA r)) sB = Some q"
    and live: "\<not> readDone (strm sB q)"
    and room: "length (chunks (strm sB q)) + (length b + MaxPayload - 1) div MaxPayload \<le> chunksCap"
    and rd: "r_bytes rd = drop (length (w_bytes (s_conn sA))) (w_bytes (s_conn sA2)) @ rest"
    and m: "0 < m"
  shows "n = length b \<and>
    (\<exists>k sB'. readLoop clk pick 0 rd sB = readLoop clk pick k (rd\<lparr>r_bytes := rest\<rparr>) sB' \<and>
       readAll m (s_done sB') (strm sB' q) =
         (cur (strm sB q) @ concat (chunks (strm sB q)) @ b, RErr EOF))"
proof -
  let ?i = "st_id (strm sA r)"
  have sA1: "strm sA1 r = strm sA r"
    using conn_only_frame(7) [OF Write_conn_only [of sA r b]] w by simp
  have "checkWrite (strm sA r) = None"
    using w by (auto simp: Write_def split: option.splits)
  then have "\<not> sentClose (strm sA1 r)" "\<not> rst (strm sA1 r)"
    by (simp_all add: sA1 checkWrite_None)
  with CloseWrite_sent [OF c] Write_sent [OF w] rd sA1 have bytes:
    "r_bytes rd = concat (map frame_bytes (data_frames ?i b)) @ frame_bytes (FrameClose, ?i, []) @ rest"
    and n: "n = length b"
    by simp_all
  let ?rest = "frame_bytes (FrameClose, ?i, []) @ rest"
  obtain s1 where s1: "readLoop clk pick 0 rd sB =
        readLoop clk pick (0 + length (chunked b)) (rd\<lparr>r_bytes := ?rest\<rparr>) s1"
      "sess_ok s1" "getStream ?i s1 = Some q"
      "strm s1 q = (strm sB q)\<lparr>chunks := chunks (strm sB q) @ chunked b\<rparr>"
    using deliver_datas [OF ok g live, of "chunked b" rd ?rest clk pick 0] room bytes
    by (auto simp: length_chunked dest: chunked_bounds)
  have live1: "\<not> readDone (strm s1 q)" using s1(4) live by simp
  obtain s2 where s2: "readLoop clk pick (0 + length (chunked b)) (rd\<lparr>r_bytes := ?rest\<rparr>) s1 =
        readLoop clk pick (Suc (0 + length (chunked b))) ((rd\<lparr>r_bytes := ?rest\<rparr>)\<lparr>r_bytes := rest\<rparr>) s2"
      "cur (strm s2 q) = cur (strm s1 q)" "chunks (strm s2 q) = chunks (strm s1 q)"
      "readDone (strm s2 q)" "readErr (strm s2 q) = Some EOF"
    using deliver_close [OF s1(2,3) live1, of "rd\<lparr>r_bytes := ?rest\<rparr>" rest clk pick
        "0 + length (chunked b)"] by auto
  have "readAll m (s_done s2) (strm s2 q) = (cur (strm sB q) @ concat (chunks (strm sB q)) @ b, RErr EOF)"
    using m s1(4) s2(2-5) by (simp add: readAll_spec readEnd_def)
  then show ?thesis
    using n s1(1) s2(1)
    by (intro conjI exI [of _ "Suc (0 + length (chunked b))"] exI [of _ s2]) simp_all
qed

theorem stream_transfer_witness:
  "\<exists>k s'. readLoop (\<lambda>_. 5) (\<lambda>_. True) 0
       \<lparr>r_bytes = frame_bytes (FrameData, 1, [104, 105]) @ frame_bytes (FrameClose, 1, []) @ [7], r_end = EOF\<rparr>
       demo_client = readLoop (\<lambda>_. 5) (\<lambda>_. True) k \<lparr>r_bytes = [7], r_end = EOF\<rparr> s' \<and>
     readAll 1 (s_done s') (strm s' 0) = ([104, 105], RErr EOF)"
  using stream_transfer [OF demo_write demo_closeWrite demo_ok(2), of 0
      "\<lparr>r_bytes = frame_bytes (FrameData, 1, [104, 105]) @ frame_bytes (FrameClose, 1, []) @ [7], r_end = EOF\<rparr>"
      "[7]" 1 "\<lambda>_. 5" "\<lambda>_. True"]
  by (simp add: newStream_def chunksCap_def MaxPayload_def w_bytes_def)

text \<open>
  Property C6. The invariant of a session, in every state it can reach from its creation through any
  sequence of calls, arriving frames, blocked deliveries and heartbeat ticks: no channel is ever closed
  twice (Go would panic); no stream buffers more than 16 chunks; a stream's \<^verbatim>\<open>Aborted\<close> channel is closed
  only by a reset or by the end of the session, never by a graceful CLOSE; once the session is over,
  every stream still registered has been told so; \<^verbatim>\<open>OnClose\<close> has run at most once.
\<close>

theorem mux_safety:
  assumes "reach mux_init mux_op s"
  shows "\<not> s_panicked s \<and>
    (\<forall>r < length (s_heap s). length (chunks (strm s r)) \<le> chunksCap \<and>
       (aborted (strm s r) \<longrightarrow> rst (strm s r) \<or> s_done s)) \<and>
    (s_done s \<longrightarrow> (\<forall>(i, r) \<in> set (s_streams s). readDone (strm s r) \<and> aborted (strm s r))) \<and>
    length (s_closeCalls s) \<le> 1"
proof -
  have ok: "sess_ok s" by (rule mux.reach_inv [OF assms])
  have "\<forall>r < length (s_heap s). length (chunks (strm s r)) \<le> chunksCap"
    using sess_okD_stream [OF ok] by (simp add: stream_ok_def)
  moreover have "s_done s \<longrightarrow> (\<forall>(i, r) \<in> set (s_streams s). readDone (strm s r) \<and> aborted (strm s r))"
    using ok by (auto simp: sess_ok_def map_ok_def)
  moreover have "length (s_closeCalls s) \<le> 1"
    using ok by (simp add: sess_ok_def close_ok_def)
  moreover have "\<not> s_panicked s"
    using ok by (simp add: sess_ok_def close_ok_def)
  ultimately show ?thesis
    using sess_ok_aborted [OF ok] by blast
qed

theorem mux_safety_witness:
  "\<not> s_panicked demo_server \<and> length (chunks (strm demo_server 0)) \<le> chunksCap"
  using mux_safety [OF demo_reach] by simp

text \<open>
  Property C19. When a session dies (connection lost, idle timeout, takeover, \<^verbatim>\<open>Close\<close>), a stream that
  was still open does not look cleanly finished: its reader gets what was buffered and then
  \<^verbatim>\<open>io.ErrUnexpectedEOF\<close>, never \<^verbatim>\<open>io.EOF\<close>; a further non-empty \<^verbatim>\<open>Write\<close> fails without putting a byte on the
  wire, and no new stream can be opened.
\<close>

theorem session_end_is_not_clean:
  assumes ok: "sess_ok s" and "\<not> s_closed s" and g: "getStream i s = Some r"
    and live: "\<not> readDone (strm s r)" and "0 < n" and "b \<noteq> []"
    and s': "s' = CloseWithError e s"
  shows "readAll n (s_done s') (strm s' r) =
       (cur (strm s r) @ concat (chunks (strm s r)), RErr ErrUnexpectedEOF) \<and>
     fst (fst (Write r b s')) = 0 \<and> snd (fst (Write r b s')) \<noteq> None \<and> snd (Write r b s') = s' \<and>
     fst (OpenStream meta s') = Inl ErrSessionClosed"
proof -
  have "\<not> s_closeOnce s" using assms(1,2) by (simp add: sess_ok_def close_ok_def)
  from shutdown_open [OF ok this, of e] obtain h where
    h: "shutdown e s = s\<lparr>s_closeOnce := True, s_closed := True, s_closeErr := Some e,
      s_heap := h, s_done := True, s_conn := (s_conn s)\<lparr>w_closed := True\<rparr>\<rparr>"
      "length h = length (s_heap s)"
      "\<And>q. q < length h \<Longrightarrow> h ! q = (if q \<in> snd ` set (s_streams s)
           then (st_done ErrSessionClosed (s_heap s ! q))\<lparr>aborted := True\<rparr> else s_heap s ! q)"
    by blast
  have "r \<in> snd ` set (s_streams s)"
    using map_of_SomeD [OF g [unfolded getStream_def]] by force
  moreover have "r < length (s_heap s)" using getStream_ok [OF ok g] by simp
  ultimately have r: "strm s' r = (st_done ErrSessionClosed (strm s r))\<lparr>aborted := True\<rparr>"
    using h by (simp add: s' CloseWithError_def fireOnClose_def strm_def)
  have closed: "s_closed s'"
    by (simp add: s' CloseWithError_def fireOnClose_def h)
  then have "sess_writeFrame t j p s' = (Some ErrSessionClosed, s')" for t j p
    by (simp add: sess_writeFrame_def)
  then have "writeLoop r b 0 s' = ((0, Some ErrSessionClosed), s')"
    using assms(6) by (simp add: writeLoop.simps [of r b])
  then show ?thesis
    using r live assms(5) closed
    by (auto simp: readAll_spec readEnd_def Write_def OpenStream_def alloc_def Let_def
        split: option.splits)
qed

theorem session_end_is_not_clean_witness:
  "readAll 4 True (strm (CloseWithError ErrIdleTimeout demo_server) 0) = ([], RErr ErrUnexpectedEOF) \<and>
   fst (OpenStream [] (CloseWithError ErrIdleTimeout demo_server)) = Inl ErrSessionClosed"
proof -
  have "s_done (CloseWithError ErrIdleTimeout demo_server)"
    using CloseWithError_ok [OF demo_ok(1), of ErrIdleTimeout]
    by (simp add: CloseWithError_def shutdown_def fireOnClose_def Let_def)
  then show ?thesis
    using session_end_is_not_clean [OF demo_ok(1), of 1 0 4 "[1]" _ ErrIdleTimeout "[]"]
    by (simp add: newStream_def)
qed

text \<open>
  The first close wins: once a session has been closed with an error, no later call, frame
  or tick changes that error, and it is what \<^verbatim>\<open>Run\<close> returns, whatever error the read loop saw on the closed
  socket.
\<close>

theorem first_close_wins:
  assumes "reach mux_init mux_op s" and "s_closeErr s = Some e" and "mux_op\<^sup>*\<^sup>* s t"
  shows "s_closeErr t = Some e \<and> s_closed t \<and> fst (finishRun e' t) = Some e"
proof -
  have ok: "sess_ok s" by (rule mux.reach_inv [OF assms(1)])
  have "s_closed s" using ok assms(2) by (auto simp: sess_ok_def close_ok_def)
  with assms(3) ok assms(2) have t: "sess_ok t \<and> s_closeErr t = Some e \<and> s_closed t"
    by (induction rule: rtranclp_induct) (auto dest: mux_op_closed mux_op_ok)
  then show ?thesis
    by (auto simp: finishRun_def shutdown_def sess_ok_def close_ok_def Let_def)
qed

theorem first_close_wins_witness:
  "s_closeErr (CloseWithError NetErrClosed (CloseWithError ErrIdleTimeout demo_server)) = Some ErrIdleTimeout"
proof -
  let ?s = "CloseWithError ErrIdleTimeout demo_server"
  have "reach mux_init mux_op ?s"
    by (rule reach.reach_step [OF demo_reach mux_op.op_close])
  moreover have "s_closeErr ?s = Some ErrIdleTimeout"
    by (simp add: CloseWithError_def shutdown_def fireOnClose_def Let_def demo_server_eq
        NewServerSession_def newSession_def abandon_def markReadDone_def closeEof_def signalAbort_def)
  ultimately show ?thesis
    using first_close_wins [of ?s ErrIdleTimeout "CloseWithError NetErrClosed ?s"] mux_op.op_close
    by blast
qed

section \<open>Stream ids\<close>

lemma OpenStream_nextID: "s_nextID (snd (OpenStream m s)) = s_nextID s + 2"
proof -
  let ?s3 = "s\<lparr>s_nextID := s_nextID s + 2, s_heap := s_heap s @ [newStream (s_nextID s)],
      s_streams := AList.update (s_nextID s) (length (s_heap s)) (s_streams s)\<rparr>"
  obtain e s4 where s4: "sess_writeFrame FrameOpen (s_nextID s) m ?s3 = (e, s4)" by fastforce
  then have "s_nextID s4 = s_nextID s + 2"
    using sess_writeFrame_same(5) [of FrameOpen "s_nextID s" m ?s3] by simp
  with s4 show ?thesis
    by (cases e) (simp_all add: OpenStream_def alloc_def Let_def)
qed

lemma OpenStream_heap: "s_heap (snd (OpenStream m s)) = s_heap s @ [newStream (s_nextID s)]"
proof -
  let ?s3 = "s\<lparr>s_nextID := s_nextID s + 2, s_heap := s_heap s @ [newStream (s_nextID s)],
      s_streams := AList.update (s_nextID s) (length (s_heap s)) (s_streams s)\<rparr>"
  obtain e s4 where s4: "sess_writeFrame FrameOpen (s_nextID s) m ?s3 = (e, s4)" by fastforce
  then have "s_heap s4 = s_heap s @ [newStream (s_nextID s)]"
    using sess_writeFrame_same(1) [of FrameOpen "s_nextID s" m ?s3] by simp
  with s4 show ?thesis
    by (cases e) (simp_all add: OpenStream_def alloc_def Let_def)
qed

lemma OpenStream_ref: "fst (OpenStream m s) = Inr r \<Longrightarrow> r = length (s_heap s)"
  by (auto simp: OpenStream_def alloc_def Let_def split: if_splits prod.splits option.splits)

text \<open>A series of \<^verbatim>\<open>OpenStream\<close> calls and the streams it got.\<close>

primrec openMany :: "bytes list \<Rightarrow> session \<Rightarrow> nat list \<times> session" where
  "openMany [] s = ([], s)"
| "openMany (m # ms) s =
     (case OpenStream m s of (res, s1) \<Rightarrow>
        (case openMany ms s1 of (rs, s2) \<Rightarrow>
           (case res of Inl e \<Rightarrow> (rs, s2) | Inr r \<Rightarrow> (r # rs, s2))))"

lemma openMany_heap:
  "openMany ms s = (rs, s') \<Longrightarrow> \<exists>h. s_heap s' = s_heap s @ h"
proof (induction ms arbitrary: s rs)
  case (Cons m ms)
  obtain res s1 where o: "OpenStream m s = (res, s1)" by fastforce
  obtain rs2 s2 where m: "openMany ms s1 = (rs2, s2)" by fastforce
  with Cons.prems o have "s2 = s'" by (auto split: sum.splits)
  with Cons.IH [of s1 rs2] m OpenStream_heap [of m s] o show ?case by auto
qed simp

lemma openMany_ids:
  "openMany ms s = (rs, s') \<Longrightarrow> length ms \<le> 2 ^ 31 \<Longrightarrow>
   distinct (map (\<lambda>r. st_id (strm s' r)) rs) \<and>
   (\<forall>r \<in> set rs. \<exists>j < length ms. st_id (strm s' r) = s_nextID s + 2 * of_nat j)"
proof (induction ms arbitrary: s rs)
  case (Cons m ms)
  obtain res s1 where o: "OpenStream m s = (res, s1)" by fastforce
  obtain rs2 s2 where m: "openMany ms s1 = (rs2, s2)" by fastforce
  with Cons.prems o have s2: "s2 = s'" by (auto split: sum.splits)
  have n: "s_nextID s1 = s_nextID s + 2" using OpenStream_nextID [of m s] o by simp
  have IH: "distinct (map (\<lambda>r. st_id (strm s' r)) rs2)"
    "\<forall>r \<in> set rs2. \<exists>j < length ms. st_id (strm s' r) = s_nextID s + 2 * of_nat (Suc j)"
    using Cons.IH [OF m [unfolded s2]] Cons.prems(2) n by (auto simp: algebra_simps)
  have IH2: "\<exists>j < length (m # ms). st_id (strm s' q) = s_nextID s + 2 * of_nat j" if q: "q \<in> set rs2" for q
  proof -
    obtain j where j: "j < length ms" "st_id (strm s' q) = s_nextID s + 2 * of_nat (Suc j)"
      using bspec [OF IH(2) q] by blast
    then show ?thesis by (intro exI [of _ "Suc j"]) simp
  qed
  have fresh: "s_nextID s \<noteq> s_nextID s + 2 * of_nat (Suc j)" if "j < length ms" for j
  proof -
    have "2 * Suc j < 2 ^ 32" using that Cons.prems(2) by simp
    then have "unat (2 * of_nat (Suc j) :: u32) = 2 * Suc j"
      by (simp add: unat_word_ariths unat_of_nat)
    then have "2 * of_nat (Suc j) \<noteq> (0 :: u32)" by (metis mult_eq_0_iff nat.distinct(1) unat_0 zero_neq_numeral)
    then show ?thesis by (metis add_cancel_left_right)
  qed
  show ?case
  proof (cases res)
    case (Inl e)
    with Cons.prems o m s2 have "rs = rs2" by simp
    with IH(1) IH2 show ?thesis by simp
  next
    case (Inr r)
    with Cons.prems o m s2 have rs: "rs = r # rs2" by simp
    obtain h where "s_heap s' = s_heap s1 @ h" using openMany_heap [OF m] s2 by blast
    then have "st_id (strm s' r) = s_nextID s"
      using OpenStream_heap [of m s] OpenStream_ref [of m s r] o Inr
      by (simp add: strm_def nth_append newStream_def)
    moreover from this have "st_id (strm s' r) \<notin> (\<lambda>q. st_id (strm s' q)) ` set rs2"
      using IH(2) fresh by (metis imageE)
    moreover have "\<exists>j < length (m # ms). s_nextID s = s_nextID s + 2 * of_nat j"
      by (rule exI [of _ 0]) simp
    ultimately show ?thesis
      using IH(1) IH2 rs by simp
  qed
qed simp

text \<open>
  Stream ids do not collide: however many streams a session opens, as long as it is no more
  than \<open>2^31\<close> (the 32-bit counter advances by two and wraps after that), their ids are pairwise different,
  and all have the parity of the counter, so the ids a server allocates (odd) never meet those a client
  allocates (even).
\<close>

theorem stream_ids_distinct:
  assumes "openMany ms s = (rs, s')" and "length ms \<le> 2 ^ 31"
  shows "distinct (map (\<lambda>r. st_id (strm s' r)) rs) \<and>
     (\<forall>r \<in> set rs. even (st_id (strm s' r)) = even (s_nextID s))"
  using openMany_ids [OF assms] by auto

theorem stream_ids_distinct_witness:
  "\<exists>rs s'. openMany [[], []] demo_server = (rs, s') \<and> distinct (map (\<lambda>r. st_id (strm s' r)) rs) \<and>
     list_all (\<lambda>r. odd (st_id (strm s' r))) rs"
proof -
  obtain rs s' where o: "openMany [[], []] demo_server = (rs, s')" by fastforce
  have "\<not> even (s_nextID demo_server)" by simp
  with stream_ids_distinct [OF o] o show ?thesis by (auto simp: list_all_iff)
qed

end
