(* ===== verification/Mux_Live.thy ===== *)
theory Mux_Live
  imports Mux_Props
begin

text \<open>
  How streams and sessions end, and what keeps them alive: aborting a stream, the silence watchdog
  and \<^verbatim>\<open>Stale\<close>, pings and pongs, a delivery that waits for a slow reader, and what \<^verbatim>\<open>Run\<close> returns.
\<close>

section \<open>Aborting a stream\<close>

lemma Abort_strm:
  assumes "sess_ok s" and "r < length (s_heap s)" and "\<not> rst (strm s r)"
  shows "strm (Abort r s) r = (st_abort (strm s r))\<lparr>removed := True\<rparr>"
  using assms by (simp add: Abort_net [OF assms refl])

lemma Abort_conn:
  assumes "sess_ok s" and "r < length (s_heap s)" and "\<not> rst (strm s r)"
  shows "s_conn (Abort r s) = (if fully_finished (strm s r) then s_conn s
     else s_conn (snd (sess_writeFrame FrameReset (st_id (strm s r)) [] s)))"
  by (simp add: Abort_net [OF assms refl])

lemma Abort_unregisters:
  assumes "sess_ok s" and "getStream i s = Some r"
  shows "rst (strm s r) \<or> getStream i (Abort r s) = None"
proof (cases "rst (strm s r)")
  case live: False
  have "r < length (s_heap s)" "\<not> removed (strm s r)" "st_id (strm s r) = i"
    using getStream_ok [OF assms] by simp_all
  with Abort_net [OF assms(1) _ live refl] show ?thesis
    by (simp add: getStream_def go_map_simps)
qed simp

text \<open>
  Aborting a stream that has not been reset: its \<^verbatim>\<open>Aborted\<close> channel is closed, it is
  unregistered, every later \<^verbatim>\<open>Write\<close> fails with \<^verbatim>\<open>ErrStreamReset\<close> and sends nothing, and aborting again
  changes nothing. The peer is told with exactly one RESET frame, on a connection that takes writes,
  unless both directions had already finished cleanly, in which case nothing is sent.
\<close>

theorem abort_effect:
  assumes ok: "sess_ok s" and g: "getStream i s = Some r" and live: "\<not> rst (strm s r)"
    and s': "s' = Abort r s"
  shows "aborted (strm s' r) \<and> getStream i s' = None \<and> Abort r s' = s' \<and>
     Write r b s' = ((0, Some ErrStreamReset), s') \<and>
     (\<not> s_closed s \<and> w_plan (s_conn s) = [] \<and> \<not> w_closed (s_conn s) \<longrightarrow>
        w_bytes (s_conn s') = w_bytes (s_conn s) @
          (if sentClose (strm s r) \<and> readErr (strm s r) = Some EOF then []
           else frame_bytes (FrameReset, i, [])))"
proof -
  have r: "r < length (s_heap s)" "st_id (strm s r) = i" "stream_ok (strm s r)"
    using getStream_ok [OF ok g] sess_okD_stream [OF ok] by simp_all
  have st: "strm s' r = (st_abort (strm s r))\<lparr>removed := True\<rparr>"
    using Abort_strm [OF ok r(1) live] by (simp add: s')
  have ff: "fully_finished (strm s r) \<longleftrightarrow> sentClose (strm s r) \<and> readErr (strm s r) = Some EOF"
    using r(3) by (auto simp: stream_ok_def)
  have "w_bytes (s_conn s') = w_bytes (s_conn s) @
      (if fully_finished (strm s r) then [] else frame_bytes (FrameReset, i, []))"
    if c: "\<not> s_closed s" "w_plan (s_conn s) = []" "\<not> w_closed (s_conn s)"
  proof -
    obtain w where w: "writeFrame FrameReset i [] (s_conn s) = (None, w)"
      using writeFrame_healthy [OF c(2,3)] by blast
    then have "sess_writeFrame FrameReset i [] s = (None, s\<lparr>s_conn := w\<rparr>)"
      using c by (simp add: sess_writeFrame_def)
    with writeFrame_ok_bytes [OF w] show ?thesis
      using Abort_conn [OF ok r(1) live] r(2) by (simp add: s')
  qed
  with st ff Abort_unregisters [OF ok g] live show ?thesis
    by (simp add: s' Write_def checkWrite_def Abort_def [of r "Abort r s"])
qed

theorem abort_effect_witness:
  "aborted (strm (Abort 0 demo_server) 0) \<and> getStream 1 (Abort 0 demo_server) = None \<and>
   Write 0 [9] (Abort 0 demo_server) = ((0, Some ErrStreamReset), Abort 0 demo_server) \<and>
   w_bytes (s_conn (Abort 0 demo_server)) = frame_bytes (FrameOpen, 1, []) @ frame_bytes (FrameReset, 1, [])"
  using abort_effect [OF demo_ok(1), of 1 0 "Abort 0 demo_server" "[9]"]
  by (simp add: newStream_def demo_server_eq NewServerSession_def newSession_def w_bytes_def getStream_def
      strm_def)

section \<open>The silence watchdog\<close>

lemma watchdogTick_done: "s_done s \<Longrightarrow> watchdogTick idle t s = s"
  by (simp add: watchdogTick_def)

lemma fold_watchdog_done: "s_done s \<Longrightarrow> fold (watchdogTick idle) ts s = s"
  by (induction ts) (simp_all add: watchdogTick_done)

lemma CloseWithError_done: "sess_ok s \<Longrightarrow> s_done (CloseWithError e s)"
  by (auto simp: CloseWithError_def fireOnClose_def shutdown_def Let_def sess_ok_def close_ok_def)

lemma CloseWithError_fresh:
  assumes "sess_ok s" and "\<not> s_done s"
  shows "s_closeErr (CloseWithError e s) = Some e"
proof -
  have "\<not> s_closeOnce s" using assms by (auto simp: sess_ok_def close_ok_def)
  from shutdown_open [OF assms(1) this, of e] obtain h where
    "shutdown e s = s\<lparr>s_closeOnce := True, s_closed := True, s_closeErr := Some e,
      s_heap := h, s_done := True, s_conn := (s_conn s)\<lparr>w_closed := True\<rparr>\<rparr>" by blast
  then show ?thesis by (simp add: CloseWithError_def fireOnClose_def)
qed

lemma fold_watchdog_quiet:
  "\<forall>t \<in> set ts. t \<le> s_lastRecv s + idle \<Longrightarrow> fold (watchdogTick idle) ts s = s"
  by (induction ts) (simp_all add: watchdogTick_def silence_def)

lemma watchdogTick_fires:
  assumes "sess_ok s" and "\<not> s_done s" and "\<not> s_stalled s" and "s_lastRecv s + idle < t"
  shows "watchdogTick idle t s = CloseWithError ErrIdleTimeout s"
  using assms by (simp add: watchdogTick_def silence_def)

lemma watchdogPeriod_pos: "0 < watchdogPeriod idle"
  by (simp add: watchdogPeriod_def less_max_iff_disj)



text \<open>
  A session is \<^verbatim>\<open>Stale\<close>, and its name may be taken over, before it times out: with an idle
  timeout of at least one and a half ping intervals (the defaults are 45 and 15 seconds), whatever the
  watchdog closes is stale at that moment, and a session that is stalled on a slow reader is neither closed
  nor stale.
\<close>

theorem stale_before_timeout:
  assumes "pingInterval s + pingInterval s div 2 \<le> idleTimeout s"
  shows "(watchdogTick (idleTimeout s) now s \<noteq> s \<longrightarrow> Stale now s) \<and>
     (s_stalled s \<longrightarrow> \<not> Stale now s \<and> watchdogTick (idleTimeout s) now s = s)"
  using assms by (auto simp: watchdogTick_def Stale_def Let_def)

theorem stale_before_timeout_witness:
  "pingInterval demo_server + pingInterval demo_server div 2 = 22500000000 \<and>
   idleTimeout demo_server = 45000000000 \<and>
   watchdogTick 45000000000 50000000000 demo_server \<noteq> demo_server \<and> Stale 50000000000 demo_server"
proof -
  have p: "pingInterval demo_server = 15000000000" "idleTimeout demo_server = 45000000000"
      "\<not> s_done demo_server" "\<not> s_stalled demo_server" "s_lastRecv demo_server = 0"
    by (simp_all add: demo_server_eq NewServerSession_def newSession_def pingInterval_def
        idleTimeout_def DefaultPingInterval_def DefaultIdleTimeout_def)
  have "watchdogTick 45000000000 50000000000 demo_server = CloseWithError ErrIdleTimeout demo_server"
    using p by (intro watchdogTick_fires demo_ok(1)) simp_all
  then have "s_done (watchdogTick 45000000000 50000000000 demo_server)"
    using CloseWithError_done [OF demo_ok(1)] by simp
  then have "watchdogTick 45000000000 50000000000 demo_server \<noteq> demo_server"
    using p(3) by fastforce
  then show ?thesis
    using stale_before_timeout [of demo_server 50000000000] by (simp add: p)
qed

section \<open>Pings and pongs\<close>

lemma dispatch_ping_pong:
  "dispatch now pick (FramePing, i, p) s =
     Next (case s_pongs s of None \<Rightarrow> s\<lparr>s_pongs := Some p\<rparr> | Some _ \<Rightarrow> s)"
  "dispatch now pick (FramePong, i, p) s = Next s"
  by (simp_all add: dispatch_def frame_types)

lemma readLoop_frame:
  assumes "r_bytes rd = frame_bytes (t, i, p) @ rest" and "length p \<le> MaxPayload"
    and "dispatch (clk k) (pick k) (t, i, p) (markRecv (clk k) s) = Next s1"
  shows "readLoop clk pick k rd s = readLoop clk pick (Suc k) (rd\<lparr>r_bytes := rest\<rparr>) s1"
proof -
  have rf: "readFrame rd = (Inr (t, i, p), rd\<lparr>r_bytes := rest\<rparr>)"
    using assms(2,1) by (rule readFrame_frame_bytes)
  have "0 < length (r_bytes rd) - length (r_bytes (rd\<lparr>r_bytes := rest\<rparr>))"
    using assms(1) by (simp add: frame_bytes_def HeaderSize_def)
  with assms(3) have "dispatch (clk k) (pick k) (t, i, p)
      (liveRead (clk k) (length (r_bytes rd) - length (r_bytes (rd\<lparr>r_bytes := rest\<rparr>))) s) = Next s1"
    by (simp add: liveRead_def)
  then show ?thesis by (rule readLoop_next [OF rf])
qed

lemma sess_writeFrame_delta:
  assumes "sess_writeFrame t i p s = (None, s')"
  shows "drop (length (w_bytes (s_conn s))) (w_bytes (s_conn s')) = frame_bytes (t, i, p)"
  using sess_writeFrame_bytes [OF assms] by simp

text \<open>
  The heartbeat's round trip: a ping that was written is read by the peer's loop, which only
  queues the pong; when the peer's heartbeat goroutine sends it, it carries the ping's payload, and reading
  it changes nothing at the sender but the time of the last receipt. Both read loops go on.
\<close>

theorem ping_pong:
  assumes ping: "pingTick t sA = (None, sA')" and idle: "s_pongs sB = None"
    and rdB: "r_bytes rdB = drop (length (w_bytes (s_conn sA))) (w_bytes (s_conn sA')) @ restB"
    and sB': "sB' = (markRecv (clkB k) sB)\<lparr>s_pongs := Some (PutUint64 t)\<rparr>"
    and pong: "pongTick sB' = Some (None, sB'')"
    and rdA: "r_bytes rdA = drop (length (w_bytes (s_conn sB'))) (w_bytes (s_conn sB'')) @ restA"
  shows "readLoop clkB pickB k rdB sB = readLoop clkB pickB (Suc k) (rdB\<lparr>r_bytes := restB\<rparr>) sB' \<and>
     readLoop clkA pickA j rdA sA' =
       readLoop clkA pickA (Suc j) (rdA\<lparr>r_bytes := restA\<rparr>) (markRecv (clkA j) sA')"
proof
  have len: "length (PutUint64 t) \<le> MaxPayload" by (simp add: PutUint64_def MaxPayload_def)
  have "r_bytes rdB = frame_bytes (FramePing, 0, PutUint64 t) @ restB"
    using rdB sess_writeFrame_delta [OF ping [unfolded pingTick_def]] by simp
  moreover have "dispatch (clkB k) (pickB k) (FramePing, 0, PutUint64 t) (markRecv (clkB k) sB) = Next sB'"
    using idle by (simp add: dispatch_ping_pong sB' markRecv_def)
  ultimately show "readLoop clkB pickB k rdB sB =
      readLoop clkB pickB (Suc k) (rdB\<lparr>r_bytes := restB\<rparr>) sB'"
    using len by (intro readLoop_frame)
  have "sess_writeFrame FramePong 0 (PutUint64 t) (sB'\<lparr>s_pongs := None\<rparr>) = (None, sB'')"
    using pong by (simp add: pongTick_def sB')
  from sess_writeFrame_delta [OF this] rdA
  have "r_bytes rdA = frame_bytes (FramePong, 0, PutUint64 t) @ restA" by simp
  then show "readLoop clkA pickA j rdA sA' =
       readLoop clkA pickA (Suc j) (rdA\<lparr>r_bytes := restA\<rparr>) (markRecv (clkA j) sA')"
    using len by (rule readLoop_frame [OF _ _ dispatch_ping_pong(2)])
qed

theorem ping_pong_witness:
  "\<exists>sA' sB''. pingTick 7 demo_server = (None, sA') \<and>
     pongTick ((markRecv 3 demo_client)\<lparr>s_pongs := Some (PutUint64 7)\<rparr>) = Some (None, sB'') \<and>
     readLoop (\<lambda>_. 3) (\<lambda>_. True) 0
       \<lparr>r_bytes = drop (length (w_bytes (s_conn demo_server))) (w_bytes (s_conn sA')), r_end = EOF\<rparr> demo_client =
     readLoop (\<lambda>_. 3) (\<lambda>_. True) 1 \<lparr>r_bytes = [], r_end = EOF\<rparr>
       ((markRecv 3 demo_client)\<lparr>s_pongs := Some (PutUint64 7)\<rparr>)"
proof -
  let ?sB = "(markRecv 3 demo_client)\<lparr>s_pongs := Some (PutUint64 7)\<rparr>"
  obtain sA' where A: "pingTick 7 demo_server = (None, sA')"
    by (simp add: pingTick_def sess_writeFrame_def writeFrame_def w_write_def demo_server_eq
        NewServerSession_def newSession_def PutUint64_def coalesceMax_def split: prod.splits)
  obtain sB'' where B: "pongTick ?sB = Some (None, sB'')"
    by (simp add: pongTick_def sess_writeFrame_def writeFrame_def w_write_def demo_client_eq fresh_conn_def
        NewClientSession_def newSession_def PutUint64_def coalesceMax_def markRecv_def split: prod.splits)
  have "s_pongs demo_client = None"
    by (simp add: demo_client_eq NewClientSession_def newSession_def)
  from ping_pong [OF A this, where restB = "[]" and clkB = "\<lambda>_. 3" and k = 0 and pickB = "\<lambda>_. True"
      and restA = "[]" and rdB = "\<lparr>r_bytes = drop (length (w_bytes (s_conn demo_server))) (w_bytes (s_conn sA')),
      r_end = EOF\<rparr>", OF _ refl B, where rdA = "\<lparr>r_bytes = drop (length (w_bytes (s_conn ?sB)))
      (w_bytes (s_conn sB'')), r_end = EOF\<rparr>"]
  have "readLoop (\<lambda>_. 3) (\<lambda>_. True) 0
       \<lparr>r_bytes = drop (length (w_bytes (s_conn demo_server))) (w_bytes (s_conn sA')), r_end = EOF\<rparr> demo_client =
     readLoop (\<lambda>_. 3) (\<lambda>_. True) 1 \<lparr>r_bytes = [], r_end = EOF\<rparr> ?sB" by simp
  with A B show ?thesis by blast
qed

section \<open>A delivery that waits\<close>

lemma dispatch_Block:
  assumes "dispatch now pick f s = Block s1"
  obtains i r p where "f = (FrameData, i, p)" and "getStream i s = Some r"
    and "s1 = s\<lparr>s_stalled := True\<rparr>" and "\<not> readDone (strm s r)" and "\<not> eofCh (strm s r)"
    and "\<not> s_done s" and "chunksCap \<le> length (chunks (strm s r))"
  using assms
  by (cases f) (auto simp: dispatch_def alloc_def pushData_def strm_def Let_def
      split: if_splits option.splits)

lemma readLoop_Waiting:
  "readLoop clk pick k rd s = Waiting f s1 rd1 \<Longrightarrow> sess_ok s \<Longrightarrow>
   \<exists>now pk s0. sess_ok s0 \<and> dispatch now pk f s0 = Block s1"
proof (induction clk pick k rd s rule: readLoop.induct)
  case (1 clk pick k rd s)
  obtain res rd2 where rf: "readFrame rd = (res, rd2)" by fastforce
  let ?s = "liveRead (clk k) (length (r_bytes rd) - length (r_bytes rd2)) s"
  have ok: "sess_ok ?s" using "1.prems" by simp
  obtain g where g: "res = Inr g"
    using "1.prems"(1) rf by (cases res) (simp_all add: readLoop.simps [of clk pick k rd s])
  show ?case
  proof (cases "dispatch (clk k) (pick k) g ?s")
    case (Next s2)
    with ok have "sess_ok s2" using dispatch_ok by blast
    moreover have "readLoop clk pick (Suc k) rd2 s2 = Waiting f s1 rd1"
      using "1.prems"(1) rf g Next by (simp add: readLoop_next)
    ultimately show ?thesis using "1.IH" [OF rf [symmetric] g Next] by blast
  next
    case (Block s2)
    with "1.prems"(1) rf g have "f = g" "s1 = s2"
      by (simp_all add: readLoop.simps [of clk pick k rd s])
    with ok Block show ?thesis by blast
  next
    case (Fail e)
    with "1.prems"(1) rf g show ?thesis by (simp add: readLoop.simps [of clk pick k rd s])
  qed
qed

lemma stRead_frees:
  assumes "cur st = []" and "chunks st \<noteq> []" and "stRead n d st = (res, st')"
  shows "length (chunks st') < length (chunks st)"
proof -
  obtain c cs where c: "chunks st = c # cs" using assms(2) by (cases "chunks st") auto
  with assms(1,3) have "stRead n d (st\<lparr>cur := c, chunks := cs\<rparr>) = (res, st')"
    by (simp add: stRead.simps [of n d st])
  from stRead_flags [OF this] c show ?thesis by simp
qed

text \<open>
  Backpressure: whenever the read loop stops making progress, it is because one stream's
  buffer holds its full 16 chunks. While it waits, the session counts as stalled: no watchdog tick, at any
  time, closes it and it is never stale. As soon as the stream's reader has taken one chunk, the waiting
  frame is delivered as the last chunk of that stream and the session is no longer stalled.
\<close>

theorem stall_and_resume:
  assumes "sess_ok s" and "readLoop clk pick k rd s = Waiting f s1 rd1"
  shows "\<exists>i r p. f = (FrameData, i, p) \<and> getStream i s1 = Some r \<and>
     length (chunks (strm s1 r)) = chunksCap \<and>
     fold (watchdogTick idle) ts s1 = s1 \<and> \<not> Stale now s1 \<and>
     (cur (strm s1 r) = [] \<longrightarrow>
        (\<exists>s2. dispatch now pk f (snd (Read n r s1)) = Next s2 \<and> \<not> s_stalled s2 \<and>
           last (chunks (strm s2 r)) = p))"
proof -
  obtain now0 pk0 s0 where ok: "sess_ok s0" and d: "dispatch now0 pk0 f s0 = Block s1"
    using readLoop_Waiting [OF assms(2,1)] by blast
  from d obtain i r p where f: "f = (FrameData, i, p)" and g: "getStream i s0 = Some r"
    and s1: "s1 = s0\<lparr>s_stalled := True\<rparr>"
    and st: "\<not> readDone (strm s0 r)" "\<not> eofCh (strm s0 r)" "\<not> s_done s0"
    and full: "chunksCap \<le> length (chunks (strm s0 r))"
    by (rule dispatch_Block)
  have r: "r < length (s_heap s0)" "stream_ok (strm s0 r)"
    using getStream_ok [OF ok g] sess_okD_stream [OF ok] by simp_all
  have stalled: "watchdogTick idle t s1 = s1" for t by (simp add: watchdogTick_def s1)
  then have wd: "fold (watchdogTick idle) ts s1 = s1" by (induction ts) simp_all
  have strm1: "strm s1 r = strm s0 r" by (simp add: s1 strm_def)
  have resume: "\<exists>s2. dispatch now pk f (snd (Read n r s1)) = Next s2 \<and> \<not> s_stalled s2 \<and>
      last (chunks (strm s2 r)) = p" if c: "cur (strm s1 r) = []"
  proof -
    obtain res st' where rd: "stRead n (s_done s1) (strm s1 r) = (res, st')" by fastforce
    have "chunks (strm s1 r) \<noteq> []" using full by (auto simp: strm1 chunksCap_def)
    then have len: "length (chunks st') < chunksCap"
      using stRead_frees [OF c _ rd] r(2) by (simp add: strm1 stream_ok_def)
    have st': "readDone st' = readDone (strm s0 r)" "eofCh st' = eofCh (strm s0 r)"
      by (subst conjunct1 [OF stRead_flags [OF rd]], simp add: strm1)+
    let ?s = "upd r (\<lambda>_. st') s1"
    let ?s2 = "upd r (\<lambda>st. st\<lparr>chunks := chunks st @ [p]\<rparr>) (?s\<lparr>s_stalled := True\<rparr>)"
    have rl: "r < length (s_heap (?s\<lparr>s_stalled := True\<rparr>))" using r(1) by (simp add: s1)
    have sr: "strm (?s\<lparr>s_stalled := True\<rparr>) r = st'" using r(1) by (simp add: strm_def upd_def s1)
    have "pushData pk r p (?s\<lparr>s_stalled := True\<rparr>) = Some ?s2"
      using len st st' by (simp add: pushData_def Let_def sr) (simp add: s1)
    moreover have "getStream i ?s = Some r" using g by (simp add: getStream_def s1)
    ultimately have "dispatch now pk f (snd (Read n r s1)) = Next ((markRecv now ?s2)\<lparr>s_stalled := False\<rparr>)"
      by (simp add: f dispatch_data Read_def rd)
    moreover have "strm ((markRecv now ?s2)\<lparr>s_stalled := False\<rparr>) r = st'\<lparr>chunks := chunks st' @ [p]\<rparr>"
      using r(1) by (simp add: strm_def markRecv_def upd_def s1)
    ultimately show ?thesis by simp
  qed
  have "length (chunks (strm s1 r)) = chunksCap" "getStream i s1 = Some r" "\<not> Stale now s1"
    unfolding strm1 using full r(2) g by (simp_all add: stream_ok_def getStream_def s1 Stale_def)
  with f wd resume show ?thesis by blast
qed

text \<open>A client whose stream 1 has a full buffer.\<close>

definition demo_full :: session where
  "demo_full = demo_client\<lparr>s_heap := [(newStream 1)\<lparr>chunks := replicate 16 [0]\<rparr>]\<rparr>"

lemma demo_full_waits:
  "readLoop (\<lambda>_. 5) (\<lambda>_. True) 0 \<lparr>r_bytes = frame_bytes (FrameData, 1, [7]), r_end = EOF\<rparr> demo_full =
     Waiting (FrameData, 1, [7]) (demo_full\<lparr>s_stalled := True, s_lastRecv := 5\<rparr>) \<lparr>r_bytes = [], r_end = EOF\<rparr>"
proof -
  have "readFrame \<lparr>r_bytes = frame_bytes (FrameData, 1, [7]), r_end = EOF\<rparr> =
      (Inr (FrameData, 1, [7]), \<lparr>r_bytes = [], r_end = EOF\<rparr>)"
    using readFrame_frame_bytes [of "[7]" "\<lparr>r_bytes = frame_bytes (FrameData, 1, [7]), r_end = EOF\<rparr>"
        FrameData 1 "[]"] by (simp add: MaxPayload_def)
  then show ?thesis
    by (simp add: readLoop.simps [of _ _ 0] dispatch_data liveRead_def markRecv_def getStream_def
        demo_full_def demo_client_eq NewClientSession_def newSession_def pushData_def strm_def
        newStream_def chunksCap_def frame_bytes_def HeaderSize_def)
qed

lemma demo_full_ok: "sess_ok demo_full"
  by (simp add: demo_full_def demo_client_eq NewClientSession_def newSession_def sess_ok_def map_ok_def
      close_ok_def stream_ok_def newStream_def strm_def chunksCap_def fresh_conn_def)

theorem stall_and_resume_witness:
  "\<exists>i r p. (FrameData, 1, [7]) = (FrameData, i, p) \<and>
     (\<exists>s2. dispatch 9 False (FrameData, 1, [7])
         (snd (Read 4 r (demo_full\<lparr>s_stalled := True, s_lastRecv := 5\<rparr>))) = Next s2 \<and>
        last (chunks (strm s2 r)) = [7])"
proof -
  let ?s = "demo_full\<lparr>s_stalled := True, s_lastRecv := 5\<rparr>"
  have "getStream 1 ?s = Some 0" "cur (strm ?s 0) = []"
    by (simp_all add: demo_full_def demo_client_eq NewClientSession_def newSession_def getStream_def
        strm_def newStream_def)
  with stall_and_resume [OF demo_full_ok demo_full_waits, of 1 "[]" 9 False 4] show ?thesis by auto
qed

section \<open>The end of the read loop\<close>

lemma dispatch_onClose:
  "dispatch now pick f s = Next t \<or> dispatch now pick f s = Block t \<Longrightarrow> s_onClose t = s_onClose s"
  by (cases f)
     (auto simp: dispatch_def alloc_def pushData_def markRecv_def remoteClose_def remoteReset_def
        remove_def removeStream_def signalAbort_def markReadDone_def closeEof_def Let_def
        split: if_splits option.splits)

lemma readLoop_Stopped:
  "readLoop clk pick k rd s = Stopped e s' \<Longrightarrow>
   s_closed s' = s_closed s \<and> s_closeErr s' = s_closeErr s \<and> s_onClose s' = s_onClose s \<and> e \<noteq> EOF"
proof (induction clk pick k rd s rule: readLoop.induct)
  case (1 clk pick k rd s)
  obtain res rd2 where rf: "readFrame rd = (res, rd2)" by fastforce
  let ?s = "liveRead (clk k) (length (r_bytes rd) - length (r_bytes rd2)) s"
  have same: "s_onClose ?s = s_onClose s" by (simp add: liveRead_def markRecv_def)
  show ?case
  proof (cases res)
    case (Inl e')
    with "1.prems" rf same show ?thesis
      by (auto simp: readLoop.simps [of clk pick k rd s] split: if_splits)
  next
    case (Inr g)
    show ?thesis
    proof (cases "dispatch (clk k) (pick k) g ?s")
      case (Next s2)
      moreover have "readLoop clk pick (Suc k) rd2 s2 = Stopped e s'"
        using "1.prems"(1) rf Inr Next by (simp add: readLoop_next)
      ultimately show ?thesis
        using "1.IH" [OF rf [symmetric] Inr Next] dispatch_closeErr [of "clk k" "pick k" g ?s s2]
          dispatch_onClose [of "clk k" "pick k" g ?s s2] same by simp
    next
      case (Fail e')
      moreover have "e' \<noteq> EOF"
        using Fail by (cases g) (auto simp: dispatch_def alloc_def Let_def split: if_splits option.splits)
      ultimately show ?thesis
        using "1.prems"(1) rf Inr same by (auto simp: readLoop.simps [of clk pick k rd s])
    qed (use "1.prems"(1) rf Inr in \<open>simp add: readLoop.simps [of clk pick k rd s]\<close>)
  qed
qed

lemma shutdown_fields:
  assumes ok: "sess_ok s"
  shows "s_closed (shutdown e s)" "s_onClose (shutdown e s) = s_onClose s"
    "s_closeErr (shutdown e s) = (if s_closed s then s_closeErr s else Some e)"
proof -
  have once: "s_closeOnce s = s_closed s" using ok by (simp add: sess_ok_def close_ok_def)
  have "s_closed (shutdown e s) \<and> s_onClose (shutdown e s) = s_onClose s \<and>
    s_closeErr (shutdown e s) = (if s_closed s then s_closeErr s else Some e)"
  proof (cases "s_closed s")
    case True
    then show ?thesis by (simp add: shutdown_def once)
  next
    case False
    with once have "\<not> s_closeOnce s" by simp
    then obtain h where
      "shutdown e s = s\<lparr>s_closeOnce := True, s_closed := True, s_closeErr := Some e,
         s_heap := h, s_done := True, s_conn := (s_conn s)\<lparr>w_closed := True\<rparr>\<rparr>"
      using shutdown_open [OF ok, of e] by blast
    with False show ?thesis by simp
  qed
  then show "s_closed (shutdown e s)" "s_onClose (shutdown e s) = s_onClose s"
    "s_closeErr (shutdown e s) = (if s_closed s then s_closeErr s else Some e)"
    by blast+
qed

text \<open>
  When \<^verbatim>\<open>Run\<close> returns, the session is over: the connection is closed, every registered stream
  has been marked and its \<^verbatim>\<open>Aborted\<close> channel closed, the error returned is the one the session was closed
  with and the one \<^verbatim>\<open>Wait\<close> gives, and \<^verbatim>\<open>OnClose\<close> has run exactly once if it was set. A session nobody had closed never reports a clean
  end: a peer that just hangs up is \<^verbatim>\<open>io.ErrUnexpectedEOF\<close>, not \<^verbatim>\<open>io.EOF\<close>.
\<close>

theorem run_ends_session:
  assumes ok: "sess_ok s" and run: "Run now clk pick rd s = Some (e, s')"
  shows "s_done s' \<and> w_closed (s_conn s') \<and> \<not> s_panicked s' \<and>
     (\<forall>(i, r) \<in> set (s_streams s'). readDone (strm s' r) \<and> aborted (strm s' r)) \<and>
     e = s_closeErr s' \<and> e \<noteq> None \<and> (\<not> s_closed s \<longrightarrow> e \<noteq> Some EOF) \<and>
     (s_onClose s \<longrightarrow> length (s_closeCalls s') = 1) \<and> Wait s' = Some e"
proof -
  let ?m = "markRecv now s"
  obtain e1 s1 where l: "readLoop clk pick 0 rd ?m = Stopped e1 s1" and f: "finishRun e1 s1 = (e, s')"
    using run by (auto simp: Run_def split: loop_res.splits)
  have ok1: "sess_ok s1" using readLoop_ok [of ?m clk pick 0 rd] ok l by simp
  then have ok': "sess_ok s'" using finishRun_ok [OF ok1, of e1] f by simp
  have same: "s_closed s1 = s_closed s" "s_onClose s1 = s_onClose s" "e1 \<noteq> EOF"
    using readLoop_Stopped [OF l] by (simp_all add: markRecv_def)
  let ?s2 = "shutdown e1 s1"
  have s': "s' = fireOnClose (s_closeErr ?s2) ?s2" "e = s_closeErr ?s2"
    using f by (auto simp: finishRun_def Let_def)
  note s2 = shutdown_fields [OF ok1, of e1]
  have closed: "s_closed s'" "s_closeErr s' = s_closeErr ?s2" "s_onClose s \<Longrightarrow> s_cbOnce s'"
    using s' s2 same by (auto simp: fireOnClose_def)
  then show ?thesis
    using ok' s'(2) s2(3) same by (auto simp: sess_ok_def close_ok_def map_ok_def Wait_def)
qed

theorem run_ends_session_witness:
  "\<exists>e s'. Run 1 (\<lambda>_. 2) (\<lambda>_. True) \<lparr>r_bytes = [], r_end = EOF\<rparr> demo_server = Some (e, s') \<and>
     s_done s' \<and> e \<noteq> None \<and> e \<noteq> Some EOF"
proof -
  obtain e s' where r: "Run 1 (\<lambda>_. 2) (\<lambda>_. True) \<lparr>r_bytes = [], r_end = EOF\<rparr> demo_server = Some (e, s')"
    by (cases "finishRun ErrUnexpectedEOF (liveRead 2 0 (markRecv 1 demo_server))")
       (simp add: Run_def readLoop.simps [of _ _ 0] readFrame_def ReadFull_def HeaderSize_def)
  have "\<not> s_closed demo_server" by (simp add: demo_server_eq NewServerSession_def newSession_def)
  with run_ends_session [OF demo_ok(1) r] r show ?thesis by blast
qed

end
