(* ===== verification/Go_Std.thy ===== *)
theory Go_Std
  imports Prelude
begin

text \<open>
  The part of Go's standard library the program's logic rests on, for strings. A Go string is a
  sequence of bytes, so it is HOL's \<open>string\<close> (a list of 8-bit characters). \<^verbatim>\<open>strings\<close>: prefixes, suffixes,
  cutting, splitting, trimming (white space is the set of UTF-8 encodings of the runes for which
  \<^verbatim>\<open>unicode.IsSpace\<close> holds), lower case. \<^verbatim>\<open>strings.ToLower\<close> maps ASCII letters here; what Unicode's tables do to
  a string with other characters is the parameter \<open>uni\<close>, and no statement depends on it. \<^verbatim>\<open>bufio.Scanner\<close> over lines,
  \<^verbatim>\<open>net.SplitHostPort\<close>, \<^verbatim>\<open>strconv.Itoa\<close>, and base64 (unpadded URL alphabet) follow.
\<close>

section \<open>Prefixes, suffixes, cutting\<close>

definition HasPrefix :: "string \<Rightarrow> string \<Rightarrow> bool" where
  "HasPrefix s p \<longleftrightarrow> take (length p) s = p"

definition HasSuffix :: "string \<Rightarrow> string \<Rightarrow> bool" where
  "HasSuffix s p \<longleftrightarrow> length p \<le> length s \<and> drop (length s - length p) s = p"

definition TrimPrefix :: "string \<Rightarrow> string \<Rightarrow> string" where
  "TrimPrefix s p = (if HasPrefix s p then drop (length p) s else s)"

definition TrimSuffix :: "string \<Rightarrow> string \<Rightarrow> string" where
  "TrimSuffix s p = (if HasSuffix s p then take (length s - length p) s else s)"

definition CutSuffix :: "string \<Rightarrow> string \<Rightarrow> string option" where
  "CutSuffix s p = (if HasSuffix s p then Some (take (length s - length p) s) else None)"

primrec IndexByte :: "string \<Rightarrow> char \<Rightarrow> nat option" where
  "IndexByte [] c = None"
| "IndexByte (x # xs) c = (if x = c then Some 0 else map_option Suc (IndexByte xs c))"

definition LastIndexByte :: "string \<Rightarrow> char \<Rightarrow> nat option" where
  "LastIndexByte s c = map_option (\<lambda>i. length s - 1 - i) (IndexByte (rev s) c)"

definition Cut :: "string \<Rightarrow> char \<Rightarrow> (string \<times> string) option" where
  "Cut s c = map_option (\<lambda>i. (take i s, drop (Suc i) s)) (IndexByte s c)"

definition contains :: "string \<Rightarrow> char \<Rightarrow> bool" where
  "contains s c \<longleftrightarrow> c \<in> set s"

text \<open>\<^verbatim>\<open>strings.Split\<close> at a one-byte separator (never empty), \<^verbatim>\<open>strings.Join\<close>.\<close>

primrec Split :: "string \<Rightarrow> char \<Rightarrow> string list" where
  "Split [] c = [[]]"
| "Split (x # xs) c =
     (if x = c then [] # Split xs c
      else case Split xs c of [] \<Rightarrow> [[x]] | y # ys \<Rightarrow> (x # y) # ys)"

fun Join :: "string list \<Rightarrow> string \<Rightarrow> string" where
  "Join [] sep = []"
| "Join [x] sep = x"
| "Join (x # y # ys) sep = x @ sep @ Join (y # ys) sep"

definition ReplaceByte :: "char \<Rightarrow> char \<Rightarrow> string \<Rightarrow> string" where
  "ReplaceByte a b s = map (\<lambda>c. if c = a then b else c) s"

section \<open>White space\<close>

text \<open>The UTF-8 encodings of the runes with \<^verbatim>\<open>unicode.IsSpace\<close>.\<close>

definition utf8 :: "nat list \<Rightarrow> string" where
  "utf8 ns = map char_of ns"

definition spaceRunes :: "string list" where
  "spaceRunes =
     map (\<lambda>n. utf8 [n]) [9, 10, 11, 12, 13, 32] @
     [utf8 [0xC2, 0x85], utf8 [0xC2, 0xA0], utf8 [0xE1, 0x9A, 0x80]] @
     map (\<lambda>n. utf8 [0xE2, 0x80, n]) [0x80, 0x81, 0x82, 0x83, 0x84, 0x85, 0x86, 0x87, 0x88, 0x89, 0x8A,
       0xA8, 0xA9, 0xAF] @
     [utf8 [0xE2, 0x81, 0x9F], utf8 [0xE3, 0x80, 0x80]]"

definition runeLen :: "string list \<Rightarrow> string \<Rightarrow> nat" where
  "runeLen ws s = (case find (\<lambda>w. w \<noteq> [] \<and> HasPrefix s w) ws of Some w \<Rightarrow> length w | None \<Rightarrow> 0)"

lemma runeLen_le: "runeLen ws s \<le> length s"
  by (auto simp: runeLen_def HasPrefix_def find_Some_iff split: option.splits)
     (metis length_take min.cobounded1)

function trimRunes :: "string list \<Rightarrow> string \<Rightarrow> string" where
  "trimRunes ws s = (if runeLen ws s = 0 then s else trimRunes ws (drop (runeLen ws s) s))"
  by pat_completeness auto
termination
proof (relation "measure (\<lambda>(ws, s). length s)", goal_cases)
  case (2 ws s)
  with runeLen_le [of ws s] show ?case by simp
qed simp

declare trimRunes.simps [simp del]

definition TrimSpace :: "string \<Rightarrow> string" where
  "TrimSpace s = rev (trimRunes (map rev spaceRunes) (rev (trimRunes spaceRunes s)))"

section \<open>Lower case\<close>

definition isAscii :: "char \<Rightarrow> bool" where
  "isAscii c \<longleftrightarrow> of_char c < (128 :: nat)"

definition lowerByte :: "char \<Rightarrow> char" where
  "lowerByte c =
     (let n = of_char c :: nat in if 65 \<le> n \<and> n \<le> 90 then char_of (n + 32) else c)"

definition ToLower :: "(string \<Rightarrow> string) \<Rightarrow> string \<Rightarrow> string" where
  "ToLower uni s = (if list_all isAscii s then map lowerByte s else uni s)"

section \<open>Fields and lines\<close>

text \<open>
  \<^verbatim>\<open>strings.FieldsFunc\<close> where the separator runes are given by their encodings. No encoding begins with a
  continuation byte, so stepping byte by byte finds the same separators as stepping rune by rune.
\<close>

function fieldsFrom :: "string list \<Rightarrow> string \<Rightarrow> string \<Rightarrow> string list" where
  "fieldsFrom ws w s =
     (if s = [] then (if w = [] then [] else [w])
      else if 0 < runeLen ws s then
        (if w = [] then [] else [w]) @ fieldsFrom ws [] (drop (runeLen ws s) s)
      else fieldsFrom ws (w @ [hd s]) (tl s))"
  by pat_completeness auto
termination
proof (relation "measure (\<lambda>(ws, w, s). length s)", goal_cases)
  case (2 ws w s)
  with runeLen_le [of ws s] show ?case by simp
qed simp_all

declare fieldsFrom.simps [simp del]

definition FieldsFunc :: "string list \<Rightarrow> string \<Rightarrow> string list" where
  "FieldsFunc ws s = fieldsFrom ws [] s"

text \<open>
  \<^verbatim>\<open>bufio.Scanner\<close> with its default \<^verbatim>\<open>ScanLines\<close> over a whole input: the lines it delivers, each without its
  line end, and whether it then stopped with \<^verbatim>\<open>ErrTooLong\<close> (a line of 64 KiB or more).
\<close>

definition MaxScanTokenSize :: nat where "MaxScanTokenSize = 65536"

abbreviation newline :: char where "newline \<equiv> CHR 10"

definition dropCR :: "string \<Rightarrow> string" where
  "dropCR s = (if s \<noteq> [] \<and> last s = CHR 13 then butlast s else s)"

definition rawLines :: "string \<Rightarrow> string list" where
  "rawLines s = (let ls = Split s newline in if last ls = [] then butlast ls else ls)"

definition scanLines :: "string \<Rightarrow> string list \<times> bool" where
  "scanLines s =
     (let ls = rawLines s; good = takeWhile (\<lambda>l. length l < MaxScanTokenSize) ls
      in (map dropCR good, length good < length ls))"

section \<open>Numbers\<close>

function itoaNat :: "nat \<Rightarrow> string" where
  "itoaNat n = (if n < 10 then [char_of (48 + n)] else itoaNat (n div 10) @ [char_of (48 + n mod 10)])"
  by pat_completeness auto
termination
  by (relation "measure (\<lambda>n. n)") auto

declare itoaNat.simps [simp del]

definition Itoa :: "int \<Rightarrow> string" where
  "Itoa i = (if i < 0 then CHR ''-'' # itoaNat (nat (- i)) else itoaNat (nat i))"

text \<open>\<^verbatim>\<open>strconv.ParseInt\<close> in base 10 for 64 bits, and \<^verbatim>\<open>strconv.Atoi\<close>: an optional sign, digits, the range.\<close>

definition isDigit :: "char \<Rightarrow> bool" where
  "isDigit c \<longleftrightarrow> 48 \<le> (of_char c :: nat) \<and> (of_char c :: nat) \<le> 57"

definition digitsVal :: "string \<Rightarrow> nat" where
  "digitsVal s = foldl (\<lambda>a c. a * 10 + (of_char c - 48)) 0 s"

definition parseDigits :: "string \<Rightarrow> nat option" where
  "parseDigits s = (if s \<noteq> [] \<and> list_all isDigit s then Some (digitsVal s) else None)"

definition ParseInt :: "string \<Rightarrow> int option" where
  "ParseInt s =
     (let sgn = (if s \<noteq> [] \<and> hd s = CHR ''-'' then - 1 else 1);
          ds = (if s \<noteq> [] \<and> (hd s = CHR ''-'' \<or> hd s = CHR ''+'') then tl s else s)
      in case parseDigits ds of
           None \<Rightarrow> None
         | Some n \<Rightarrow> let i = sgn * int n in if - (2 ^ 63) \<le> i \<and> i < 2 ^ 63 then Some i else None)"

section \<open>Host and port\<close>

definition SplitHostPort :: "string \<Rightarrow> (string \<times> string) option" where
  "SplitHostPort hp =
     (case LastIndexByte hp CHR '':'' of
        None \<Rightarrow> None
      | Some i \<Rightarrow>
          let port = drop (Suc i) hp
          in if hd hp = CHR ''['' then
               (case IndexByte hp CHR '']'' of
                  None \<Rightarrow> None
                | Some e \<Rightarrow>
                    if Suc e = i \<and> \<not> contains (drop 1 hp) CHR ''['' \<and> \<not> contains (drop (Suc e) hp) CHR '']''
                    then Some (take (e - 1) (drop 1 hp), port)
                    else None)
             else if contains (take i hp) CHR '':'' \<or> contains hp CHR ''['' \<or> contains hp CHR '']''
             then None
             else Some (take i hp, port))"

definition JoinHostPort :: "string \<Rightarrow> string \<Rightarrow> string" where
  "JoinHostPort host port =
     (if contains host CHR '':'' then CHR ''['' # host @ '']:'' @ port else host @ '':'' @ port)"

section \<open>Base64\<close>

definition b64alpha :: string where
  "b64alpha = ''ABCDEFGHIJKLMNOPQRSTUVWXYZabcdefghijklmnopqrstuvwxyz0123456789-_''"

definition b64char :: "nat \<Rightarrow> char" where
  "b64char n = b64alpha ! n"

definition b64val :: "char \<Rightarrow> nat option" where
  "b64val c = IndexByte b64alpha c"

fun b64vals :: "nat list \<Rightarrow> nat list" where
  "b64vals [] = []"
| "b64vals [a] = [a div 4, a mod 4 * 16]"
| "b64vals [a, b] = [a div 4, a mod 4 * 16 + b div 16, b mod 16 * 4]"
| "b64vals (a # b # c # r) =
     a div 4 # (a mod 4 * 16 + b div 16) # (b mod 16 * 4 + c div 64) # c mod 64 # b64vals r"

fun b64bytes :: "nat list \<Rightarrow> nat list option" where
  "b64bytes [] = Some []"
| "b64bytes [x] = None"
| "b64bytes [x, y] = Some [x * 4 + y div 16]"
| "b64bytes [x, y, z] = Some [x * 4 + y div 16, y mod 16 * 16 + z div 4]"
| "b64bytes (x # y # z # w # r) =
     map_option (\<lambda>bs. (x * 4 + y div 16) # (y mod 16 * 16 + z div 4) # (z mod 4 * 64 + w) # bs) (b64bytes r)"

text \<open>\<^verbatim>\<open>base64.RawURLEncoding\<close>: no padding, line breaks ignored when decoding, spare bits not checked.\<close>

definition EncodeToString :: "string \<Rightarrow> string" where
  "EncodeToString b = map b64char (b64vals (map of_char b))"

definition DecodeString :: "string \<Rightarrow> string option" where
  "DecodeString s =
     (let cs = filter (\<lambda>c. c \<noteq> CHR 10 \<and> c \<noteq> CHR 13) s
      in if list_all (\<lambda>c. b64val c \<noteq> None) cs
         then map_option (map char_of) (b64bytes (map (\<lambda>c. the (b64val c)) cs))
         else None)"

section \<open>Facts\<close>

lemma HasPrefix_append [simp]: "HasPrefix (p @ s) p"
  by (simp add: HasPrefix_def)

lemma HasPrefix_iff: "HasPrefix s p \<longleftrightarrow> (\<exists>r. s = p @ r)"
  by (auto simp: HasPrefix_def) (metis append_take_drop_id)

lemma HasSuffix_append [simp]: "HasSuffix (s @ p) p"
  by (simp add: HasSuffix_def)

lemma HasSuffix_iff: "HasSuffix s p \<longleftrightarrow> (\<exists>r. s = r @ p)"
  by (auto simp: HasSuffix_def) (metis append_take_drop_id)

lemma CutSuffix_eq_Some: "CutSuffix s p = Some r \<longleftrightarrow> s = r @ p"
  by (auto simp: CutSuffix_def HasSuffix_iff split: if_splits)

lemma IndexByte_Some:
  "IndexByte s c = Some i \<Longrightarrow> i < length s \<and> s ! i = c \<and> c \<notin> set (take i s)"
  by (induction s arbitrary: i) (auto split: if_splits)

lemma IndexByte_None: "IndexByte s c = None \<longleftrightarrow> c \<notin> set s"
  by (induction s) auto

lemma IndexByte_append: "c \<notin> set s \<Longrightarrow> IndexByte (s @ c # r) c = Some (length s)"
  by (induction s) auto

lemma IndexByte_split:
  assumes "IndexByte s c = Some i"
  shows "s = take i s @ c # drop (Suc i) s"
  using IndexByte_Some [OF assms] by (metis id_take_nth_drop)

lemma of_char_256 [simp]: "of_char c < (256 :: nat)"
  by (rule nat_of_char_less_256)

lemma b64alpha_facts: "distinct b64alpha" "length b64alpha = 64" "CHR ''.'' \<notin> set b64alpha"
  "newline \<notin> set b64alpha" "CHR 13 \<notin> set b64alpha" "CHR '':'' \<notin> set b64alpha"
  by (simp_all add: b64alpha_def)

lemma b64val_b64char: "n < 64 \<Longrightarrow> b64val (b64char n) = Some n"
proof -
  assume n: "n < 64"
  have "b64alpha = take n b64alpha @ b64alpha ! n # drop (Suc n) b64alpha"
    using n by (simp add: b64alpha_facts id_take_nth_drop)
  moreover have "b64alpha ! n \<notin> set (take n b64alpha)"
    using n b64alpha_facts(1,2) by (auto simp: in_set_conv_nth nth_eq_iff_index_eq)
  ultimately have "IndexByte b64alpha (b64alpha ! n) = Some (length (take n b64alpha))"
    using IndexByte_append by metis
  with n show ?thesis by (simp add: b64val_def b64char_def b64alpha_facts)
qed

lemma b64vals_bounds: "\<forall>a \<in> set as. a < 256 \<Longrightarrow> \<forall>x \<in> set (b64vals as). x < 64"
  by (induction as rule: b64vals.induct) auto

lemma b64bytes_vals: "\<forall>a \<in> set as. a < 256 \<Longrightarrow> b64bytes (b64vals as) = Some as"
  by (induction as rule: b64vals.induct) auto

lemma EncodeToString_alpha: "c \<in> set (EncodeToString b) \<Longrightarrow> c \<in> set b64alpha"
  using b64vals_bounds [of "map of_char b"]
  by (auto simp: EncodeToString_def b64char_def b64alpha_facts)

lemma EncodeToString_no:
  "CHR ''.'' \<notin> set (EncodeToString b)" "newline \<notin> set (EncodeToString b)"
  "CHR 13 \<notin> set (EncodeToString b)" "CHR '':'' \<notin> set (EncodeToString b)"
  using EncodeToString_alpha b64alpha_facts by blast+

lemma DecodeString_EncodeToString [simp]: "DecodeString (EncodeToString b) = Some b"
proof -
  let ?vs = "b64vals (map of_char b)"
  have bounds: "\<forall>x \<in> set ?vs. x < 64" by (rule b64vals_bounds) simp
  have "filter (\<lambda>c. c \<noteq> newline \<and> c \<noteq> CHR 13) (EncodeToString b) = EncodeToString b"
    using EncodeToString_no by (intro filter_True) metis
  moreover have "list_all (\<lambda>c. b64val c \<noteq> None) (EncodeToString b)"
    using bounds by (simp add: EncodeToString_def list_all_iff b64val_b64char)
  moreover have "map (\<lambda>c. the (b64val c)) (EncodeToString b) = ?vs"
    using bounds by (simp add: EncodeToString_def b64val_b64char map_idI)
  moreover have "b64bytes ?vs = Some (map of_char b)" by (rule b64bytes_vals) simp
  ultimately show ?thesis by (simp add: DecodeString_def map_idI)
qed

text \<open>Characters that neither begin nor end a white-space rune.\<close>

definition graphic :: "char \<Rightarrow> bool" where
  "graphic c \<longleftrightarrow> 33 \<le> (of_char c :: nat) \<and> (of_char c :: nat) < 128"

lemma char_of_neq: "(n :: nat) < 256 \<Longrightarrow> of_char c \<noteq> n \<Longrightarrow> char_of n \<noteq> c"
  by auto

lemma graphic_not_space:
  assumes "graphic c"
  shows "list_all (\<lambda>w. hd w \<noteq> c) spaceRunes" "list_all (\<lambda>w. hd w \<noteq> c) (map rev spaceRunes)"
  using assms by (auto simp: spaceRunes_def utf8_def graphic_def intro!: char_of_neq)

lemma HasPrefix_hd: "w \<noteq> [] \<Longrightarrow> HasPrefix (c # s) w \<Longrightarrow> hd w = c"
  by (auto simp: HasPrefix_iff) (metis hd_append list.sel(1))

lemma runeLen_0:
  assumes "list_all (\<lambda>w. hd w \<noteq> c) ws"
  shows "runeLen ws (c # s) = 0"
proof -
  have "find (\<lambda>w. w \<noteq> [] \<and> HasPrefix (c # s) w) ws = None"
    using assms by (auto simp: find_None_iff list_all_iff dest: HasPrefix_hd)
  then show ?thesis by (simp add: runeLen_def)
qed

lemma runeLen_Nil [simp]: "runeLen ws [] = 0"
  using runeLen_le [of ws "[]"] by simp

lemma trimRunes_stop: "list_all (\<lambda>w. hd w \<noteq> c) ws \<Longrightarrow> trimRunes ws (c # s) = c # s"
  by (simp add: trimRunes.simps [of ws "c # s"] runeLen_0)

lemma TrimSpace_plain:
  assumes "s \<noteq> []" and "graphic (hd s)" and "graphic (last s)"
  shows "TrimSpace s = s"
proof -
  have 1: "trimRunes spaceRunes s = s"
    using assms(1,2) trimRunes_stop [OF graphic_not_space(1)] by (cases s) simp_all
  obtain c r where r: "rev s = c # r" using assms(1) by (cases "rev s") auto
  then have "c = last s" by (metis hd_rev list.sel(1))
  with assms(3) have "trimRunes (map rev spaceRunes) (rev s) = rev s"
    unfolding r by (intro trimRunes_stop graphic_not_space(2)) simp
  with 1 show ?thesis by (simp add: TrimSpace_def)
qed

lemma TrimSpace_Nil [simp]: "TrimSpace [] = []"
  by (simp add: TrimSpace_def trimRunes.simps [of _ "[]"])

lemma fieldsFrom_word:
  "list_all (\<lambda>c. list_all (\<lambda>w. hd w \<noteq> c) ws) p \<Longrightarrow> fieldsFrom ws w (p @ s) = fieldsFrom ws (w @ p) s"
proof (induction p arbitrary: w)
  case (Cons c p)
  have "fieldsFrom ws w ((c # p) @ s) = fieldsFrom ws (w @ [c]) (p @ s)"
    using Cons.prems fieldsFrom.simps [of ws w "c # p @ s"] by (simp add: runeLen_0)
  with Cons show ?case by simp
qed simp

lemma fieldsFrom_end [simp]: "fieldsFrom ws w [] = (if w = [] then [] else [w])"
  by (simp add: fieldsFrom.simps [of ws w "[]"])

lemma itoaNat_digits: "list_all isDigit (itoaNat n) \<and> itoaNat n \<noteq> []"
proof (induction n rule: itoaNat.induct)
  case (1 n)
  have d: "isDigit (char_of (48 + m))" if "m < 10" for m :: nat using that by (simp add: isDigit_def)
  show ?case
  proof (cases "n < 10")
    case True
    then show ?thesis using d [of n] by (simp add: itoaNat.simps [of n])
  next
    case False
    then show ?thesis using 1 d [of "n mod 10"] by (simp add: itoaNat.simps [of n])
  qed
qed

lemma digitsVal_itoaNat: "digitsVal (itoaNat n) = n"
proof (induction n rule: itoaNat.induct)
  case (1 n)
  then show ?case by (cases "n < 10") (simp_all add: itoaNat.simps [of n] digitsVal_def)
qed

lemma parseDigits_itoaNat [simp]: "parseDigits (itoaNat n) = Some n"
  using itoaNat_digits [of n] by (simp add: parseDigits_def digitsVal_itoaNat)

lemma ParseInt_Itoa: "- (2 ^ 63) \<le> i \<Longrightarrow> i < 2 ^ 63 \<Longrightarrow> ParseInt (Itoa i) = Some i"
proof -
  assume r: "- (2 ^ 63) \<le> i" "i < 2 ^ 63"
  obtain c cs where c: "itoaNat (nat i) = c # cs" "isDigit c"
    using itoaNat_digits [of "nat i"] by (cases "itoaNat (nat i)") auto
  then have "c \<noteq> CHR ''-''" "c \<noteq> CHR ''+''" by (auto simp: isDigit_def)
  then show ?thesis
    using r c(1) parseDigits_itoaNat [of "nat i"] by (cases "i < 0") (simp_all add: ParseInt_def Itoa_def Let_def)
qed

lemma Itoa_inject: "Itoa i = Itoa j \<Longrightarrow> i = j"
proof -
  assume e: "Itoa i = Itoa j"
  have no: "CHR ''-'' \<notin> set (itoaNat n)" for n
    using itoaNat_digits [of n] by (auto simp: list_all_iff isDigit_def)
  have inj: "itoaNat m = itoaNat n \<Longrightarrow> m = n" for m n using parseDigits_itoaNat by (metis option.inject)
  show ?thesis
    using e inj [of "nat i" "nat j"] inj [of "nat (- i)" "nat (- j)"] no [of "nat i"] no [of "nat j"]
    by (auto simp: Itoa_def split: if_splits) (metis list.set_intros(1))+
qed

end
