(* ===== verification/Proto.thy ===== *)
theory Proto
  imports Frame Go_Std
begin

text \<open>
  The control-plane messages, \<^verbatim>\<open>internal/proto/message.go\<close>: the hello and the ack, the line framing of the
  handshake, subdomain syntax. How \<^verbatim>\<open>encoding/json\<close> writes and reads a message is a parameter (\<open>enc\<close>, \<open>dec\<close>); what
  the framing needs of it is stated where it is used: an encoding has no raw newline, and decoding a line gives
  the message back.
\<close>

section \<open>Messages\<close>

definition ControlVersion :: int where "ControlVersion = 1"
definition TypeHello :: string where "TypeHello = ''hello''"
definition TypeAck :: string where "TypeAck = ''ack''"

record hello =
  h_Type :: string
  h_Version :: int
  h_Token :: string
  h_Subdomain :: string
  h_Protected :: bool

record ack =
  a_Type :: string
  a_OK :: bool
  a_Subdomain :: string
  a_PublicURL :: string
  a_Error :: string
  a_Code :: string

definition CodeTLSRequired :: string where "CodeTLSRequired = ''tls_required''"

record openMeta =
  om_Host :: string
  om_RemoteAddr :: string

section \<open>Line framing\<close>

definition strBytes :: "string \<Rightarrow> bytes" where
  "strBytes s = map of_char s"

definition bytesStr :: "bytes \<Rightarrow> string" where
  "bytesStr b = map (\<lambda>w. char_of (unat w)) b"

datatype msg_err = MsgMarshal | MsgWrite err | MsgTooLong | MsgRead err | MsgUnmarshal

definition WriteMessage :: "('m \<Rightarrow> string option) \<Rightarrow> 'm \<Rightarrow> writer \<Rightarrow> msg_err option \<times> writer" where
  "WriteMessage enc v w =
     (case enc v of
        None \<Rightarrow> (Some MsgMarshal, w)
      | Some b \<Rightarrow>
          (case w_write (strBytes (b @ [newline])) w of
             (Some e, w1) \<Rightarrow> (Some (MsgWrite e), w1)
           | (None, w1) \<Rightarrow> (None, w1)))"

text \<open>\<^verbatim>\<open>bufio.Reader.ReadSlice\<close> for the newline, on a reader with the default buffer.\<close>

definition bufSize :: nat where "bufSize = 4096"

definition ReadSlice :: "reader \<Rightarrow> (msg_err + bytes) \<times> reader" where
  "ReadSlice r =
     (let bs = r_bytes r; n = length (takeWhile (\<lambda>b. b \<noteq> 10) bs)
      in if n < length bs \<and> n < bufSize then (Inr (take (Suc n) bs), r\<lparr>r_bytes := drop (Suc n) bs\<rparr>)
         else if bufSize \<le> length bs then (Inl MsgTooLong, r\<lparr>r_bytes := drop bufSize bs\<rparr>)
         else (Inl (MsgRead (r_end r)), r\<lparr>r_bytes := []\<rparr>))"

definition ReadMessage :: "(string \<Rightarrow> 'm option) \<Rightarrow> reader \<Rightarrow> (msg_err + 'm) \<times> reader" where
  "ReadMessage dec r =
     (case ReadSlice r of
        (Inl e, r1) \<Rightarrow> (Inl e, r1)
      | (Inr line, r1) \<Rightarrow>
          (case dec (bytesStr line) of None \<Rightarrow> (Inl MsgUnmarshal, r1) | Some v \<Rightarrow> (Inr v, r1)))"

section \<open>Subdomains\<close>

definition isNameStart :: "char \<Rightarrow> bool" where
  "isNameStart c \<longleftrightarrow>
     (let n = of_char c :: nat in 97 \<le> n \<and> n \<le> 122 \<or> 48 \<le> n \<and> n \<le> 57)"

definition isNameChar :: "char \<Rightarrow> bool" where
  "isNameChar c \<longleftrightarrow> isNameStart c \<or> c = CHR ''-''"

definition ValidSubdomain :: "string \<Rightarrow> bool" where
  "ValidSubdomain s \<longleftrightarrow>
     (case s of [] \<Rightarrow> False | c # cs \<Rightarrow> isNameStart c \<and> list_all isNameChar cs \<and> length cs \<le> 62)"

definition NormalizeSubdomain :: "(string \<Rightarrow> string) \<Rightarrow> string \<Rightarrow> string" where
  "NormalizeSubdomain uni s = ToLower uni (TrimSpace s)"

section \<open>Facts\<close>

lemma unat_of_char: "unat (of_char c :: byte) = of_char c"
proof -
  have "unat (of_nat (of_char c) :: byte) = of_char c mod 2 ^ 8"
    by (simp only: unat_of_nat) simp
  also have "\<dots> = of_char c"
    using of_char_256 [of c] by (intro mod_less) simp
  finally show ?thesis by (simp only: of_nat_of_char)
qed

lemma bytesStr_strBytes [simp]: "bytesStr (strBytes s) = s"
  by (simp add: bytesStr_def strBytes_def unat_of_char map_idI)

lemma strBytes_newline: "of_char c = (10 :: byte) \<longleftrightarrow> c = newline"
proof
  assume "of_char c = (10 :: byte)"
  then have "bytesStr (strBytes [c]) = bytesStr (strBytes [newline])"
    by (simp add: strBytes_def)
  then show "c = newline" by simp
qed simp

lemma strBytes_append [simp]: "strBytes (s @ t) = strBytes s @ strBytes t"
  by (simp add: strBytes_def)

lemma length_strBytes [simp]: "length (strBytes s) = length s"
  by (simp add: strBytes_def)

text \<open>A handshake line as a value: the framing is a prefix code, like the frames of the multiplexer.\<close>

definition line_bytes :: "string \<Rightarrow> bytes" where
  "line_bytes l = strBytes (l @ [newline])"

definition line_ok :: "string \<Rightarrow> bool" where
  "line_ok l \<longleftrightarrow> newline \<notin> set l \<and> length l < bufSize"

definition decode_line :: "bytes \<Rightarrow> (string \<times> bytes) option" where
  "decode_line b =
     (case ReadSlice \<lparr>r_bytes = b, r_end = EOF\<rparr> of
        (Inl e, r) \<Rightarrow> None
      | (Inr line, r) \<Rightarrow> Some (butlast (bytesStr line), r_bytes r))"

lemma ReadSlice_line:
  assumes "line_ok l" and "r_bytes r = line_bytes l @ rest"
  shows "ReadSlice r = (Inr (line_bytes l), r\<lparr>r_bytes := rest\<rparr>)"
proof -
  have "\<forall>b \<in> set (strBytes l). b \<noteq> 10"
    using assms(1) strBytes_newline by (auto simp: line_ok_def strBytes_def)
  then have "takeWhile (\<lambda>b. b \<noteq> 10) (r_bytes r) = strBytes l"
    using assms(2) by (simp add: line_bytes_def strBytes_def takeWhile_append)
  then show ?thesis
    using assms by (simp add: ReadSlice_def Let_def line_ok_def line_bytes_def)
qed

interpretation line: prefix_codec line_bytes decode_line line_ok
proof
  fix l :: string and rest :: bytes
  assume "line_ok l"
  then show "decode_line (line_bytes l @ rest) = Some (l, rest)"
    using ReadSlice_line [of l "\<lparr>r_bytes = line_bytes l @ rest, r_end = EOF\<rparr>" rest]
    by (simp add: decode_line_def) (simp add: line_bytes_def del: strBytes_append)
  show "line_bytes l \<noteq> []" by (simp add: line_bytes_def strBytes_def)
qed

lemma WriteMessage_bytes:
  assumes "WriteMessage enc v w = (None, w')"
  shows "\<exists>j. enc v = Some j \<and> w_bytes w' = w_bytes w @ line_bytes j"
  using assms
  by (auto simp: WriteMessage_def w_bytes_def line_bytes_def dest!: w_write_ok
      split: option.splits prod.splits)

text \<open>
  The handshake's framing is exact: a message that was written and fits the reader's buffer is
  read back, and the reader is left with precisely the bytes after the newline, which the multiplexer reads
  next. A line with no newline among the first 4096 bytes is refused.
\<close>

theorem handshake_framing:
  assumes "WriteMessage enc v w = (None, w')" and "enc v = Some j" and "newline \<notin> set j"
    and "dec (j @ [newline]) = Some v"
    and "r_bytes r = drop (length (w_bytes w)) (w_bytes w') @ rest"
  shows "ReadMessage dec r =
     (if length j < bufSize then (Inr v, r\<lparr>r_bytes := rest\<rparr>)
      else (Inl MsgTooLong, r\<lparr>r_bytes := drop bufSize (r_bytes r)\<rparr>))"
proof -
  have bytes: "r_bytes r = line_bytes j @ rest"
    using WriteMessage_bytes [OF assms(1)] assms(2,5) by auto
  show ?thesis
  proof (cases "length j < bufSize")
    case True
    with assms(3) have "ReadSlice r = (Inr (line_bytes j), r\<lparr>r_bytes := rest\<rparr>)"
      using bytes by (intro ReadSlice_line) (simp_all add: line_ok_def)
    moreover have "dec (bytesStr (line_bytes j)) = Some v"
      using assms(4) by (simp add: line_bytes_def del: strBytes_append)
    ultimately show ?thesis using True by (simp add: ReadMessage_def)
  next
    case False
    have "\<forall>b \<in> set (strBytes j). b \<noteq> 10"
      using assms(3) strBytes_newline by (auto simp: strBytes_def)
    then have "takeWhile (\<lambda>b. b \<noteq> 10) (r_bytes r) = strBytes j"
      using bytes by (simp add: line_bytes_def strBytes_def takeWhile_append)
    with False bytes show ?thesis
      by (simp add: ReadMessage_def ReadSlice_def Let_def line_bytes_def)
  qed
qed

theorem handshake_framing_witness:
  "ReadMessage (\<lambda>l. if HasSuffix l [newline] then Some (butlast l) else None)
       \<lparr>r_bytes = [123, 125, 10, 1, 2], r_end = EOF\<rparr> = (Inr ''{}'', \<lparr>r_bytes = [1, 2], r_end = EOF\<rparr>)"
proof -
  let ?w = "\<lparr>w_calls = [], w_plan = [], w_closed = False\<rparr>"
  let ?w' = "\<lparr>w_calls = [[123, 125, 10]], w_plan = [], w_closed = False\<rparr>"
  have "WriteMessage Some ''{}'' ?w = (None, ?w')"
    by (simp add: WriteMessage_def w_write_def strBytes_def)
  from handshake_framing [OF this refl, where rest = "[1, 2]"
      and dec = "\<lambda>l. if HasSuffix l [newline] then Some (butlast l) else None"
      and r = "\<lparr>r_bytes = [123, 125, 10, 1, 2], r_end = EOF\<rparr>"]
  show ?thesis by (simp add: w_bytes_def bufSize_def HasSuffix_def)
qed

end
