(* ===== verification/Token.thy ===== *)
theory Token
  imports Proto
begin

text \<open>
  Signed, scoped tunnel tokens, \<^verbatim>\<open>internal/token/token.go\<close>. The library functions the format rests on are the
  fields of \<open>lib\<close>: HMAC-SHA256 and the JSON form of the claims (with \<open>l_lower\<close>, Unicode's lower case for strings that
  are not ASCII, used by the theories that import this one). Base64 is the concrete one. Times are nanoseconds;
  randomness is an argument, \<open>None\<close> when the system has none to give.
\<close>

record claims =
  c_Sub :: string
  c_Exp :: int
  c_ID :: string
  c_Prot :: bool

record lib =
  l_lower :: "string \<Rightarrow> string"
  l_hmac :: "string \<Rightarrow> string \<Rightarrow> string"
  l_marshal :: "claims \<Rightarrow> string option"
  l_unmarshal :: "string \<Rightarrow> claims option"

definition Prefix :: string where "Prefix = ''m1.''"

datatype tok_err = ErrEmptyKey | ErrRandom | ErrMarshal | ErrMalformed | ErrBadSig | ErrExpired

definition unix :: "int \<Rightarrow> int" where "unix now = now div 10 ^ 9"

definition b64 :: "string \<Rightarrow> string" where "b64 b = EncodeToString b"
definition b64d :: "string \<Rightarrow> string option" where "b64d s = DecodeString s"

definition hmacSum :: "'x lib_scheme \<Rightarrow> string \<Rightarrow> string \<Rightarrow> string" where
  "hmacSum L key payload = l_hmac L key payload"

definition hexEncode :: "string \<Rightarrow> string" where
  "hexEncode b = concat (map (\<lambda>c. [hex_digit (of_char c div 16), hex_digit (of_char c mod 16)]) b)"

definition randomID :: "string option \<Rightarrow> string option" where
  "randomID rnd = map_option (\<lambda>b. ''tok_'' @ hexEncode b) rnd"

record mintOpts =
  mo_Sub :: string
  mo_TTL :: int
  mo_Prot :: bool

definition MintWith ::
  "'x lib_scheme \<Rightarrow> int \<Rightarrow> string option \<Rightarrow> string \<Rightarrow> mintOpts \<Rightarrow> tok_err + string" where
  "MintWith L now rnd key opts =
     (if key = [] then Inl ErrEmptyKey
      else case randomID rnd of
        None \<Rightarrow> Inl ErrRandom
      | Some tid \<Rightarrow>
          let c = \<lparr>c_Sub = mo_Sub opts, c_Exp = (if 0 < mo_TTL opts then unix (now + mo_TTL opts) else 0),
                   c_ID = tid, c_Prot = mo_Prot opts\<rparr>
          in (case l_marshal L c of
                None \<Rightarrow> Inl ErrMarshal
              | Some payload \<Rightarrow>
                  Inr (Prefix @ b64 payload @ ''.'' @ b64 (hmacSum L key payload))))"

definition Mint :: "'x lib_scheme \<Rightarrow> int \<Rightarrow> string option \<Rightarrow> string \<Rightarrow> string \<Rightarrow> int \<Rightarrow> tok_err + string" where
  "Mint L now rnd key sub ttl = MintWith L now rnd key \<lparr>mo_Sub = sub, mo_TTL = ttl, mo_Prot = False\<rparr>"

definition Parse :: "'x lib_scheme \<Rightarrow> int \<Rightarrow> string \<Rightarrow> string \<Rightarrow> tok_err + claims" where
  "Parse L now key tok =
     (if key = [] then Inl ErrEmptyKey
      else if \<not> HasPrefix tok Prefix then Inl ErrMalformed
      else let body = drop (length Prefix) tok
      in case IndexByte body CHR ''.'' of
        None \<Rightarrow> Inl ErrMalformed
      | Some dot \<Rightarrow>
          (case b64d (take dot body) of
             None \<Rightarrow> Inl ErrMalformed
           | Some payload \<Rightarrow>
               (case b64d (drop (Suc dot) body) of
                  None \<Rightarrow> Inl ErrMalformed
                | Some sig \<Rightarrow>
                    if sig \<noteq> hmacSum L key payload then Inl ErrBadSig
                    else (case l_unmarshal L payload of
                            None \<Rightarrow> Inl ErrMalformed
                          | Some c \<Rightarrow>
                              if c_ID c = [] then Inl ErrMalformed
                              else if c_Exp c \<noteq> 0 \<and> c_Exp c < unix now then Inl ErrExpired
                              else Inr c))))"

definition IDOf :: "'x lib_scheme \<Rightarrow> string \<Rightarrow> string" where
  "IDOf L tok =
     (if \<not> HasPrefix tok Prefix then []
      else let body = drop (length Prefix) tok
      in case IndexByte body CHR ''.'' of
        None \<Rightarrow> []
      | Some dot \<Rightarrow>
          (case b64d (take dot body) of
             None \<Rightarrow> []
           | Some payload \<Rightarrow> (case l_unmarshal L payload of None \<Rightarrow> [] | Some c \<Rightarrow> c_ID c)))"

section \<open>Signed tokens\<close>

definition signed_token :: "'x lib_scheme \<Rightarrow> string \<Rightarrow> string \<Rightarrow> string" where
  "signed_token L key payload = Prefix @ b64 payload @ ''.'' @ b64 (hmacSum L key payload)"

lemma IndexByte_body: "IndexByte (b64 p @ CHR ''.'' # r) CHR ''.'' = Some (length (b64 p))"
  by (rule IndexByte_append) (simp add: b64_def EncodeToString_no)

lemma Parse_signed:
  assumes "key \<noteq> []"
  shows "Parse L now key (signed_token L key payload) =
     (case l_unmarshal L payload of
        None \<Rightarrow> Inl ErrMalformed
      | Some c \<Rightarrow>
          if c_ID c = [] then Inl ErrMalformed
          else if c_Exp c \<noteq> 0 \<and> c_Exp c < unix now then Inl ErrExpired
          else Inr c)"
  using assms IndexByte_body [of payload]
  by (simp add: Parse_def signed_token_def Let_def b64d_def b64_def)

lemma Parse_Inr:
  "Parse L now key tok = Inr c \<longleftrightarrow>
     key \<noteq> [] \<and>
     (\<exists>p s payload. tok = Prefix @ p @ ''.'' @ s \<and> CHR ''.'' \<notin> set p \<and> b64d p = Some payload \<and>
        b64d s = Some (hmacSum L key payload) \<and> l_unmarshal L payload = Some c) \<and>
     c_ID c \<noteq> [] \<and> (c_Exp c = 0 \<or> unix now \<le> c_Exp c)"
  (is "?L \<longleftrightarrow> ?R")
proof
  assume l: ?L
  then obtain body dot where tok: "tok = Prefix @ body" and dot: "IndexByte body CHR ''.'' = Some dot"
    by (auto simp: Parse_def HasPrefix_iff Let_def split: if_splits option.splits)
  let ?p = "take dot body" and ?s = "drop (Suc dot) body"
  have "body = ?p @ ''.'' @ ?s" "CHR ''.'' \<notin> set ?p"
    using IndexByte_split [OF dot] IndexByte_Some [OF dot] by simp_all
  with l tok dot show ?R
    by (auto simp: Parse_def Let_def split: if_splits option.splits)
next
  assume ?R
  then obtain p s payload where "key \<noteq> []" "tok = Prefix @ p @ ''.'' @ s" "CHR ''.'' \<notin> set p"
    "b64d p = Some payload" "b64d s = Some (hmacSum L key payload)" "l_unmarshal L payload = Some c"
    "c_ID c \<noteq> []" "c_Exp c = 0 \<or> unix now \<le> c_Exp c"
    by blast
  then show ?L
    using IndexByte_append [of "CHR ''.''" p s] by (auto simp: Parse_def Let_def)
qed

lemma Parse_time: "Parse L t key tok = Inr c \<Longrightarrow> Parse L t' key tok = Inr c' \<Longrightarrow> c' = c"
  by (auto simp: Parse_def Let_def split: if_splits option.splits)

lemma MintWith_Inr:
  assumes "MintWith L now rnd key opts = Inr tok"
  obtains b payload where "rnd = Some b" and "key \<noteq> []" and "tok = signed_token L key payload"
    and "l_marshal L \<lparr>c_Sub = mo_Sub opts,
           c_Exp = (if 0 < mo_TTL opts then unix (now + mo_TTL opts) else 0),
           c_ID = ''tok_'' @ hexEncode b, c_Prot = mo_Prot opts\<rparr> = Some payload"
  using assms
  by (auto simp: MintWith_def randomID_def signed_token_def Let_def split: if_splits option.splits)

section \<open>Properties\<close>

text \<open>
  What \<^verbatim>\<open>encoding/json\<close> promises for the claims: whatever it wrote for plain (ASCII) strings and a 64-bit expiry, it
  reads back.
\<close>

definition claims_plain :: "claims \<Rightarrow> bool" where
  "claims_plain c \<longleftrightarrow> list_all isAscii (c_Sub c) \<and> list_all isAscii (c_ID c) \<and> 0 \<le> c_Exp c \<and> c_Exp c < 2 ^ 63"

definition json_claims :: "'x lib_scheme \<Rightarrow> bool" where
  "json_claims L \<longleftrightarrow>
     (\<forall>c p. claims_plain c \<and> l_marshal L c = Some p \<longrightarrow> l_unmarshal L p = Some c)"

lemma hexEncode_ascii: "list_all isAscii (hexEncode b)"
proof -
  have "isAscii (hex_digit n)" if "n < 16" for n
    using that by (simp add: hex_digit_def isAscii_def)
  then show ?thesis
    using of_char_256 by (auto simp: hexEncode_def list_all_iff less_mult_imp_div_less)
qed

lemma minted_token:
  assumes mint: "MintWith L now rnd key opts = Inr tok" and json: "json_claims L"
    and sub: "list_all isAscii (mo_Sub opts)"
    and range: "0 \<le> now" "now + mo_TTL opts < 2 ^ 63"
  shows "\<exists>c. c_Sub c = mo_Sub opts \<and> c_Prot c = mo_Prot opts \<and>
     c_Exp c = (if 0 < mo_TTL opts then unix (now + mo_TTL opts) else 0) \<and>
     HasPrefix (c_ID c) ''tok_'' \<and> IDOf L tok = c_ID c \<and>
     Parse L t key tok = (if c_Exp c \<noteq> 0 \<and> c_Exp c < unix t then Inl ErrExpired else Inr c)"
proof -
  from mint obtain b payload where tok: "tok = signed_token L key payload" and key: "key \<noteq> []"
    and m: "l_marshal L \<lparr>c_Sub = mo_Sub opts,
           c_Exp = (if 0 < mo_TTL opts then unix (now + mo_TTL opts) else 0),
           c_ID = ''tok_'' @ hexEncode b, c_Prot = mo_Prot opts\<rparr> = Some payload" (is "l_marshal L ?c = _")
    by (rule MintWith_Inr)
  have "list_all isAscii (''tok_'' @ hexEncode b)"
    using hexEncode_ascii by (simp add: isAscii_def)
  moreover have "0 \<le> c_Exp ?c \<and> c_Exp ?c < 2 ^ 63"
    using range by (auto simp: unix_def)
  ultimately have "claims_plain ?c"
    using sub by (simp add: claims_plain_def)
  with m json have u: "l_unmarshal L payload = Some ?c"
    unfolding json_claims_def by blast
  have "IDOf L tok = c_ID ?c"
    using IndexByte_body [of payload] u by (simp add: tok IDOf_def signed_token_def Let_def b64d_def b64_def)
  moreover have "HasPrefix (c_ID ?c) ''tok_''"
    unfolding HasPrefix_iff by simp
  moreover have "Parse L t key tok = (if c_Exp ?c \<noteq> 0 \<and> c_Exp ?c < unix t then Inl ErrExpired else Inr ?c)"
    by (simp add: tok Parse_signed [OF key] u)
  ultimately show ?thesis
    by (intro exI [of _ ?c]) simp
qed

text \<open>
  Property C36. Minting and parsing are inverse: a freshly minted token is accepted with the same key and gives
  back exactly the subdomain, protection, expiry and id it was minted with, until its expiry has passed, and is
  reported as expired from then on; \<^verbatim>\<open>IDOf\<close> finds its id without the key.
\<close>

theorem token_roundtrip:
  assumes mint: "MintWith L now rnd key opts = Inr tok" and json: "json_claims L"
    and sub: "list_all isAscii (mo_Sub opts)"
    and range: "0 \<le> now" "now + mo_TTL opts < 2 ^ 63"
  shows "\<exists>c. c_Sub c = mo_Sub opts \<and> c_Prot c = mo_Prot opts \<and>
     c_Exp c = (if 0 < mo_TTL opts then unix (now + mo_TTL opts) else 0) \<and>
     HasPrefix (c_ID c) ''tok_'' \<and> IDOf L tok = c_ID c \<and>
     Parse L t key tok = (if c_Exp c \<noteq> 0 \<and> c_Exp c < unix t then Inl ErrExpired else Inr c)"
  using assms by (rule minted_token)

text \<open>A library to try things on: the claims as a fixed text, a MAC that is not one.\<close>

definition demo_claims :: claims where
  "demo_claims = \<lparr>c_Sub = ''hop'', c_Exp = 60, c_ID = ''tok_41'', c_Prot = True\<rparr>"

definition demo_lib :: lib where
  "demo_lib = \<lparr>l_lower = (\<lambda>s. s), l_hmac = (\<lambda>k p. k @ p),
     l_marshal = (\<lambda>c. if c = demo_claims then Some ''{hop}'' else None),
     l_unmarshal = (\<lambda>p. if p = ''{hop}'' then Some demo_claims else None)\<rparr>"

lemma demo_lib_json: "json_claims demo_lib"
  by (simp add: json_claims_def demo_lib_def)

theorem token_roundtrip_witness:
  "\<exists>tok c. MintWith demo_lib 0 (Some [CHR ''A'']) ''k'' \<lparr>mo_Sub = ''hop'', mo_TTL = 60 * 10 ^ 9, mo_Prot = True\<rparr> = Inr tok \<and>
     c_Sub c = ''hop'' \<and> Parse demo_lib 0 ''k'' tok = Inr c"
proof -
  let ?o = "\<lparr>mo_Sub = ''hop'', mo_TTL = 60 * 10 ^ 9, mo_Prot = True\<rparr>"
  have "\<exists>tok. MintWith demo_lib 0 (Some [CHR ''A'']) ''k'' ?o = Inr tok"
    by (simp add: MintWith_def randomID_def hexEncode_def hex_digit_def demo_lib_def demo_claims_def unix_def char_of_def bit_0)
  then obtain tok where m: "MintWith demo_lib 0 (Some [CHR ''A'']) ''k'' ?o = Inr tok" by blast
  have "list_all isAscii (mo_Sub ?o)" by (simp add: isAscii_def)
  from token_roundtrip [OF m demo_lib_json this, of 0] show ?thesis
    using m by (auto simp: unix_def)
qed

text \<open>
  Exactly which tokens are accepted: the prefix, a payload and a signature in base64 separated by
  the first dot, the signature being the MAC of the payload under the server's key, the payload decoding to claims
  with an id that have not expired. Nothing else passes, and in particular no token passes without a key.
\<close>

theorem token_accepted_iff:
  "Parse L now key tok = Inr c \<longleftrightarrow>
     key \<noteq> [] \<and>
     (\<exists>p s payload. tok = ''m1.'' @ p @ ''.'' @ s \<and> CHR ''.'' \<notin> set p \<and> DecodeString p = Some payload \<and>
        DecodeString s = Some (l_hmac L key payload) \<and> l_unmarshal L payload = Some c) \<and>
     c_ID c \<noteq> [] \<and> (c_Exp c = 0 \<or> now div 10 ^ 9 \<le> c_Exp c)"
  unfolding Parse_Inr by (simp add: Prefix_def b64d_def hmacSum_def unix_def)

end
