(* ===== verification/Auth.thy ===== *)
theory Auth
  imports Token
begin

text \<open>
  The authenticator, \<^verbatim>\<open>internal/server/auth.go\<close>: how it is built from its options and files, which tokens it
  accepts, which subdomain a token may claim, and reserved names. A Go map used as a set is a set; the maps that
  are iterated or counted are association lists. A file is what reading it gives: its content and the error that
  ended it, if any, or nothing when it cannot be opened.
\<close>

section \<open>State and errors\<close>

datatype auth_err =
    ErrNoToken | ErrTok tok_err | ErrRevoked | ErrInvalidToken | ErrOnlyAllows string
  | ErrInvalidSub string | ErrReservedName string | ErrTLSRequired string
  | ErrOpen string | ErrRead err | ErrTooLong | ErrAuthJSON | ErrAuthSub string
  | ErrLineName nat string | ErrLineNoIDs nat string | ErrLineToken nat | ErrLineNotID nat string
  | ErrNeedKey | ErrStaticReserved string | ErrSignedOff | ErrIndexPanic

record authenticator =
  au_tokens :: "string list"
  au_reserved :: "(string \<times> string) list"
  au_reservedNames :: "(string \<times> string list) list"
  au_signing :: string
  au_revoked :: "string list"
  au_open :: bool

record authOptions =
  ao_Tokens :: string
  ao_AuthFile :: string
  ao_SigningKey :: string
  ao_RevokedFile :: string
  ao_ReservedFile :: string
  ao_Reserved :: string

type_synonym files = "string \<Rightarrow> (string \<times> err option) option"

section \<open>Reading the files\<close>

definition addKey :: "string \<Rightarrow> string list \<Rightarrow> string list" where
  "addKey k ks = (if k \<in> set ks then ks else ks @ [k])"

definition isComment :: "string \<Rightarrow> bool" where
  "isComment line \<longleftrightarrow> line = [] \<or> HasPrefix line ''#''"

definition scanErr :: "bool \<Rightarrow> err option \<Rightarrow> auth_err option" where
  "scanErr tooLong e = (if tooLong then Some ErrTooLong else map_option ErrRead e)"

definition loadRevokedIDs :: "files \<Rightarrow> string \<Rightarrow> auth_err + string list" where
  "loadRevokedIDs fs path =
     (case fs path of
        None \<Rightarrow> Inl (ErrOpen path)
      | Some (content, e) \<Rightarrow>
          (case scanLines content of (ls, tooLong) \<Rightarrow>
             (case scanErr tooLong e of
                Some er \<Rightarrow> Inl er
              | None \<Rightarrow>
                  Inr (fold (\<lambda>l ids. let line = TrimSpace l
                               in if isComment line then ids else addKey line ids) ls []))))"

definition fieldSeps :: "string list" where
  "fieldSeps = [CHR '',''] # [CHR ''=''] # spaceRunes"

primrec addIDs :: "nat \<Rightarrow> string list \<Rightarrow> string list \<Rightarrow> auth_err + string list" where
  "addIDs n [] ids = Inr ids"
| "addIDs n (x # xs) ids =
     (if HasPrefix x Prefix then Inl (ErrLineToken n)
      else if \<not> HasPrefix x ''tok_'' then Inl (ErrLineNotID n x)
      else addIDs n xs (addKey x ids))"

text \<open>
  One entry of a reserved-names file. The source indexes the first field without asking whether there is one:
  a line of separators only is the run-time panic \<open>ErrIndexPanic\<close>.
\<close>

definition reservedEntry ::
  "'x lib_scheme \<Rightarrow> nat \<Rightarrow> string \<Rightarrow> (string \<times> string list) list \<Rightarrow> auth_err + (string \<times> string list) list" where
  "reservedEntry L n line m =
     (case FieldsFunc fieldSeps line of
        [] \<Rightarrow> Inl ErrIndexPanic
      | f # ids \<Rightarrow>
          let name = NormalizeSubdomain (l_lower L) f
          in if \<not> ValidSubdomain name then Inl (ErrLineName n f)
             else if ids = [] then Inl (ErrLineNoIDs n name)
             else (case addIDs n ids (case map_of m name of None \<Rightarrow> [] | Some old \<Rightarrow> old) of
                     Inl e \<Rightarrow> Inl e
                   | Inr new \<Rightarrow> Inr (AList.update name new m)))"

primrec reservedLines ::
  "'x lib_scheme \<Rightarrow> nat \<Rightarrow> string list \<Rightarrow> (string \<times> string list) list \<Rightarrow> auth_err + (string \<times> string list) list" where
  "reservedLines L n [] m = Inr m"
| "reservedLines L n (l # ls) m =
     (let line = TrimSpace l
      in if isComment line then reservedLines L (Suc n) ls m
         else case reservedEntry L n line m of
                Inl e \<Rightarrow> Inl e
              | Inr m1 \<Rightarrow> reservedLines L (Suc n) ls m1)"

definition parseReserved ::
  "'x lib_scheme \<Rightarrow> string \<times> err option \<Rightarrow> (string \<times> string list) list \<Rightarrow> auth_err + (string \<times> string list) list" where
  "parseReserved L r m =
     (case scanLines (fst r) of (ls, tooLong) \<Rightarrow>
        (case reservedLines L 1 ls m of
           Inl e \<Rightarrow> Inl e
         | Inr m1 \<Rightarrow> (case scanErr tooLong (snd r) of Some er \<Rightarrow> Inl er | None \<Rightarrow> Inr m1)))"

section \<open>Building an authenticator\<close>

definition staticTokens :: "string \<Rightarrow> string list" where
  "staticTokens csv =
     (if csv = [] then []
      else fold (\<lambda>t ks. let u = TrimSpace t in if u = [] then ks else addKey u ks) (Split csv CHR '','') [])"

text \<open>The entries of the auth file; \<open>json\<close> is what decoding it gives, in the order the map is iterated.\<close>

primrec authEntries ::
  "'x lib_scheme \<Rightarrow> (string \<times> string) list \<Rightarrow> authenticator \<Rightarrow> auth_err + authenticator" where
  "authEntries L [] a = Inr a"
| "authEntries L (p # ps) a =
     (let sub = NormalizeSubdomain (l_lower L) (snd p)
      in if \<not> ValidSubdomain sub then Inl (ErrAuthSub sub)
         else authEntries L ps (a\<lparr>au_tokens := addKey (fst p) (au_tokens a),
                au_reserved := AList.update (fst p) sub (au_reserved a)\<rparr>))"

definition withAuthFile ::
  "'x lib_scheme \<Rightarrow> files \<Rightarrow> (string \<Rightarrow> (string \<times> string) list option) \<Rightarrow> string \<Rightarrow> authenticator \<Rightarrow>
     auth_err + authenticator" where
  "withAuthFile L fs json path a =
     (if path = [] then Inr a
      else case fs path of
        None \<Rightarrow> Inl (ErrOpen path)
      | Some (content, Some e) \<Rightarrow> Inl (ErrRead e)
      | Some (content, None) \<Rightarrow>
          (case json content of None \<Rightarrow> Inl ErrAuthJSON | Some m \<Rightarrow> authEntries L m a))"

definition withRevoked :: "files \<Rightarrow> string \<Rightarrow> authenticator \<Rightarrow> auth_err + authenticator" where
  "withRevoked fs path a =
     (if path = [] then Inr a
      else case loadRevokedIDs fs path of Inl e \<Rightarrow> Inl e | Inr ids \<Rightarrow> Inr (a\<lparr>au_revoked := ids\<rparr>))"

definition withReservedFile ::
  "'x lib_scheme \<Rightarrow> files \<Rightarrow> string \<Rightarrow> authenticator \<Rightarrow> auth_err + authenticator" where
  "withReservedFile L fs path a =
     (if path = [] then Inr a
      else case fs path of
        None \<Rightarrow> Inl (ErrOpen path)
      | Some r \<Rightarrow>
          (case parseReserved L r (au_reservedNames a) of
             Inl e \<Rightarrow> Inl e
           | Inr m \<Rightarrow> Inr (a\<lparr>au_reservedNames := m\<rparr>)))"

definition withReserved :: "'x lib_scheme \<Rightarrow> string \<Rightarrow> authenticator \<Rightarrow> auth_err + authenticator" where
  "withReserved L entries a =
     (if entries = [] then Inr a
      else case parseReserved L (ReplaceByte CHR '';'' newline entries, None) (au_reservedNames a) of
             Inl e \<Rightarrow> Inl e
           | Inr m \<Rightarrow> Inr (a\<lparr>au_reservedNames := m\<rparr>))"

definition checkHolders :: "authenticator \<Rightarrow> auth_err + authenticator" where
  "checkHolders a =
     (if au_reservedNames a = [] then Inr a
      else if au_signing a = [] then Inl ErrNeedKey
      else case find (\<lambda>p. map_of (au_reservedNames a) (snd p) \<noteq> None) (au_reserved a) of
             Some p \<Rightarrow> Inl (ErrStaticReserved (snd p))
           | None \<Rightarrow> Inr a)"

definition setOpen :: "authenticator \<Rightarrow> authenticator" where
  "setOpen a = a\<lparr>au_open := (au_tokens a = [] \<and> au_signing a = [])\<rparr>"

definition bindE :: "'e + 'a \<Rightarrow> ('a \<Rightarrow> 'e + 'b) \<Rightarrow> 'e + 'b" where
  "bindE r f = (case r of Inl e \<Rightarrow> Inl e | Inr x \<Rightarrow> f x)"

definition NewAuthenticatorWith ::
  "'x lib_scheme \<Rightarrow> files \<Rightarrow> (string \<Rightarrow> (string \<times> string) list option) \<Rightarrow> authOptions \<Rightarrow>
     auth_err + authenticator" where
  "NewAuthenticatorWith L fs json opts =
     bindE (withAuthFile L fs json (ao_AuthFile opts)
        \<lparr>au_tokens = staticTokens (ao_Tokens opts), au_reserved = [], au_reservedNames = [],
         au_signing = ao_SigningKey opts, au_revoked = [], au_open = False\<rparr>) (\<lambda>a1.
     bindE (withRevoked fs (ao_RevokedFile opts) a1) (\<lambda>a2.
     bindE (withReservedFile L fs (ao_ReservedFile opts) a2) (\<lambda>a3.
     bindE (withReserved L (ao_Reserved opts) a3) (\<lambda>a4.
     bindE (checkHolders a4) (\<lambda>a5. Inr (setOpen a5))))))"

definition NewAuthenticator ::
  "'x lib_scheme \<Rightarrow> files \<Rightarrow> (string \<Rightarrow> (string \<times> string) list option) \<Rightarrow> string \<Rightarrow> string \<Rightarrow>
     auth_err + authenticator" where
  "NewAuthenticator L fs json tokensCSV authFile =
     NewAuthenticatorWith L fs json \<lparr>ao_Tokens = tokensCSV, ao_AuthFile = authFile, ao_SigningKey = [],
       ao_RevokedFile = [], ao_ReservedFile = [], ao_Reserved = []\<rparr>"

section \<open>Checks\<close>

definition Open :: "authenticator \<Rightarrow> bool" where "Open a = au_open a"
definition SignedEnabled :: "authenticator \<Rightarrow> bool" where "SignedEnabled a = (au_signing a \<noteq> [])"
definition StaticTokenCount :: "authenticator \<Rightarrow> nat" where "StaticTokenCount a = length (au_tokens a)"

definition isSigned :: "authenticator \<Rightarrow> string \<Rightarrow> bool" where
  "isSigned a tok \<longleftrightarrow> au_signing a \<noteq> [] \<and> HasPrefix tok Prefix"

definition Check :: "'x lib_scheme \<Rightarrow> int \<Rightarrow> authenticator \<Rightarrow> string \<Rightarrow> auth_err option" where
  "Check L now a tok =
     (if au_open a then None
      else if tok = [] then Some ErrNoToken
      else if isSigned a tok then
        (case Parse L now (au_signing a) tok of
           Inl e \<Rightarrow> Some (ErrTok e)
         | Inr c \<Rightarrow> if c_ID c \<in> set (au_revoked a) then Some ErrRevoked else None)
      else if tok \<notin> set (au_tokens a) then Some ErrInvalidToken
      else None)"

definition ReservedSubdomain :: "'x lib_scheme \<Rightarrow> int \<Rightarrow> authenticator \<Rightarrow> string \<Rightarrow> string" where
  "ReservedSubdomain L now a tok =
     (if isSigned a tok then
        (case Parse L now (au_signing a) tok of Inr c \<Rightarrow> c_Sub c | Inl e \<Rightarrow> [])
      else case map_of (au_reserved a) tok of None \<Rightarrow> [] | Some s \<Rightarrow> s)"

definition ProtectedByToken :: "'x lib_scheme \<Rightarrow> int \<Rightarrow> authenticator \<Rightarrow> string \<Rightarrow> bool" where
  "ProtectedByToken L now a tok =
     (if isSigned a tok then
        (case Parse L now (au_signing a) tok of Inr c \<Rightarrow> c_Prot c | Inl e \<Rightarrow> False)
      else False)"

definition TokenID :: "'x lib_scheme \<Rightarrow> int \<Rightarrow> authenticator \<Rightarrow> string \<Rightarrow> string" where
  "TokenID L now a tok =
     (if \<not> isSigned a tok then []
      else case Parse L now (au_signing a) tok of
             Inl e \<Rightarrow> []
           | Inr c \<Rightarrow> if c_ID c \<in> set (au_revoked a) then [] else c_ID c)"

definition IsReserved :: "authenticator \<Rightarrow> string \<Rightarrow> bool" where
  "IsReserved a name \<longleftrightarrow> map_of (au_reservedNames a) name \<noteq> None"

definition CheckReserved ::
  "'x lib_scheme \<Rightarrow> int \<Rightarrow> authenticator \<Rightarrow> string \<Rightarrow> string \<Rightarrow> bool \<Rightarrow> auth_err option" where
  "CheckReserved L now a tok name overTLS =
     (case map_of (au_reservedNames a) name of
        None \<Rightarrow> None
      | Some ids \<Rightarrow>
          let tid = TokenID L now a tok
          in if tid = [] \<or> tid \<notin> set ids then Some (ErrReservedName name)
             else if \<not> overTLS then Some (ErrTLSRequired name)
             else None)"

definition auth_Mint ::
  "'x lib_scheme \<Rightarrow> int \<Rightarrow> string option \<Rightarrow> authenticator \<Rightarrow> mintOpts \<Rightarrow> auth_err + string" where
  "auth_Mint L now rnd a opts =
     (if au_signing a = [] then Inl ErrSignedOff
      else case MintWith L now rnd (au_signing a) opts of Inl e \<Rightarrow> Inl (ErrTok e) | Inr t \<Rightarrow> Inr t)"

definition CheckSubdomain ::
  "'x lib_scheme \<Rightarrow> int \<Rightarrow> authenticator \<Rightarrow> string \<Rightarrow> string \<Rightarrow> auth_err option" where
  "CheckSubdomain L now a tok requested =
     (if isSigned a tok then
        (case Parse L now (au_signing a) tok of
           Inl e \<Rightarrow> Some (ErrTok e)
         | Inr c \<Rightarrow>
             if c_Sub c \<noteq> [] then (if requested \<noteq> c_Sub c then Some (ErrOnlyAllows (c_Sub c)) else None)
             else if requested \<noteq> [] \<and> \<not> ValidSubdomain requested then Some (ErrInvalidSub requested)
             else None)
      else case map_of (au_reserved a) tok of
        Some r \<Rightarrow>
          if requested = [] then None
          else if requested \<noteq> r then Some (ErrOnlyAllows r)
          else None
      | None \<Rightarrow>
          if requested \<noteq> [] \<and> \<not> ValidSubdomain requested then Some (ErrInvalidSub requested)
          else None)"

section \<open>What a built authenticator satisfies\<close>

definition entry_ok :: "string \<times> string list \<Rightarrow> bool" where
  "entry_ok p \<longleftrightarrow> ValidSubdomain (fst p) \<and> snd p \<noteq> [] \<and> list_all (\<lambda>i. HasPrefix i ''tok_'') (snd p)"

definition names_ok :: "(string \<times> string list) list \<Rightarrow> bool" where
  "names_ok m \<longleftrightarrow> distinct (map fst m) \<and> list_all entry_ok m"

definition static_ok :: "authenticator \<Rightarrow> bool" where
  "static_ok a \<longleftrightarrow> list_all (\<lambda>(tok, sub). tok \<in> set (au_tokens a) \<and> ValidSubdomain sub) (au_reserved a)"

lemma set_addKey [simp]: "set (addKey k ks) = insert k (set ks)"
  by (auto simp: addKey_def)

lemma addKey_nonempty [simp]: "addKey k ks \<noteq> []"
  by (auto simp: addKey_def)

lemma addIDs_Inr:
  "addIDs n xs ids = Inr new \<Longrightarrow>
   set new = set ids \<union> set xs \<and> (xs \<noteq> [] \<longrightarrow> new \<noteq> []) \<and> list_all (\<lambda>i. HasPrefix i ''tok_'') xs"
proof (induction xs arbitrary: ids)
  case (Cons x xs)
  then have r: "addIDs n xs (addKey x ids) = Inr new" "HasPrefix x ''tok_''"
    by (auto split: if_splits)
  from Cons.IH [OF r(1)] r(2) show ?case by auto
qed simp

lemma reservedEntry_ok:
  assumes "names_ok m" and "reservedEntry L n line m = Inr m'"
  shows "names_ok m' \<and> m' \<noteq> []"
proof -
  from assms(2) obtain f ids new name where
    name: "name = NormalizeSubdomain (l_lower L) f" "ValidSubdomain name" "ids \<noteq> []"
    and new: "addIDs n ids (case map_of m name of None \<Rightarrow> [] | Some old \<Rightarrow> old) = Inr new"
    and m': "m' = AList.update name new m"
    by (auto simp: reservedEntry_def Let_def split: list.splits if_splits sum.splits)
  have "list_all (\<lambda>i. HasPrefix i ''tok_'') (case map_of m name of None \<Rightarrow> [] | Some old \<Rightarrow> old)"
    using assms(1) map_of_SomeD [of m name]
    by (fastforce simp: names_ok_def entry_ok_def list_all_iff split: option.splits)
  then have "entry_ok (name, new)"
    using addIDs_Inr [OF new] name by (auto simp: entry_ok_def list_all_iff)
  with assms(1) have "names_ok m'"
    by (auto simp: names_ok_def m' list_all_iff distinct_keys_update dest: set_AList_update)
  moreover have "m' \<noteq> []" using m' by (cases m) auto
  ultimately show ?thesis by simp
qed

lemma reservedLines_ok:
  "reservedLines L n ls m = Inr m' \<Longrightarrow> names_ok m \<Longrightarrow> names_ok m'"
  by (induction ls arbitrary: n m)
     (auto simp: Let_def dest: reservedEntry_ok split: if_splits sum.splits)

lemma parseReserved_ok: "parseReserved L r m = Inr m' \<Longrightarrow> names_ok m \<Longrightarrow> names_ok m'"
  by (auto simp: parseReserved_def dest: reservedLines_ok split: prod.splits sum.splits option.splits)

lemma authEntries_ok:
  "authEntries L ps a = Inr a' \<Longrightarrow> static_ok a \<Longrightarrow>
   static_ok a' \<and> au_signing a' = au_signing a \<and> au_reservedNames a' = au_reservedNames a"
proof (induction ps arbitrary: a)
  case (Cons p ps)
  let ?sub = "NormalizeSubdomain (l_lower L) (snd p)"
  let ?a = "a\<lparr>au_tokens := addKey (fst p) (au_tokens a), au_reserved := AList.update (fst p) ?sub (au_reserved a)\<rparr>"
  have r: "ValidSubdomain ?sub" "authEntries L ps ?a = Inr a'"
    using Cons.prems(1) by (auto simp: Let_def split: if_splits)
  have "static_ok ?a"
    using Cons.prems(2) r(1)
    by (auto simp: static_ok_def list_all_iff dest!: set_AList_update)
  from Cons.IH [OF r(2) this] show ?case by simp
qed simp

lemma bindE_Inr: "bindE r f = Inr y \<longleftrightarrow> (\<exists>x. r = Inr x \<and> f x = Inr y)"
  by (cases r) (auto simp: bindE_def)

lemma build_steps:
  "withAuthFile L fs json p a = Inr a' \<Longrightarrow> static_ok a \<Longrightarrow>
     static_ok a' \<and> au_signing a' = au_signing a \<and> au_reservedNames a' = au_reservedNames a"
  "withRevoked fs p a = Inr a' \<Longrightarrow> \<exists>ids. a' = a\<lparr>au_revoked := ids\<rparr>"
  "withReservedFile L fs p a = Inr a' \<Longrightarrow> names_ok (au_reservedNames a) \<Longrightarrow>
     \<exists>m. a' = a\<lparr>au_reservedNames := m\<rparr> \<and> names_ok m"
  "withReserved L es a = Inr a' \<Longrightarrow> names_ok (au_reservedNames a) \<Longrightarrow>
     \<exists>m. a' = a\<lparr>au_reservedNames := m\<rparr> \<and> names_ok m"
proof -
  show "withAuthFile L fs json p a = Inr a' \<Longrightarrow> static_ok a \<Longrightarrow>
     static_ok a' \<and> au_signing a' = au_signing a \<and> au_reservedNames a' = au_reservedNames a"
    by (auto simp: withAuthFile_def dest: authEntries_ok split: if_splits option.splits)
  show "withRevoked fs p a = Inr a' \<Longrightarrow> \<exists>ids. a' = a\<lparr>au_revoked := ids\<rparr>"
    by (cases a) (auto simp: withRevoked_def split: if_splits sum.splits)
  show "withReservedFile L fs p a = Inr a' \<Longrightarrow> names_ok (au_reservedNames a) \<Longrightarrow>
     \<exists>m. a' = a\<lparr>au_reservedNames := m\<rparr> \<and> names_ok m"
    by (cases a) (auto simp: withReservedFile_def dest: parseReserved_ok split: if_splits option.splits sum.splits)
  show "withReserved L es a = Inr a' \<Longrightarrow> names_ok (au_reservedNames a) \<Longrightarrow>
     \<exists>m. a' = a\<lparr>au_reservedNames := m\<rparr> \<and> names_ok m"
    by (cases a) (auto simp: withReserved_def dest: parseReserved_ok split: if_splits sum.splits)
qed

lemma checkHolders_Inr:
  "checkHolders a = Inr a' \<Longrightarrow> a' = a \<and> (au_reservedNames a \<noteq> [] \<longrightarrow> au_signing a \<noteq> [] \<and>
     (\<forall>p \<in> set (au_reserved a). map_of (au_reservedNames a) (snd p) = None))"
  by (auto simp: checkHolders_def find_None_iff split: if_splits option.splits)

text \<open>When a reserved name passes.\<close>

lemma CheckReserved_None:
  "CheckReserved L now a tok name overTLS = None \<longleftrightarrow>
     (case map_of (au_reservedNames a) name of
        None \<Rightarrow> True
      | Some ids \<Rightarrow> overTLS \<and> au_signing a \<noteq> [] \<and>
          (\<exists>c. Parse L now (au_signing a) tok = Inr c \<and> c_ID c \<notin> set (au_revoked a) \<and> c_ID c \<in> set ids))"
proof (cases "map_of (au_reservedNames a) name")
  case (Some ids)
  show ?thesis
  proof (cases "Parse L now (au_signing a) tok")
    case (Inr c)
    then have "isSigned a tok" "c_ID c \<noteq> []" "au_signing a \<noteq> []"
      by (auto simp: isSigned_def Parse_Inr HasPrefix_iff)
    with Some Inr show ?thesis by (auto simp: CheckReserved_def TokenID_def Let_def)
  qed (simp add: Some CheckReserved_def TokenID_def)
qed (simp add: CheckReserved_def)

section \<open>Properties\<close>

text \<open>A server with a signing key and one reserved name, \<^verbatim>\<open>hop\<close>, held by the token \<^verbatim>\<open>tok_41\<close>.\<close>

definition demo_opts :: authOptions where
  "demo_opts = \<lparr>ao_Tokens = ''s1,s2'', ao_AuthFile = [], ao_SigningKey = ''k'', ao_RevokedFile = [],
     ao_ReservedFile = [], ao_Reserved = ''hop=tok_41''\<rparr>"

definition demo_auth :: authenticator where
  "demo_auth = \<lparr>au_tokens = [''s1'', ''s2''], au_reserved = [], au_reservedNames = [(''hop'', [''tok_41''])],
     au_signing = ''k'', au_revoked = [], au_open = False\<rparr>"

lemma demo_fields: "FieldsFunc fieldSeps ''hop=tok_41'' = [''hop'', ''tok_41'']"
proof -
  have plain: "list_all (\<lambda>c. list_all (\<lambda>w. hd w \<noteq> c) fieldSeps) ''hop''"
    "list_all (\<lambda>c. list_all (\<lambda>w. hd w \<noteq> c) fieldSeps) ''tok_41''"
    by (simp_all add: fieldSeps_def graphic_not_space graphic_def)
  have "runeLen fieldSeps (CHR ''='' # s) = 1" for s
    by (simp add: runeLen_def fieldSeps_def HasPrefix_def)
  then have "fieldsFrom fieldSeps ''hop'' (CHR ''='' # ''tok_41'') = ''hop'' # fieldsFrom fieldSeps [] ''tok_41''"
    by (simp add: fieldsFrom.simps [of fieldSeps "''hop''"])
  then show ?thesis
    using fieldsFrom_word [OF plain(1), of "[]" "CHR ''='' # ''tok_41''"] fieldsFrom_word [OF plain(2), of "[]" "[]"]
    by (simp add: FieldsFunc_def)
qed

lemma demo_auth_built: "NewAuthenticatorWith demo_lib (\<lambda>_. None) (\<lambda>_. None) demo_opts = Inr demo_auth"
proof -
  have "TrimSpace ''s1'' = ''s1''" "TrimSpace ''s2'' = ''s2''"
    by (simp_all add: TrimSpace_plain graphic_def)
  then have "staticTokens (ao_Tokens demo_opts) = [''s1'', ''s2'']"
    by (simp add: staticTokens_def demo_opts_def addKey_def)
  moreover have "parseReserved demo_lib (''hop=tok_41'', None) [] = Inr [(''hop'', [''tok_41''])]"
    using demo_fields
    by (simp add: parseReserved_def scanLines_def rawLines_def dropCR_def MaxScanTokenSize_def scanErr_def
        reservedEntry_def isComment_def HasPrefix_def TrimSpace_plain graphic_def NormalizeSubdomain_def
        ToLower_def isAscii_def lowerByte_def ValidSubdomain_def isNameStart_def isNameChar_def Prefix_def addKey_def)
  ultimately show ?thesis
    by (simp add: NewAuthenticatorWith_def bindE_def withAuthFile_def withRevoked_def withReservedFile_def
        withReserved_def checkHolders_def setOpen_def demo_auth_def demo_opts_def ReplaceByte_def)
qed

definition demo_token :: string where
  "demo_token = signed_token demo_lib ''k'' ''{hop}''"

lemma demo_token_parses: "Parse demo_lib 0 ''k'' demo_token = Inr demo_claims"
  by (simp add: demo_token_def Parse_signed) (simp add: demo_lib_def demo_claims_def unix_def)

lemma demo_token_signed: "isSigned demo_auth demo_token"
  by (simp add: isSigned_def demo_auth_def demo_token_def signed_token_def)

lemma NewAuthenticatorWith_Inr:
  assumes "NewAuthenticatorWith L fs json opts = Inr a"
  shows "(Open a \<longleftrightarrow> StaticTokenCount a = 0 \<and> \<not> SignedEnabled a) \<and> au_signing a = ao_SigningKey opts \<and>
     (\<forall>tok sub. (tok, sub) \<in> set (au_reserved a) \<longrightarrow>
        tok \<in> set (au_tokens a) \<and> ValidSubdomain sub \<and> \<not> IsReserved a sub) \<and>
     (\<forall>name ids. map_of (au_reservedNames a) name = Some ids \<longrightarrow>
        SignedEnabled a \<and> ValidSubdomain name \<and> ids \<noteq> [] \<and> (\<forall>i \<in> set ids. HasPrefix i ''tok_''))"
proof -
  let ?a0 = "\<lparr>au_tokens = staticTokens (ao_Tokens opts), au_reserved = [], au_reservedNames = [],
         au_signing = ao_SigningKey opts, au_revoked = [], au_open = False\<rparr>"
  from assms obtain a1 a2 a3 a4 a5 where
    s: "withAuthFile L fs json (ao_AuthFile opts) ?a0 = Inr a1"
      "withRevoked fs (ao_RevokedFile opts) a1 = Inr a2"
      "withReservedFile L fs (ao_ReservedFile opts) a2 = Inr a3"
      "withReserved L (ao_Reserved opts) a3 = Inr a4" "checkHolders a4 = Inr a5" "a = setOpen a5"
    by (auto simp: NewAuthenticatorWith_def bindE_Inr)
  have 1: "static_ok a1" "au_signing a1 = ao_SigningKey opts" "names_ok (au_reservedNames a1)"
    using build_steps(1) [OF s(1)] by (simp_all add: static_ok_def names_ok_def)
  obtain ids where 2: "a2 = a1\<lparr>au_revoked := ids\<rparr>" using build_steps(2) [OF s(2)] by blast
  obtain m3 where 3: "a3 = a2\<lparr>au_reservedNames := m3\<rparr>" "names_ok m3"
    using build_steps(3) [OF s(3)] 1 2 by auto
  obtain m4 where 4: "a4 = a3\<lparr>au_reservedNames := m4\<rparr>" "names_ok m4"
    using build_steps(4) [OF s(4)] 3 by auto
  have a: "a = setOpen a4" and holders: "m4 \<noteq> [] \<longrightarrow> au_signing a4 \<noteq> [] \<and>
      (\<forall>p \<in> set (au_reserved a4). map_of m4 (snd p) = None)"
    using checkHolders_Inr [OF s(5)] s(6) 4(1) by simp_all
  have static: "static_ok a4" using 1(1) 2 3 4 by (simp add: static_ok_def)
  have "entry_ok (name, ids) \<and> m4 \<noteq> []" if "map_of m4 name = Some ids" for name ids
    using 4(2) map_of_SomeD [OF that] by (auto simp: names_ok_def list_all_iff)
  then have names: "\<forall>name ids. map_of (au_reservedNames a) name = Some ids \<longrightarrow>
        SignedEnabled a \<and> ValidSubdomain name \<and> ids \<noteq> [] \<and> (\<forall>i \<in> set ids. HasPrefix i ''tok_'')"
    using holders by (auto simp: a setOpen_def 4(1) SignedEnabled_def entry_ok_def list_all_iff)
  have "\<forall>tok sub. (tok, sub) \<in> set (au_reserved a) \<longrightarrow>
        tok \<in> set (au_tokens a) \<and> ValidSubdomain sub \<and> \<not> IsReserved a sub"
    using static holders by (fastforce simp: a setOpen_def 4(1) static_ok_def list_all_iff IsReserved_def)
  moreover have "Open a \<longleftrightarrow> StaticTokenCount a = 0 \<and> \<not> SignedEnabled a"
    by (simp add: a setOpen_def Open_def StaticTokenCount_def SignedEnabled_def)
  moreover have "au_signing a = ao_SigningKey opts"
    using 1(2) by (simp add: a setOpen_def 2 3(1) 4(1))
  ultimately show ?thesis using names by blast
qed

text \<open>
  Every authenticator the server can be started with is consistent: it is open exactly when it has
  neither a static token nor a signing key; a static token's subdomain is valid and never a reserved name; a reserved
  name is valid, lists at least one token id and only token ids, and exists only with a signing key.
\<close>

theorem auth_well_formed:
  assumes "NewAuthenticatorWith L fs json opts = Inr a"
  shows "(Open a \<longleftrightarrow> StaticTokenCount a = 0 \<and> \<not> SignedEnabled a) \<and> au_signing a = ao_SigningKey opts \<and>
     (\<forall>tok sub. (tok, sub) \<in> set (au_reserved a) \<longrightarrow>
        tok \<in> set (au_tokens a) \<and> ValidSubdomain sub \<and> \<not> IsReserved a sub) \<and>
     (\<forall>name ids. map_of (au_reservedNames a) name = Some ids \<longrightarrow>
        SignedEnabled a \<and> ValidSubdomain name \<and> ids \<noteq> [] \<and> (\<forall>i \<in> set ids. HasPrefix i ''tok_''))"
  using assms by (rule NewAuthenticatorWith_Inr)

theorem auth_well_formed_witness:
  "\<not> Open demo_auth \<and> SignedEnabled demo_auth \<and> ValidSubdomain ''hop'' \<and> HasPrefix ''tok_41'' ''tok_''"
proof -
  have "map_of (au_reservedNames demo_auth) ''hop'' = Some [''tok_41'']" by (simp add: demo_auth_def)
  then show ?thesis
    using auth_well_formed [OF demo_auth_built] by (auto simp: Open_def demo_auth_def [symmetric])
qed

text \<open>
  Which clients are let in: with no authentication configured, everyone; otherwise exactly the holders
  of a listed static token, and of a signed token that verifies now and is not revoked. A string with the
  signed-token prefix never counts as a static token once a signing key is set.
\<close>

theorem check_accepts_iff:
  "Check L now a tok = None \<longleftrightarrow>
     au_open a \<or>
     (tok \<noteq> [] \<and>
      (if au_signing a \<noteq> [] \<and> HasPrefix tok ''m1.''
       then (\<exists>c. Parse L now (au_signing a) tok = Inr c \<and> c_ID c \<notin> set (au_revoked a))
       else tok \<in> set (au_tokens a)))"
  by (auto simp: Check_def isSigned_def Prefix_def split: sum.splits)

section \<open>A panic\<close>

text \<open>An entry of separators only crashes the server at startup.\<close>

lemma reserved_separators_panic: "parseReserved L (''='', None) m = Inl ErrIndexPanic"
proof -
  have "runeLen fieldSeps ''='' = 1"
    by (simp add: runeLen_def fieldSeps_def HasPrefix_def)
  then have "FieldsFunc fieldSeps ''='' = []"
    by (simp add: FieldsFunc_def fieldsFrom.simps [of fieldSeps "[]" "''=''"])
  then show ?thesis
    by (simp add: parseReserved_def scanLines_def rawLines_def dropCR_def MaxScanTokenSize_def
        reservedEntry_def isComment_def HasPrefix_def TrimSpace_plain graphic_def)
qed

end
