(* ===== verification/Registry.thy ===== *)
theory Registry
  imports Mux_Live Auth
begin

text \<open>
  The server's map from subdomains to connected clients, \<^verbatim>\<open>internal/server/registry.go\<close>. Clients are objects with
  identity (\<open>rg_heap\<close>, addressed by index) because a client outlives its entry: its handler still holds it when it
  unregisters. A client's session is the index of a session. The calls of \<^verbatim>\<open>OnChange\<close> are logged in order. Whether a session
  is stale at the moment of a call is the argument \<open>stale\<close>, which the server instantiates with \<^verbatim>\<open>Session.Stale\<close>.
\<close>

section \<open>Clients and the registry\<close>

record client =
  cl_Subdomain :: string
  cl_Session :: nat
  cl_RemoteAddr :: string
  cl_ConnectedAt :: int
  cl_Protected :: bool
  cl_TokenID :: string
  cl_ready :: bool

record registry =
  rg_clients :: "(string \<times> nat) list"
  rg_heap :: "client list"
  rg_log :: "(nat \<times> bool) list"

definition NewRegistry :: registry where
  "NewRegistry = \<lparr>rg_clients = [], rg_heap = [], rg_log = []\<rparr>"

definition clnt :: "registry \<Rightarrow> nat \<Rightarrow> client" where
  "clnt r c = rg_heap r ! c"

definition onChange :: "nat \<Rightarrow> bool \<Rightarrow> registry \<Rightarrow> registry" where
  "onChange c connected r = r\<lparr>rg_log := rg_log r @ [(c, connected)]\<rparr>"

definition markReady :: "nat \<Rightarrow> registry \<Rightarrow> registry" where
  "markReady c r = r\<lparr>rg_heap := (rg_heap r)[c := (rg_heap r ! c)\<lparr>cl_ready := True\<rparr>]\<rparr>"

text \<open>
  \<^verbatim>\<open>waitReady\<close>, given what happens first while it waits: the handshake finishes, the request's context ends, or
  the five seconds pass.
\<close>

datatype wait_event = BecomesReady | CtxDone | TimerFires

definition waitReady :: "wait_event \<Rightarrow> nat \<Rightarrow> registry \<Rightarrow> bool" where
  "waitReady ev c r = (if cl_ready (clnt r c) then True else ev = BecomesReady)"

definition Get :: "string \<Rightarrow> registry \<Rightarrow> nat option" where
  "Get sub r = map_of (rg_clients r) sub"

definition Count :: "registry \<Rightarrow> nat" where
  "Count r = length (rg_clients r)"

definition Register ::
  "(nat \<Rightarrow> bool) \<Rightarrow> int \<Rightarrow> string \<Rightarrow> nat \<Rightarrow> string \<Rightarrow> string \<Rightarrow> registry \<Rightarrow> (nat \<times> nat option) option \<times> registry" where
  "Register stale now sub sess remote tokenID r =
     (let cur = Get sub r
      in if (case cur of
               None \<Rightarrow> False
             | Some k \<Rightarrow> tokenID = [] \<or> cl_TokenID (clnt r k) \<noteq> tokenID \<or> \<not> stale (cl_Session (clnt r k)))
         then (None, r)
         else let c = length (rg_heap r);
                  r1 = r\<lparr>rg_heap := rg_heap r @ [\<lparr>cl_Subdomain = sub, cl_Session = sess, cl_RemoteAddr = remote,
                           cl_ConnectedAt = now, cl_Protected = False, cl_TokenID = tokenID, cl_ready = False\<rparr>],
                         rg_clients := AList.update sub c (rg_clients r)\<rparr>;
                  r2 = (case cur of None \<Rightarrow> r1 | Some k \<Rightarrow> onChange k False r1)
              in (Some (c, cur), onChange c True r2))"

definition Unregister :: "nat \<Rightarrow> registry \<Rightarrow> registry" where
  "Unregister c r =
     (let sub = cl_Subdomain (clnt r c)
      in case Get sub r of
           None \<Rightarrow> r
         | Some k \<Rightarrow>
             if cl_Session (clnt r k) \<noteq> cl_Session (clnt r c) then r
             else onChange c False (r\<lparr>rg_clients := AList.delete sub (rg_clients r)\<rparr>))"

section \<open>Invariant\<close>

definition reg_ok :: "registry \<Rightarrow> bool" where
  "reg_ok r \<longleftrightarrow>
     distinct (map fst (rg_clients r)) \<and>
     (\<forall>(sub, c) \<in> set (rg_clients r). c < length (rg_heap r) \<and> cl_Subdomain (clnt r c) = sub) \<and>
     length (filter snd (rg_log r)) = length (filter (\<lambda>e. \<not> snd e) (rg_log r)) + length (rg_clients r)"

lemma Get_ok:
  assumes "reg_ok r" and "Get sub r = Some c"
  shows "c < length (rg_heap r) \<and> cl_Subdomain (clnt r c) = sub"
proof -
  have "(sub, c) \<in> set (rg_clients r)" using assms(2) by (simp add: Get_def map_of_SomeD)
  with assms(1) show ?thesis unfolding reg_ok_def by blast
qed

lemma length_AList_update:
  "length (AList.update k v m) = (if map_of m k = None then Suc (length m) else length m)"
  by (induction m) auto

lemma length_AList_delete:
  "distinct (map fst m) \<Longrightarrow>
   Suc (length (AList.delete k m)) = (if map_of m k = None then Suc (length m) else length m)"
proof (induction m)
  case (Cons p m)
  show ?case
  proof (cases "fst p = k")
    case True
    with Cons.prems have "AList.delete k m = m"
      by (auto simp: AList.delete_eq filter_id_conv rev_image_eqI)
    with True show ?thesis by (cases p) simp
  next
    case False
    with Cons show ?thesis by (cases p) (auto split: if_splits)
  qed
qed (simp add: AList.delete_eq)

lemma NewRegistry_ok: "reg_ok NewRegistry"
  by (simp add: reg_ok_def NewRegistry_def)

lemma Register_None: "Register stale now sub sess remote tid r = (None, r') \<Longrightarrow> r' = r"
  by (auto simp: Register_def Let_def split: if_splits option.splits)

lemma Register_Some:
  assumes "Register stale now sub sess remote tid r = (Some (c, ev), r')"
  shows "c = length (rg_heap r)" "ev = Get sub r"
    "rg_heap r' = rg_heap r @ [\<lparr>cl_Subdomain = sub, cl_Session = sess, cl_RemoteAddr = remote,
        cl_ConnectedAt = now, cl_Protected = False, cl_TokenID = tid, cl_ready = False\<rparr>]"
    "rg_clients r' = AList.update sub c (rg_clients r)"
    "rg_log r' = rg_log r @ (case Get sub r of None \<Rightarrow> [] | Some k \<Rightarrow> [(k, False)]) @ [(c, True)]"
  using assms by (auto simp: Register_def Let_def onChange_def split: if_splits option.splits)

lemma Register_ok:
  assumes "reg_ok r" and "Register stale now sub sess remote tid r = (res, r')"
  shows "reg_ok r'"
proof (cases res)
  case None
  with assms Register_None show ?thesis by blast
next
  case (Some p)
  then obtain c ev where p: "res = Some (c, ev)" by (cases p) simp
  note R = Register_Some [OF assms(2) [unfolded p]]
  have "\<forall>(s, k) \<in> set (rg_clients r'). k < length (rg_heap r') \<and> cl_Subdomain (clnt r' k) = s"
    using assms(1) by (auto simp: R(1,3,4) reg_ok_def clnt_def nth_append dest!: set_AList_update)
  moreover have "length (filter snd (rg_log r')) =
      length (filter (\<lambda>e. \<not> snd e) (rg_log r')) + length (rg_clients r')"
    using assms(1) by (auto simp: R(4,5) reg_ok_def length_AList_update Get_def split: option.splits)
  ultimately show ?thesis
    using assms(1) by (simp add: reg_ok_def R(4) distinct_keys_update)
qed

lemma Unregister_ok:
  assumes "reg_ok r"
  shows "reg_ok (Unregister c r)"
proof (cases "Get (cl_Subdomain (clnt r c)) r")
  case (Some k)
  let ?m = "AList.delete (cl_Subdomain (clnt r c)) (rg_clients r)"
  have "Suc (length ?m) = length (rg_clients r)"
    using assms Some length_AList_delete [of "rg_clients r"] by (auto simp: reg_ok_def Get_def)
  with assms Some show ?thesis
    by (auto simp: Unregister_def reg_ok_def onChange_def clnt_def set_AList_delete distinct_keys_delete)
qed (simp add: Unregister_def assms)

lemma markReady_clnt: "cl_Subdomain (clnt (markReady c r) k) = cl_Subdomain (clnt r k)"
  by (cases "c < length (rg_heap r)") (auto simp: markReady_def clnt_def nth_list_update list_update_beyond)

lemma markReady_ok: "reg_ok r \<Longrightarrow> reg_ok (markReady c r)"
  using markReady_clnt by (auto simp: reg_ok_def markReady_def clnt_def)

section \<open>The contract of a name service\<close>

text \<open>
  What the server relies on: a name has at most one holder; a claim either is refused and changes nothing or makes
  the new client the holder and reports whom it displaced; a release takes a name away only from a holder with the
  same owner (here, the same session).
\<close>

locale name_service =
  fixes wf :: "'r \<Rightarrow> bool"
    and holder :: "string \<Rightarrow> 'r \<Rightarrow> 'c option"
    and owner :: "'r \<Rightarrow> 'c \<Rightarrow> 'o"
    and claim :: "string \<Rightarrow> 'o \<Rightarrow> 'x \<Rightarrow> 'r \<Rightarrow> ('c \<times> 'c option) option \<times> 'r"
    and release :: "'c \<Rightarrow> 'r \<Rightarrow> 'r"
  assumes claim_wf: "wf r \<Longrightarrow> claim n b x r = (res, r') \<Longrightarrow> wf r'"
    and release_wf: "wf r \<Longrightarrow> wf (release c r)"
    and claim_refused: "claim n b x r = (None, r') \<Longrightarrow> r' = r"
    and claim_holder: "wf r \<Longrightarrow> claim n b x r = (Some (c, ev), r') \<Longrightarrow>
          holder m r' = (if m = n then Some c else holder m r) \<and> owner r' c = b \<and> ev = holder n r"
    and release_keeps: "wf r \<Longrightarrow> holder m r = Some d \<Longrightarrow> owner r d \<noteq> owner r c \<Longrightarrow> holder m (release c r) = Some d"
    and release_only: "wf r \<Longrightarrow> holder m (release c r) = Some d \<Longrightarrow> holder m r = Some d"
    and release_owner: "owner (release c r) d = owner r d"
begin

lemma releases_wf: "wf r \<Longrightarrow> wf (fold release cs r)"
  by (induction cs arbitrary: r) (simp_all add: release_wf)

lemma releases_keep:
  "wf r \<Longrightarrow> holder m r = Some d \<Longrightarrow> (\<And>c. c \<in> set cs \<Longrightarrow> owner r c \<noteq> owner r d) \<Longrightarrow>
   holder m (fold release cs r) = Some d"
proof (induction cs arbitrary: r)
  case (Cons c cs)
  have "owner r d \<noteq> owner r c" using Cons.prems(3) [of c] by (auto dest: sym)
  with Cons.prems have "holder m (release c r) = Some d" by (intro release_keeps)
  then show ?case
    using Cons.prems by (simp add: Cons.IH release_wf release_owner)
qed simp

lemma claim_survives:
  assumes "wf r" and "claim n b x r = (Some (c, ev), r')" and "\<And>k. k \<in> set cs \<Longrightarrow> owner r' k \<noteq> b"
  shows "holder n (fold release cs r') = Some c"
  using claim_holder [OF assms(1,2), of n] claim_wf [OF assms(1,2)] assms(3)
  by (intro releases_keep) auto

lemma releases_only: "wf r \<Longrightarrow> holder m (fold release cs r) = Some d \<Longrightarrow> holder m r = Some d"
proof (induction cs arbitrary: r)
  case (Cons c cs)
  then have "holder m (release c r) = Some d" by (simp add: release_wf)
  with Cons.prems(1) show ?case by (rule release_only)
qed simp

end

abbreviation session_of :: "registry \<Rightarrow> nat \<Rightarrow> nat" where
  "session_of r c \<equiv> cl_Session (clnt r c)"

abbreviation reg_claim ::
  "string \<Rightarrow> nat \<Rightarrow> (nat \<Rightarrow> bool) \<times> int \<times> string \<times> string \<Rightarrow> registry \<Rightarrow> (nat \<times> nat option) option \<times> registry" where
  "reg_claim n b x r \<equiv> Register (fst x) (fst (snd x)) n b (fst (snd (snd x))) (snd (snd (snd x))) r"

lemma Unregister_clnt: "clnt (Unregister c r) d = clnt r d"
  by (simp add: Unregister_def onChange_def clnt_def Let_def split: option.splits)

lemma Get_Unregister:
  "Get m (Unregister c r) =
     (case Get m r of
        None \<Rightarrow> None
      | Some d \<Rightarrow> if m = cl_Subdomain (clnt r c) \<and> session_of r d = session_of r c then None else Some d)"
  by (auto simp: Unregister_def Get_def onChange_def go_map_simps Let_def split: option.splits)

interpretation reg: name_service reg_ok Get session_of reg_claim Unregister
proof
  fix r n b x c ev r' m
  assume ok: "reg_ok r" and cl: "reg_claim n b x r = (Some (c, ev), r')"
  note R = Register_Some [OF cl]
  show "Get m r' = (if m = n then Some c else Get m r) \<and> session_of r' c = b \<and> ev = Get n r"
    using R by (simp add: Get_def go_map_simps clnt_def nth_append)
next
  fix r m d c
  assume "Get m r = Some d" "session_of r d \<noteq> session_of r c"
  then show "Get m (Unregister c r) = Some d" by (simp add: Get_Unregister)
qed (auto simp: Get_Unregister Unregister_clnt Unregister_ok dest: Register_ok Register_None
       split: option.splits if_splits)

section \<open>Properties\<close>

text \<open>Everything that happens to the registry.\<close>

inductive reg_op :: "registry \<Rightarrow> registry \<Rightarrow> bool" where
  ro_register: "Register stale now sub sess remote tid r = (res, r') \<Longrightarrow> reg_op r r'"
| ro_unregister: "reg_op r (Unregister c r)"
| ro_ready: "reg_op r (markReady c r)"
| ro_protect: "c < length (rg_heap r) \<Longrightarrow>
    reg_op r (r\<lparr>rg_heap := (rg_heap r)[c := (rg_heap r ! c)\<lparr>cl_Protected := p\<rparr>]\<rparr>)"

lemma reg_op_ok: "reg_op r r' \<Longrightarrow> reg_ok r \<Longrightarrow> reg_ok r'"
proof (induction rule: reg_op.induct)
  case (ro_protect c r p)
  then show ?case by (auto simp: reg_ok_def clnt_def nth_list_update)
qed (auto intro: Register_ok Unregister_ok markReady_ok)

interpretation regm: invariant_system "\<lambda>r. r = NewRegistry" reg_op reg_ok
  by unfold_locales (auto simp: NewRegistry_ok intro: reg_op_ok)

text \<open>
  Claiming a subdomain, on every branch. It is refused, with nothing changed, exactly when someone
  holds the name and the claim does not carry that holder's non-empty token id or the holder's session is not stale:
  a live tunnel is never evicted. Otherwise the new client holds the name, every other name is as before, the
  previous holder (if any) is returned to be closed, and the change callback sees the eviction before the arrival.
\<close>

theorem register_cases:
  assumes "Register stale now sub sess remote tokenID r = (res, r')"
  shows "(case Get sub r of
       None \<Rightarrow> res \<noteq> None
     | Some k \<Rightarrow> res = None \<longleftrightarrow>
         \<not> (tokenID \<noteq> [] \<and> cl_TokenID (clnt r k) = tokenID \<and> stale (session_of r k))) \<and>
   (res = None \<longrightarrow> r' = r) \<and>
   (\<forall>c ev. res = Some (c, ev) \<longrightarrow>
      Get sub r' = Some c \<and> (\<forall>m. m \<noteq> sub \<longrightarrow> Get m r' = Get m r) \<and> ev = Get sub r \<and>
      clnt r' c = \<lparr>cl_Subdomain = sub, cl_Session = sess, cl_RemoteAddr = remote, cl_ConnectedAt = now,
        cl_Protected = False, cl_TokenID = tokenID, cl_ready = False\<rparr> \<and>
      rg_log r' = rg_log r @ (case ev of None \<Rightarrow> [] | Some k \<Rightarrow> [(k, False)]) @ [(c, True)])"
proof -
  have "case Get sub r of
       None \<Rightarrow> res \<noteq> None
     | Some k \<Rightarrow> res = None \<longleftrightarrow>
         \<not> (tokenID \<noteq> [] \<and> cl_TokenID (clnt r k) = tokenID \<and> stale (session_of r k))"
    using assms by (auto simp: Register_def Let_def split: option.splits if_splits)
  moreover have "res = None \<longrightarrow> r' = r" using assms Register_None by blast
  moreover have "\<forall>c ev. res = Some (c, ev) \<longrightarrow>
      Get sub r' = Some c \<and> (\<forall>m. m \<noteq> sub \<longrightarrow> Get m r' = Get m r) \<and> ev = Get sub r \<and>
      clnt r' c = \<lparr>cl_Subdomain = sub, cl_Session = sess, cl_RemoteAddr = remote, cl_ConnectedAt = now,
        cl_Protected = False, cl_TokenID = tokenID, cl_ready = False\<rparr> \<and>
      rg_log r' = rg_log r @ (case ev of None \<Rightarrow> [] | Some k \<Rightarrow> [(k, False)]) @ [(c, True)]"
  proof (intro allI impI)
    fix c ev
    assume "res = Some (c, ev)"
    note R = Register_Some [OF assms [unfolded this]]
    show "Get sub r' = Some c \<and> (\<forall>m. m \<noteq> sub \<longrightarrow> Get m r' = Get m r) \<and> ev = Get sub r \<and>
      clnt r' c = \<lparr>cl_Subdomain = sub, cl_Session = sess, cl_RemoteAddr = remote, cl_ConnectedAt = now,
        cl_Protected = False, cl_TokenID = tokenID, cl_ready = False\<rparr> \<and>
      rg_log r' = rg_log r @ (case ev of None \<Rightarrow> [] | Some k \<Rightarrow> [(k, False)]) @ [(c, True)]"
      using R by (simp add: Get_def go_map_simps clnt_def)
  qed
  ultimately show ?thesis by blast
qed

text \<open>A registry with one client, named \<^verbatim>\<open>hop\<close>, on session 0.\<close>

definition demo_reg :: registry where
  "demo_reg = snd (Register (\<lambda>_. False) 5 ''hop'' 0 ''1.2.3.4:5'' ''tok_41'' NewRegistry)"

lemma demo_reg_eq:
  "demo_reg = \<lparr>rg_clients = [(''hop'', 0)],
     rg_heap = [\<lparr>cl_Subdomain = ''hop'', cl_Session = 0, cl_RemoteAddr = ''1.2.3.4:5'', cl_ConnectedAt = 5,
        cl_Protected = False, cl_TokenID = ''tok_41'', cl_ready = False\<rparr>],
     rg_log = [(0, True)]\<rparr>"
  by (simp add: demo_reg_def Register_def NewRegistry_def Get_def onChange_def)

lemma demo_reg_ok: "reg_ok demo_reg"
  by (simp add: demo_reg_eq reg_ok_def clnt_def)

theorem register_cases_witness:
  "Register (\<lambda>_. False) 9 ''hop'' 1 ''6.6.6.6:6'' ''tok_41'' demo_reg = (None, demo_reg) \<and>
   fst (Register (\<lambda>_. True) 9 ''hop'' 1 ''6.6.6.6:6'' ''tok_41'' demo_reg) \<noteq> None"
proof -
  have g: "Get ''hop'' demo_reg = Some 0" "cl_TokenID (clnt demo_reg 0) = ''tok_41''"
    by (simp_all add: demo_reg_eq Get_def clnt_def)
  obtain res r' where 1: "Register (\<lambda>_. False) 9 ''hop'' 1 ''6.6.6.6:6'' ''tok_41'' demo_reg = (res, r')" by fastforce
  obtain res2 r2 where 2: "Register (\<lambda>_. True) 9 ''hop'' 1 ''6.6.6.6:6'' ''tok_41'' demo_reg = (res2, r2)" by fastforce
  show ?thesis
    using register_cases [OF 1] register_cases [OF 2] g 1 2 by simp
qed

text \<open>
  A late unregister never takes a name from its new holder: after a successful claim, however many
  clients of other sessions (the evicted one among them) unregister afterwards and in whatever order, the name
  still belongs to the new client.
\<close>

theorem late_unregister_harmless:
  assumes "reg_ok r" and "Register stale now sub sess remote tokenID r = (Some (c, ev), r')"
    and "\<forall>k \<in> set cs. cl_Session (clnt r' k) \<noteq> sess"
  shows "Get sub (fold Unregister cs r') = Some c"
  using reg.claim_survives [where r = r and n = sub and b = sess and x = "(stale, now, remote, tokenID)"
      and c = c and ev = ev and r' = r' and cs = cs] assms by simp

theorem late_unregister_harmless_witness:
  "\<exists>r'. Register (\<lambda>_. True) 9 ''hop'' 1 ''6.6.6.6:6'' ''tok_41'' demo_reg = (Some (1, Some 0), r') \<and>
     Get ''hop'' (fold Unregister [0, 0] r') = Some 1"
proof -
  obtain r' where r': "Register (\<lambda>_. True) 9 ''hop'' 1 ''6.6.6.6:6'' ''tok_41'' demo_reg = (Some (1, Some 0), r')"
    by (simp add: Register_def demo_reg_eq Get_def clnt_def Let_def)
  have "\<forall>k \<in> set [0, 0]. cl_Session (clnt r' k) \<noteq> 1"
    using Register_Some(3) [OF r'] by (simp add: clnt_def demo_reg_eq)
  from late_unregister_harmless [OF demo_reg_ok r' this] r' show ?thesis by blast
qed

text \<open>
  In every state the registry can reach, the client a name leads to was registered under that name,
  and the number of live tunnels is the number of arrivals minus the number of departures the change callback has
  seen.
\<close>

theorem registry_invariant:
  assumes "reach (\<lambda>r. r = NewRegistry) reg_op r"
  shows "(Get sub r = Some c \<longrightarrow> c < length (rg_heap r) \<and> cl_Subdomain (clnt r c) = sub) \<and>
     Count r + length (filter (\<lambda>e. \<not> snd e) (rg_log r)) = length (filter snd (rg_log r))"
proof -
  have ok: "reg_ok r" by (rule regm.reach_inv [OF assms])
  then show ?thesis using Get_ok [OF ok] by (auto simp: reg_ok_def Count_def)
qed

theorem registry_invariant_witness:
  "cl_Subdomain (clnt demo_reg 0) = ''hop'' \<and> Count demo_reg = 1"
proof -
  have "reach (\<lambda>r. r = NewRegistry) reg_op demo_reg"
    unfolding demo_reg_def
    by (rule reach.reach_step [OF reach.reach_init [where s = NewRegistry]]) (auto intro: reg_op.ro_register surjective_pairing)
  from registry_invariant [OF this, of "''hop''" 0] show ?thesis
    by (simp add: demo_reg_eq Get_def)
qed

end
