(* ===== verification/Http.thy ===== *)
theory Http
  imports Token
begin

text \<open>
  The part of \<^verbatim>\<open>net/http\<close> the server's handlers use: headers, requests as a handler receives them, and replies. A
  header is an association list from canonical keys to values, in the order Go happens to iterate the map. A request
  carries what the library has already parsed (path, query, form, cookies); its body is the bytes that can be read and
  the error that ends them, if it is not the end of the body.
\<close>

section \<open>Headers\<close>

type_synonym header = "(string \<times> string list) list"

definition isTokenByte :: "char \<Rightarrow> bool" where
  "isTokenByte c \<longleftrightarrow>
     (let n = of_char c :: nat
      in 48 \<le> n \<and> n \<le> 57 \<or> 65 \<le> n \<and> n \<le> 90 \<or> 97 \<le> n \<and> n \<le> 122 \<or> c \<in> set ''!#$%&*+-.^_`|~'' \<or> n = 39)"

definition upperByte :: "char \<Rightarrow> char" where
  "upperByte c =
     (let n = of_char c :: nat in if 97 \<le> n \<and> n \<le> 122 then char_of (n - 32) else c)"

primrec canonFrom :: "bool \<Rightarrow> string \<Rightarrow> string" where
  "canonFrom up [] = []"
| "canonFrom up (c # cs) = (if up then upperByte c else lowerByte c) # canonFrom (c = CHR ''-'') cs"

definition CanonicalHeaderKey :: "string \<Rightarrow> string" where
  "CanonicalHeaderKey k = (if list_all isTokenByte k then canonFrom True k else k)"

definition hdr_Values :: "header \<Rightarrow> string \<Rightarrow> string list" where
  "hdr_Values h k = (case map_of h (CanonicalHeaderKey k) of None \<Rightarrow> [] | Some vs \<Rightarrow> vs)"

definition hdr_Get :: "header \<Rightarrow> string \<Rightarrow> string" where
  "hdr_Get h k = (case hdr_Values h k of [] \<Rightarrow> [] | v # vs \<Rightarrow> v)"

definition hdr_Set :: "string \<Rightarrow> string \<Rightarrow> header \<Rightarrow> header" where
  "hdr_Set k v h = AList.update (CanonicalHeaderKey k) [v] h"

definition hdr_Add :: "string \<Rightarrow> string \<Rightarrow> header \<Rightarrow> header" where
  "hdr_Add k v h = AList.update (CanonicalHeaderKey k) (hdr_Values h k @ [v]) h"

definition hdr_Del :: "string \<Rightarrow> header \<Rightarrow> header" where
  "hdr_Del k h = AList.delete (CanonicalHeaderKey k) h"

text \<open>The lines a loop over a header writes.\<close>

definition hdr_lines :: "header \<Rightarrow> (string \<times> string) list" where
  "hdr_lines h = concat (map (\<lambda>(k, vs). map (\<lambda>v. (k, v)) vs) h)"

lemma in_hdr_lines: "(k, v) \<in> set (hdr_lines h) \<longleftrightarrow> (\<exists>vs. (k, vs) \<in> set h \<and> v \<in> set vs)"
  by (induction h) (auto simp: hdr_lines_def)

lemma hdr_Del_lines: "(k, v) \<in> set (hdr_lines (hdr_Del n h)) \<longleftrightarrow>
   k \<noteq> CanonicalHeaderKey n \<and> (k, v) \<in> set (hdr_lines h)"
  by (auto simp: in_hdr_lines hdr_Del_def set_AList_delete)

lemma hdr_Set_lines:
  assumes "distinct (map fst h)"
  shows "(k, v) \<in> set (hdr_lines (hdr_Set n x h)) \<longleftrightarrow>
    (if k = CanonicalHeaderKey n then v = x else (k, v) \<in> set (hdr_lines h))"
proof -
  have "(k, vs) \<in> set (AList.update j [x] h) \<longleftrightarrow> (if k = j then vs = [x] else (k, vs) \<in> set h)" for j vs
    using assms map_of_eq_Some_iff [OF distinct_keys_update [OF assms], of j "[x]" k vs]
      map_of_eq_Some_iff [OF assms, of k vs]
    by (auto simp: map_of_AList_update split: if_splits)
  then show ?thesis by (auto simp: in_hdr_lines hdr_Set_def)
qed

lemma hdr_distinct:
  "distinct (map fst h) \<Longrightarrow> distinct (map fst (hdr_Set k v h))"
  "distinct (map fst h) \<Longrightarrow> distinct (map fst (hdr_Del k h))"
  by (simp_all add: hdr_Set_def hdr_Del_def go_map_distinct)

section \<open>Requests and replies\<close>

record request =
  rq_Method :: string
  rq_Path :: string
  rq_URI :: string
  rq_Host :: string
  rq_Header :: header
  rq_Query :: "(string \<times> string) list"
  rq_Form :: "(string \<times> string) list option"
  rq_Cookies :: "(string \<times> string) list"
  rq_RemoteAddr :: string
  rq_ContentLength :: int
  rq_Body :: "string \<times> err option"
  rq_TLS :: bool

definition lookupStr :: "(string \<times> string) list \<Rightarrow> string \<Rightarrow> string" where
  "lookupStr m k = (case map_of m k of None \<Rightarrow> [] | Some v \<Rightarrow> v)"

definition QueryGet :: "request \<Rightarrow> string \<Rightarrow> string" where
  "QueryGet r k = lookupStr (rq_Query r) k"

text \<open>\<open>rq_Form\<close> is \<open>None\<close> when parsing the form fails.\<close>

definition FormValue :: "request \<Rightarrow> string \<Rightarrow> string" where
  "FormValue r k = (case rq_Form r of None \<Rightarrow> [] | Some m \<Rightarrow> lookupStr m k)"

record cookie =
  ck_Name :: string
  ck_Value :: string
  ck_Path :: string
  ck_MaxAge :: int
  ck_HttpOnly :: bool
  ck_Secure :: bool

datatype page =
    NoBody
  | PlainText string
  | ErrorDoc nat string string
  | JsonError string
  | TokenIssued string string string int
  | Health nat
  | LandingPage string string string
  | LoginForm string

record reply =
  rp_Status :: nat
  rp_Location :: "string option"
  rp_Cookies :: "cookie list"
  rp_Page :: page

definition mkReply :: "nat \<Rightarrow> page \<Rightarrow> reply" where
  "mkReply status pg = \<lparr>rp_Status = status, rp_Location = None, rp_Cookies = [], rp_Page = pg\<rparr>"

definition NotFoundReply :: reply where
  "NotFoundReply = mkReply 404 (PlainText ''404 page not found'')"

text \<open>The target is what the handler passes to \<^verbatim>\<open>http.Redirect\<close>, before the library cleans its path.\<close>

definition RedirectReply :: "string \<Rightarrow> reply" where
  "RedirectReply target = \<lparr>rp_Status = 302, rp_Location = Some target, rp_Cookies = [], rp_Page = NoBody\<rparr>"

end
