(* ===== verification/Forwardauth.thy ===== *)
theory Forwardauth
  imports Http
begin

text \<open>
  The access layer for protected tunnels, \<^verbatim>\<open>internal/forwardauth/forwardauth.go\<close>: session cookies signed like tokens, the
  login flow, and the identity headers only the server may set. The login provider is an interface with one
  implementation, \<^verbatim>\<open>StubProvider\<close>; in the model it is its \<^verbatim>\<open>Authenticate\<close> (type \<open>authn\<close>), the login page being the one of the stub. \<^verbatim>\<open>url.QueryEscape\<close> is the library's, in \<open>fl_escape\<close>.
\<close>

definition CookieName :: string where "CookieName = ''__munnel_sess''"
definition UserHeader :: string where "UserHeader = ''X-Authenticated-User''"
definition GroupHeader :: string where "GroupHeader = ''X-Authenticated-Groups''"
definition fa_prefix :: string where "fa_prefix = ''s1.''"
definition loginPath :: string where "loginPath = ''/__munnel/login''"
definition authPath :: string where "authPath = ''/__munnel/auth''"
definition logoutPath :: string where "logoutPath = ''/__munnel/logout''"

record fa_session =
  fs_User :: string
  fs_Groups :: "string list"
  fs_Exp :: int

datatype fa_err = ErrInvalidSession | ErrExpiredSession

record falib =
  fl_hmac :: "string \<Rightarrow> string \<Rightarrow> string"
  fl_marshal :: "fa_session \<Rightarrow> string option"
  fl_unmarshal :: "string \<Rightarrow> fa_session option"
  fl_escape :: "string \<Rightarrow> string"

text \<open>\<^verbatim>\<open>authn\<close>: \<open>None\<close> when the submission is refused.\<close>

type_synonym authn = "request \<Rightarrow> (string \<times> string list) option"

record manager =
  fm_key :: string
  fm_provider :: "authn option"
  fm_ttl :: int

definition NewManager :: "string \<Rightarrow> authn option \<Rightarrow> int \<Rightarrow> manager" where
  "NewManager key provider ttl = \<lparr>fm_key = key, fm_provider = provider, fm_ttl = ttl\<rparr>"

definition Enabled :: "manager option \<Rightarrow> bool" where
  "Enabled m = (case m of None \<Rightarrow> False | Some mg \<Rightarrow> fm_provider mg \<noteq> None)"

definition fa_hmacSum :: "falib \<Rightarrow> string \<Rightarrow> string \<Rightarrow> string" where
  "fa_hmacSum F key payload = fl_hmac F key payload"

definition signSession :: "falib \<Rightarrow> int \<Rightarrow> manager \<Rightarrow> string \<Rightarrow> string list \<Rightarrow> string option" where
  "signSession F now m user groups =
     (case fl_marshal F \<lparr>fs_User = user, fs_Groups = groups, fs_Exp = unix (now + fm_ttl m)\<rparr> of
        None \<Rightarrow> None
      | Some payload \<Rightarrow> Some (fa_prefix @ b64 payload @ ''.'' @ b64 (fa_hmacSum F (fm_key m) payload)))"

definition verifySession :: "falib \<Rightarrow> int \<Rightarrow> manager \<Rightarrow> string \<Rightarrow> fa_err + fa_session" where
  "verifySession F now m ck =
     (if \<not> HasPrefix ck fa_prefix then Inl ErrInvalidSession
      else let body = drop (length fa_prefix) ck
      in case IndexByte body CHR ''.'' of
        None \<Rightarrow> Inl ErrInvalidSession
      | Some dot \<Rightarrow>
          (case b64d (take dot body) of
             None \<Rightarrow> Inl ErrInvalidSession
           | Some payload \<Rightarrow>
               (case b64d (drop (Suc dot) body) of
                  None \<Rightarrow> Inl ErrInvalidSession
                | Some sig \<Rightarrow>
                    if sig \<noteq> fa_hmacSum F (fm_key m) payload then Inl ErrInvalidSession
                    else (case fl_unmarshal F payload of
                            None \<Rightarrow> Inl ErrInvalidSession
                          | Some s \<Rightarrow> if fs_Exp s < unix now then Inl ErrExpiredSession else Inr s))))"

definition StripIdentityHeaders :: "request \<Rightarrow> request" where
  "StripIdentityHeaders r = r\<lparr>rq_Header := hdr_Del GroupHeader (hdr_Del UserHeader (rq_Header r))\<rparr>"

definition injectIdentity :: "fa_session \<Rightarrow> request \<Rightarrow> request" where
  "injectIdentity s r =
     (let h = hdr_Set UserHeader (fs_User s) (rq_Header r)
      in r\<lparr>rq_Header := (if fs_Groups s \<noteq> [] then hdr_Set GroupHeader (Join (fs_Groups s) '','') h else h)\<rparr>)"

text \<open>\<^verbatim>\<open>Authorize\<close>: the request with the identity headers set, or the redirect that was written.\<close>

definition Authorize :: "falib \<Rightarrow> int \<Rightarrow> manager \<Rightarrow> request \<Rightarrow> reply + request" where
  "Authorize F now m r =
     (let login = Inl (RedirectReply (loginPath @ ''?return='' @ fl_escape F (rq_URI r)))
      in case map_of (rq_Cookies r) CookieName of
           None \<Rightarrow> login
         | Some v \<Rightarrow>
             (case verifySession F now m v of
                Inl e \<Rightarrow> login
              | Inr s \<Rightarrow> Inr (injectIdentity s r)))"

definition SetSessionCookie :: "falib \<Rightarrow> int \<Rightarrow> manager \<Rightarrow> request \<Rightarrow> string \<Rightarrow> string list \<Rightarrow> cookie" where
  "SetSessionCookie F now m r user groups =
     \<lparr>ck_Name = CookieName, ck_Value = (case signSession F now m user groups of None \<Rightarrow> [] | Some v \<Rightarrow> v),
      ck_Path = ''/'', ck_MaxAge = fm_ttl m div 10 ^ 9, ck_HttpOnly = True, ck_Secure = rq_TLS r\<rparr>"

definition ClearSessionCookie :: cookie where
  "ClearSessionCookie =
     \<lparr>ck_Name = CookieName, ck_Value = [], ck_Path = ''/'', ck_MaxAge = -1, ck_HttpOnly = True, ck_Secure = False\<rparr>"

text \<open>\<^verbatim>\<open>StubProvider.Authenticate\<close>: any non-blank user.\<close>

definition stubAuthenticate :: authn where
  "stubAuthenticate r =
     (case rq_Form r of
        None \<Rightarrow> None
      | Some f \<Rightarrow> let user = TrimSpace (FormValue r ''user'') in if user = [] then None else Some (user, []))"

text \<open>\<open>None\<close> is the nil-interface panic of a manager without provider; the server only calls an enabled one.\<close>

definition Handle :: "falib \<Rightarrow> int \<Rightarrow> manager \<Rightarrow> request \<Rightarrow> reply option" where
  "Handle F now m r =
     (if rq_Path r = loginPath then
        map_option (\<lambda>_. mkReply 200 (LoginForm (QueryGet r ''return''))) (fm_provider m)
      else if rq_Path r = authPath then
        (if rq_Method r \<noteq> ''POST'' then Some (mkReply 405 (PlainText ''method not allowed''))
         else case fm_provider m of
           None \<Rightarrow> None
         | Some authn \<Rightarrow>
             (case authn r of
                None \<Rightarrow> Some (mkReply 401 (PlainText ''unauthorized''))
              | Some (user, groups) \<Rightarrow>
                  let ret = FormValue r ''return'';
                      target = (if ret = [] \<or> \<not> HasPrefix ret ''/'' then ''/'' else ret)
                  in Some ((RedirectReply target)\<lparr>rp_Cookies := [SetSessionCookie F now m r user groups]\<rparr>)))
      else if rq_Path r = logoutPath then
        Some ((RedirectReply ''/'')\<lparr>rp_Cookies := [ClearSessionCookie]\<rparr>)
      else Some NotFoundReply)"

section \<open>Session cookies\<close>

lemma verifySession_Inr:
  "verifySession F now m ck = Inr s \<longleftrightarrow>
     (\<exists>p sg payload. ck = fa_prefix @ p @ ''.'' @ sg \<and> CHR ''.'' \<notin> set p \<and> b64d p = Some payload \<and>
        b64d sg = Some (fa_hmacSum F (fm_key m) payload) \<and> fl_unmarshal F payload = Some s) \<and>
     unix now \<le> fs_Exp s"
  (is "?L \<longleftrightarrow> ?R")
proof
  assume l: ?L
  then obtain body dot where ck: "ck = fa_prefix @ body" and dot: "IndexByte body CHR ''.'' = Some dot"
    by (auto simp: verifySession_def HasPrefix_iff Let_def split: if_splits option.splits)
  let ?p = "take dot body" and ?s = "drop (Suc dot) body"
  have "body = ?p @ ''.'' @ ?s" "CHR ''.'' \<notin> set ?p"
    using IndexByte_split [OF dot] IndexByte_Some [OF dot] by simp_all
  with l ck dot show ?R
    by (auto simp: verifySession_def Let_def split: if_splits option.splits)
next
  assume ?R
  then obtain p sg payload where "ck = fa_prefix @ p @ ''.'' @ sg" "CHR ''.'' \<notin> set p" "b64d p = Some payload"
    "b64d sg = Some (fa_hmacSum F (fm_key m) payload)" "fl_unmarshal F payload = Some s" "unix now \<le> fs_Exp s"
    by blast
  then show ?L
    using IndexByte_append [of "CHR ''.''" p sg] by (auto simp: verifySession_def Let_def)
qed

lemma verify_signed:
  assumes "fl_unmarshal F payload = Some s"
  shows "verifySession F now m (fa_prefix @ b64 payload @ ''.'' @ b64 (fa_hmacSum F (fm_key m) payload)) =
     (if fs_Exp s < unix now then Inl ErrExpiredSession else Inr s)"
  using assms IndexByte_body [of payload]
  by (simp add: verifySession_def Let_def b64d_def b64_def)

section \<open>Identity headers\<close>

lemma canonical_identity [simp]:
  "CanonicalHeaderKey UserHeader = UserHeader" "CanonicalHeaderKey GroupHeader = GroupHeader"
  "UserHeader \<noteq> GroupHeader"
  by (simp_all add: UserHeader_def GroupHeader_def CanonicalHeaderKey_def isTokenByte_def upperByte_def lowerByte_def)

lemma Strip_lines:
  "(k, v) \<in> set (hdr_lines (rq_Header (StripIdentityHeaders r))) \<longleftrightarrow>
     k \<noteq> UserHeader \<and> k \<noteq> GroupHeader \<and> (k, v) \<in> set (hdr_lines (rq_Header r))"
  by (auto simp: StripIdentityHeaders_def hdr_Del_lines)

text \<open>What JSON promises for sessions: plain (ASCII) strings and a 64-bit expiry are read back as written.\<close>

definition sess_plain :: "fa_session \<Rightarrow> bool" where
  "sess_plain s \<longleftrightarrow> list_all isAscii (fs_User s) \<and> list_all (list_all isAscii) (fs_Groups s) \<and>
     - (2 ^ 63) \<le> fs_Exp s \<and> fs_Exp s < 2 ^ 63"

definition json_sessions :: "falib \<Rightarrow> bool" where
  "json_sessions F \<longleftrightarrow>
     (\<forall>s p. sess_plain s \<and> fl_marshal F s = Some p \<longrightarrow> fl_unmarshal F p = Some s)"

text \<open>
  Property C40. The session cookie: signing a session for a user gives a cookie that verifies to that user and
  those groups until the manager's lifetime has passed and is expired afterwards (given that JSON reads back what it
  wrote); and whatever verifies carries a MAC made with the manager's key and has not expired.
\<close>

theorem session_cookie:
  assumes sign: "signSession F now m user groups = Some ck"
    and json: "json_sessions F"
    and plain: "sess_plain \<lparr>fs_User = user, fs_Groups = groups, fs_Exp = unix (now + fm_ttl m)\<rparr>"
  shows "verifySession F t m ck =
       (if unix (now + fm_ttl m) < unix t then Inl ErrExpiredSession
        else Inr \<lparr>fs_User = user, fs_Groups = groups, fs_Exp = unix (now + fm_ttl m)\<rparr>) \<and>
     (verifySession F t m ck' = Inr s \<longrightarrow> unix t \<le> fs_Exp s \<and>
        (\<exists>p sg payload. ck' = ''s1.'' @ p @ ''.'' @ sg \<and> DecodeString p = Some payload \<and>
           DecodeString sg = Some (fl_hmac F (fm_key m) payload) \<and> fl_unmarshal F payload = Some s))"
proof -
  let ?s = "\<lparr>fs_User = user, fs_Groups = groups, fs_Exp = unix (now + fm_ttl m)\<rparr>"
  obtain payload where m: "fl_marshal F ?s = Some payload"
    and ck: "ck = fa_prefix @ b64 payload @ ''.'' @ b64 (fa_hmacSum F (fm_key m) payload)"
    using sign by (auto simp: signSession_def split: option.splits)
  have "fl_unmarshal F payload = Some ?s" using json m plain unfolding json_sessions_def by blast
  from verify_signed [OF this] have "verifySession F t m ck =
       (if unix (now + fm_ttl m) < unix t then Inl ErrExpiredSession else Inr ?s)"
    by (simp add: ck)
  then show ?thesis
    unfolding verifySession_Inr by (auto simp: fa_prefix_def b64d_def fa_hmacSum_def)
qed

text \<open>A JSON form for sessions with one user and no groups.\<close>

definition demo_falib :: falib where
  "demo_falib = \<lparr>fl_hmac = (\<lambda>k p. k @ p),
     fl_marshal = (\<lambda>s. if fs_Groups s = [] \<and> fs_Exp s = 3600 then Some (fs_User s) else None),
     fl_unmarshal = (\<lambda>p. Some \<lparr>fs_User = p, fs_Groups = [], fs_Exp = 3600\<rparr>), fl_escape = (\<lambda>s. s)\<rparr>"

definition demo_manager :: manager where
  "demo_manager = NewManager ''k'' (Some stubAuthenticate) (3600 * 10 ^ 9)"

theorem session_cookie_witness:
  "\<exists>ck. signSession demo_falib 0 demo_manager ''ann'' [] = Some ck \<and>
     verifySession demo_falib (10 ^ 9) demo_manager ck = Inr \<lparr>fs_User = ''ann'', fs_Groups = [], fs_Exp = 3600\<rparr> \<and>
     verifySession demo_falib (3601 * 10 ^ 9) demo_manager ck = Inl ErrExpiredSession"
proof -
  have json: "json_sessions demo_falib"
    by (auto simp: json_sessions_def demo_falib_def)
  obtain ck where ck: "signSession demo_falib 0 demo_manager ''ann'' [] = Some ck"
    by (simp add: signSession_def demo_falib_def demo_manager_def NewManager_def unix_def)
  have ttl: "fm_ttl demo_manager = 3600 * 10 ^ 9" by (simp add: demo_manager_def NewManager_def)
  have plain: "sess_plain \<lparr>fs_User = ''ann'', fs_Groups = [], fs_Exp = unix (0 + fm_ttl demo_manager)\<rparr>"
    by (simp add: sess_plain_def isAscii_def unix_def ttl)
  from session_cookie [OF ck json plain, of "10 ^ 9"] session_cookie [OF ck json plain, of "3601 * 10 ^ 9"] ck ttl
  show ?thesis by (auto simp: unix_def)
qed

end
