(* ===== verification/Control.thy ===== *)
theory Control
  imports Registry Forwardauth
begin

text \<open>
  The control side of the server, \<^verbatim>\<open>internal/server/control.go\<close> and \<^verbatim>\<open>ask.go\<close>: configuration, the handshake that turns a
  connection into a registered tunnel, the end of a tunnel, public URLs, the certificate check. The
  server's state is its registry and the heap of multiplexer sessions its clients refer to. \<open>clk\<close> gives the time at each
  of the places where a handshake reads the clock: a token may expire between two of them.
\<close>

section \<open>Configuration\<close>

record config =
  cfg_Domain :: string
  cfg_ControlAddr :: string
  cfg_ProxyAddr :: string
  cfg_AskAddr :: string
  cfg_ControlTLSAddr :: string
  cfg_ControlTLS :: bool
  cfg_PublicPort :: string
  cfg_PublicScheme :: string
  cfg_MaxRequestBody :: int
  cfg_Auth :: "authenticator option"
  cfg_FA :: "manager option"
  cfg_EnrollPassword :: string
  cfg_ResponseHeaderTimeout :: int
  cfg_MuxPingInterval :: int
  cfg_MuxIdleTimeout :: int

record server =
  sv_cfg :: config
  sv_auth :: authenticator
  sv_reg :: registry
  sv_sess :: "session list"

definition handshakeTimeout :: int where "handshakeTimeout = 15 * 10 ^ 9"
definition defaultResponseHeaderTimeout :: int where "defaultResponseHeaderTimeout = 60 * 10 ^ 9"

definition orDefault :: "string \<Rightarrow> string \<Rightarrow> string" where
  "orDefault d s = (if s = [] then d else s)"

definition New ::
  "'x lib_scheme \<Rightarrow> files \<Rightarrow> (string \<Rightarrow> (string \<times> string) list option) \<Rightarrow> config \<Rightarrow> auth_err + server" where
  "New L fs json cfg =
     (let c1 = cfg\<lparr>cfg_Domain := orDefault ''localhost'' (cfg_Domain cfg),
                  cfg_ControlAddr := orDefault '':7001'' (cfg_ControlAddr cfg),
                  cfg_ProxyAddr := orDefault '':8080'' (cfg_ProxyAddr cfg),
                  cfg_PublicScheme := orDefault ''http'' (cfg_PublicScheme cfg),
                  cfg_MaxRequestBody := (if cfg_MaxRequestBody cfg \<le> 0 then 32 * 2 ^ 20 else cfg_MaxRequestBody cfg),
                  cfg_ResponseHeaderTimeout := (if cfg_ResponseHeaderTimeout cfg \<le> 0
                     then defaultResponseHeaderTimeout else cfg_ResponseHeaderTimeout cfg)\<rparr>
      in bindE (case cfg_Auth c1 of Some a \<Rightarrow> Inr a | None \<Rightarrow> NewAuthenticator L fs json [] []) (\<lambda>a.
           Inr \<lparr>sv_cfg = c1\<lparr>cfg_Auth := Some a\<rparr>, sv_auth = a, sv_reg = NewRegistry, sv_sess = []\<rparr>))"

definition tlsEnabled :: "config \<Rightarrow> bool" where
  "tlsEnabled c \<longleftrightarrow> cfg_ControlTLS c \<and> cfg_ControlTLSAddr c \<noteq> []"

text \<open>\<^verbatim>\<open>Bind\<close>: which listeners are open afterwards, given which addresses can be listened on.\<close>

record listeners =
  ln_control :: bool
  ln_controlTLS :: bool
  ln_proxy :: bool
  ln_ask :: bool

datatype bind_err = BindControl | BindControlTLS | BindProxy | BindAsk

definition Bind :: "(string \<Rightarrow> bool) \<Rightarrow> config \<Rightarrow> listeners \<Rightarrow> bind_err option \<times> listeners" where
  "Bind can c ln =
     (if ln_control ln then (None, ln)
      else if \<not> can (cfg_ControlAddr c) then (Some BindControl, ln)
      else let l1 = ln\<lparr>ln_control := True\<rparr>
      in if tlsEnabled c \<and> \<not> can (cfg_ControlTLSAddr c) then (Some BindControlTLS, l1\<lparr>ln_control := False\<rparr>)
         else let l2 = (if tlsEnabled c then l1\<lparr>ln_controlTLS := True\<rparr> else l1)
         in if \<not> can (cfg_ProxyAddr c) then (Some BindProxy, l2\<lparr>ln_control := False, ln_controlTLS := False\<rparr>)
            else let l3 = l2\<lparr>ln_proxy := True\<rparr>
            in if cfg_AskAddr c = [] then (None, l3)
               else if \<not> can (cfg_AskAddr c)
                    then (Some BindAsk, l3\<lparr>ln_control := False, ln_controlTLS := False, ln_proxy := False\<rparr>)
                    else (None, l3\<lparr>ln_ask := True\<rparr>))"

section \<open>Names and URLs\<close>

definition subAlphabet :: string where
  "subAlphabet = ''abcdefghijklmnopqrstuvwxyz0123456789''"

primrec subDigits :: "nat \<Rightarrow> u32 \<Rightarrow> string" where
  "subDigits 0 n = []"
| "subDigits (Suc k) n = subAlphabet ! unat (n mod 36) # subDigits k (n div 36)"

definition randomSubdomain :: "u32 \<Rightarrow> string" where
  "randomSubdomain n = subDigits 6 n"

definition publicPort :: "config \<Rightarrow> string" where
  "publicPort c =
     (if cfg_PublicPort c = []
      then (case SplitHostPort (cfg_ProxyAddr c) of Some (h, p) \<Rightarrow> p | None \<Rightarrow> [])
      else cfg_PublicPort c)"

definition publicHost :: "config \<Rightarrow> string \<Rightarrow> string" where
  "publicHost c sub =
     (let host = (if sub = [] then cfg_Domain c else sub @ ''.'' @ cfg_Domain c);
          port = publicPort c
      in if cfg_PublicScheme c = ''http'' \<and> port \<noteq> ''80'' \<and> port \<noteq> [] then host @ '':'' @ port
         else if cfg_PublicScheme c = ''https'' \<and> port \<noteq> ''443'' \<and> port \<noteq> [] then host @ '':'' @ port
         else host)"

definition publicURL :: "config \<Rightarrow> string \<Rightarrow> string" where
  "publicURL c sub = cfg_PublicScheme c @ ''://'' @ publicHost c sub"

section \<open>The handshake\<close>

datatype refusal = RefVersion int | RefAuth auth_err | RefNoProvider | RefTaken | RefNoName

record ctl_lib = lib +
  k_hello :: "string \<Rightarrow> hello option"
  k_ack :: "ack \<Rightarrow> string option"
  k_text :: "refusal \<Rightarrow> string"

datatype hs_result =
    HsRead msg_err
  | HsNotHello string
  | HsRejected refusal
  | HsAckFailed msg_err nat
  | HsUp nat

definition refusalAck :: "'x ctl_lib_scheme \<Rightarrow> refusal \<Rightarrow> string \<Rightarrow> ack" where
  "refusalAck L why code =
     \<lparr>a_Type = TypeAck, a_OK = False, a_Subdomain = [], a_PublicURL = [], a_Error = k_text L why, a_Code = code\<rparr>"

definition rejectCode ::
  "'x ctl_lib_scheme \<Rightarrow> refusal \<Rightarrow> string \<Rightarrow> writer \<Rightarrow> server \<Rightarrow> hs_result \<times> writer \<times> server" where
  "rejectCode L why code w s =
     (HsRejected why, (snd (WriteMessage (k_ack L) (refusalAck L why code) w))\<lparr>w_closed := True\<rparr>, s)"

definition reject :: "'x ctl_lib_scheme \<Rightarrow> refusal \<Rightarrow> writer \<Rightarrow> server \<Rightarrow> hs_result \<times> writer \<times> server" where
  "reject L why w s = rejectCode L why [] w s"

definition codeFor :: "auth_err \<Rightarrow> string" where
  "codeFor e = (case e of ErrTLSRequired n \<Rightarrow> CodeTLSRequired | _ \<Rightarrow> [])"

text \<open>
  The allocation loop: at most \<open>n\<close> rounds; a generated name is drawn anew in each (\<open>rnd\<close>), a requested one is tried
  once. The result is the refusal of a requested name, or the client if a name was found.
\<close>

primrec allocName ::
  "nat \<Rightarrow> authenticator \<Rightarrow> (nat \<Rightarrow> u32) \<Rightarrow> (nat \<Rightarrow> nat \<Rightarrow> bool) \<Rightarrow> (nat \<Rightarrow> int) \<Rightarrow> string \<Rightarrow> nat \<Rightarrow> string \<Rightarrow> string \<Rightarrow>
     registry \<Rightarrow> (refusal + (string \<times> nat \<times> nat option) option) \<times> registry" where
  "allocName 0 a rnd stale now sub sess remote tid r = (Inr None, r)"
| "allocName (Suc n) a rnd stale now sub sess remote tid r =
     (let name = (if sub = [] then randomSubdomain (rnd n) else sub)
      in if sub = [] \<and> IsReserved a name then allocName n a rnd stale now sub sess remote tid r
         else case Register (stale n) (now n) name sess remote tid r of
                (Some (c, ev), r1) \<Rightarrow> (Inr (Some (name, c, ev)), r1)
              | (None, r1) \<Rightarrow>
                  if sub = [] then allocName n a rnd stale now sub sess remote tid r1
                  else (Inl RefTaken, r1))"

definition setProtected :: "nat \<Rightarrow> bool \<Rightarrow> registry \<Rightarrow> registry" where
  "setProtected c p r = r\<lparr>rg_heap := (rg_heap r)[c := (rg_heap r ! c)\<lparr>cl_Protected := p\<rparr>]\<rparr>"

definition closeEvicted :: "nat option \<Rightarrow> server \<Rightarrow> server" where
  "closeEvicted ev s =
     (case ev of
        None \<Rightarrow> s
      | Some k \<Rightarrow>
          let i = cl_Session (clnt (sv_reg s) k)
          in s\<lparr>sv_sess := (sv_sess s)[i := CloseWithError ErrTakenOver (sv_sess s ! i)]\<rparr>)"

text \<open>From a registered client to the running tunnel: evict, acknowledge, open for requests.\<close>

definition finishHandshake ::
  "'x ctl_lib_scheme \<Rightarrow> string \<Rightarrow> nat \<Rightarrow> nat option \<Rightarrow> nat \<Rightarrow> bool \<Rightarrow> server \<Rightarrow> hs_result \<times> server" where
  "finishHandshake L name c ev sess protected s0 =
     (let s1 = closeEvicted ev (s0\<lparr>sv_reg := setProtected c protected (sv_reg s0)\<rparr>);
          ack = \<lparr>a_Type = TypeAck, a_OK = True, a_Subdomain = name,
                 a_PublicURL = publicURL (sv_cfg s1) name, a_Error = [], a_Code = []\<rparr>
      in case WriteMessage (k_ack L) ack (s_conn (sv_sess s1 ! sess)) of
           (Some e, w1) \<Rightarrow>
             (HsAckFailed e c,
              s1\<lparr>sv_reg := markReady c (Unregister c (sv_reg s1)),
                 sv_sess := (sv_sess s1)[sess := sess_Close ((sv_sess s1 ! sess)\<lparr>s_conn := w1\<rparr>)]\<rparr>)
         | (None, w1) \<Rightarrow>
             (HsUp c,
              s1\<lparr>sv_reg := markReady c (sv_reg s1),
                 sv_sess := (sv_sess s1)[sess := (sv_sess s1 ! sess)\<lparr>s_conn := w1\<rparr>]\<rparr>))"

text \<open>
  The sessions of one server share one clock here, so the zero offset from its epoch that a new session starts with
  is the time of its creation.
\<close>

definition newTunnelSession :: "config \<Rightarrow> int \<Rightarrow> writer \<Rightarrow> session" where
  "newTunnelSession c now w =
     (NewServerSession w)\<lparr>s_lastRecv := now, s_PingInterval := cfg_MuxPingInterval c,
        s_IdleTimeout := cfg_MuxIdleTimeout c\<rparr>"

text \<open>The second half of \<^verbatim>\<open>handleControlConn\<close>: the admitted client gets a session and a name.\<close>

definition openTunnel ::
  "'x ctl_lib_scheme \<Rightarrow> (nat \<Rightarrow> int) \<Rightarrow> (nat \<Rightarrow> u32) \<Rightarrow> string \<Rightarrow> string \<Rightarrow> string \<Rightarrow> bool \<Rightarrow> writer \<Rightarrow> server \<Rightarrow>
     hs_result \<times> writer \<times> server" where
  "openTunnel L clk rnd remote tok sub protected w s =
     (let sess = length (sv_sess s);
          s1 = s\<lparr>sv_sess := sv_sess s @ [newTunnelSession (sv_cfg s) (clk 5) w]\<rparr>;
          tid = TokenID L (clk 6) (sv_auth s) tok
      in case allocName 100 (sv_auth s) rnd (\<lambda>n i. Stale (clk (7 + n)) (sv_sess s1 ! i))
                (\<lambda>n. clk (7 + n)) sub sess remote tid (sv_reg s1) of
           (res, r1) \<Rightarrow>
             (case res of
                Inl why \<Rightarrow> reject L why w (s1\<lparr>sv_reg := r1\<rparr>)
              | Inr None \<Rightarrow> reject L RefNoName w (s1\<lparr>sv_reg := r1\<rparr>)
              | Inr (Some (name, c, ev)) \<Rightarrow>
                  (case finishHandshake L name c ev sess protected (s1\<lparr>sv_reg := r1\<rparr>) of
                     (hs, s2) \<Rightarrow> (hs, s_conn (sv_sess s2 ! sess), s2))))"

text \<open>
  \<^verbatim>\<open>handleControlConn\<close> up to \<^verbatim>\<open>sess.Run\<close>. The result says how it went and gives the connection's writer. The reader, from
  which exactly the hello line was taken, is the session's from then on.
\<close>

definition handshake ::
  "'x ctl_lib_scheme \<Rightarrow> (nat \<Rightarrow> int) \<Rightarrow> (nat \<Rightarrow> u32) \<Rightarrow> bool \<Rightarrow> string \<Rightarrow> reader \<Rightarrow> writer \<Rightarrow> server \<Rightarrow>
     hs_result \<times> writer \<times> server" where
  "handshake L clk rnd overTLS remote rd w s =
     (case fst (ReadMessage (k_hello L) rd) of
        Inl e \<Rightarrow> (HsRead e, w\<lparr>w_closed := True\<rparr>, s)
      | Inr hello \<Rightarrow>
        if h_Type hello \<noteq> TypeHello then (HsNotHello (h_Type hello), w\<lparr>w_closed := True\<rparr>, s)
        else if h_Version hello \<noteq> ControlVersion then reject L (RefVersion (h_Version hello)) w s
        else case Check L (clk 0) (sv_auth s) (h_Token hello) of
          Some e \<Rightarrow> reject L (RefAuth e) w s
        | None \<Rightarrow>
          let reserved = ReservedSubdomain L (clk 1) (sv_auth s) (h_Token hello);
              sub = (if reserved \<noteq> [] then reserved
                     else NormalizeSubdomain (l_lower L) (h_Subdomain hello))
          in case CheckSubdomain L (clk 2) (sv_auth s) (h_Token hello) sub of
            Some e \<Rightarrow> reject L (RefAuth e) w s
          | None \<Rightarrow>
            (case CheckReserved L (clk 3) (sv_auth s) (h_Token hello) sub overTLS of
               Some e \<Rightarrow> rejectCode L (RefAuth e) (codeFor e) w s
             | None \<Rightarrow>
               let protected = (h_Protected hello \<or> ProtectedByToken L (clk 4) (sv_auth s) (h_Token hello))
               in if protected \<and> \<not> Enabled (cfg_FA (sv_cfg s)) then reject L RefNoProvider w s
                  else openTunnel L clk rnd remote (h_Token hello) sub protected w s))"

text \<open>What \<^verbatim>\<open>handleControlConn\<close> does when \<^verbatim>\<open>sess.Run\<close> has returned.\<close>

definition tunnelDown :: "nat \<Rightarrow> server \<Rightarrow> server" where
  "tunnelDown c s = s\<lparr>sv_reg := Unregister c (sv_reg s)\<rparr>"

section \<open>The certificate check\<close>

definition certAllowed :: "server \<Rightarrow> string \<Rightarrow> bool" where
  "certAllowed s host =
     (if host = cfg_Domain (sv_cfg s) \<or> host = ''www.'' @ cfg_Domain (sv_cfg s) then True
      else case CutSuffix host (''.'' @ cfg_Domain (sv_cfg s)) of
             None \<Rightarrow> False
           | Some sub \<Rightarrow> ValidSubdomain sub \<and> Get sub (sv_reg s) \<noteq> None)"

definition handleAsk :: "'x lib_scheme \<Rightarrow> server \<Rightarrow> request \<Rightarrow> reply" where
  "handleAsk L s r =
     (if rq_Path r \<noteq> ''/check'' then NotFoundReply
      else let domain = ToLower (l_lower L) (QueryGet r ''domain'')
           in if \<not> certAllowed s domain then mkReply 403 (PlainText (''no live tunnel for '' @ domain))
              else mkReply 200 NoBody)"

end
