(* ===== verification/Control_Props.thy ===== *)
theory Control_Props
  imports Control
begin

text \<open>
  What the control side guarantees: who gets which name, that a refused handshake changes nothing, that the ack is on
  the wire before any frame, and the invariant of the server's state over everything that can happen to it.
\<close>

section \<open>Allocation\<close>

lemma allocName_res:
  "allocName n a rnd stale now sub sess remote tid r = (res, r') \<Longrightarrow>
   (case res of
      Inl why \<Rightarrow> why = RefTaken \<and> sub \<noteq> [] \<and> r' = r
    | Inr None \<Rightarrow> r' = r
    | Inr (Some (name, c, ev)) \<Rightarrow>
        (\<exists>k < n. Register (stale k) (now k) name sess remote tid r = (Some (c, ev), r')) \<and>
        (if sub = [] then \<not> IsReserved a name \<and> (\<exists>x. name = randomSubdomain x) else name = sub))"
proof (induction n)
  case (Suc n)
  define name where "name = (if sub = [] then randomSubdomain (rnd n) else sub)"
  obtain reg r1 where R: "Register (stale n) (now n) name sess remote tid r = (reg, r1)" by fastforce
  have none: "reg = None \<Longrightarrow> r1 = r" using R Register_None by blast
  have eq: "allocName (Suc n) a rnd stale now sub sess remote tid r =
      (if sub = [] \<and> IsReserved a name then allocName n a rnd stale now sub sess remote tid r
       else case reg of
              Some (c, ev) \<Rightarrow> (Inr (Some (name, c, ev)), r1)
            | None \<Rightarrow> if sub = [] then allocName n a rnd stale now sub sess remote tid r1 else (Inl RefTaken, r1))"
    by (simp add: Let_def R flip: name_def)
  have IH: "allocName n a rnd stale now sub sess remote tid r = (res, r') \<Longrightarrow> ?case"
    using Suc.IH by (auto intro: less_SucI split: sum.splits option.splits)
  consider "allocName n a rnd stale now sub sess remote tid r = (res, r')"
    | "reg = None" "sub \<noteq> []" "res = Inl RefTaken" "r' = r1"
    | c ev where "\<not> (sub = [] \<and> IsReserved a name)" "reg = Some (c, ev)" "res = Inr (Some (name, c, ev))" "r' = r1"
    using Suc.prems none unfolding eq by (auto split: if_splits option.splits)
  then show ?case
  proof cases
    case 3
    with R show ?thesis by (auto simp: name_def)
  qed (use IH none in simp_all)
qed auto

lemma allocName_requested:
  "sub \<noteq> [] \<Longrightarrow> allocName (Suc n) a rnd stale now sub sess remote tid r =
     (case Register (stale n) (now n) sub sess remote tid r of
        (Some (c, ev), r1) \<Rightarrow> (Inr (Some (sub, c, ev)), r1)
      | (None, r1) \<Rightarrow> (Inl RefTaken, r1))"
  by (simp add: Let_def split: option.splits prod.splits)

section \<open>The handshake, taken apart\<close>

definition hs_sub :: "'x lib_scheme \<Rightarrow> (nat \<Rightarrow> int) \<Rightarrow> server \<Rightarrow> hello \<Rightarrow> string" where
  "hs_sub L clk s h =
     (let reserved = ReservedSubdomain L (clk 1) (sv_auth s) (h_Token h)
      in if reserved \<noteq> [] then reserved else NormalizeSubdomain (l_lower L) (h_Subdomain h))"

definition hs_protected :: "'x lib_scheme \<Rightarrow> (nat \<Rightarrow> int) \<Rightarrow> server \<Rightarrow> hello \<Rightarrow> bool" where
  "hs_protected L clk s h \<longleftrightarrow> h_Protected h \<or> ProtectedByToken L (clk 4) (sv_auth s) (h_Token h)"

definition hs_admitted :: "'x lib_scheme \<Rightarrow> (nat \<Rightarrow> int) \<Rightarrow> bool \<Rightarrow> server \<Rightarrow> hello \<Rightarrow> bool" where
  "hs_admitted L clk overTLS s h \<longleftrightarrow>
     h_Type h = TypeHello \<and> h_Version h = ControlVersion \<and>
     Check L (clk 0) (sv_auth s) (h_Token h) = None \<and>
     CheckSubdomain L (clk 2) (sv_auth s) (h_Token h) (hs_sub L clk s h) = None \<and>
     CheckReserved L (clk 3) (sv_auth s) (h_Token h) (hs_sub L clk s h) overTLS = None \<and>
     (hs_protected L clk s h \<longrightarrow> Enabled (cfg_FA (sv_cfg s)))"

text \<open>The code that goes with a refusal.\<close>

definition refusalCode :: "refusal \<Rightarrow> string" where
  "refusalCode why = (case why of RefAuth e \<Rightarrow> codeFor e | _ \<Rightarrow> [])"

text \<open>The handshake as a decision over these parts.\<close>

lemma handshake_admitted:
  assumes "fst (ReadMessage (k_hello L) rd) = Inr h" and "hs_admitted L clk overTLS s h"
  shows "handshake L clk rnd overTLS remote rd w s =
     openTunnel L clk rnd remote (h_Token h) (hs_sub L clk s h) (hs_protected L clk s h) w s"
  using assms(2)
  by (auto simp: handshake_def assms(1) hs_admitted_def hs_sub_def hs_protected_def Let_def)

lemma handshake_not_admitted:
  assumes rm: "fst (ReadMessage (k_hello L) rd) = Inr h" and no: "\<not> hs_admitted L clk overTLS s h"
  shows "handshake L clk rnd overTLS remote rd w s = (HsNotHello (h_Type h), w\<lparr>w_closed := True\<rparr>, s) \<or>
     (\<exists>why. handshake L clk rnd overTLS remote rd w s = rejectCode L why (refusalCode why) w s)"
proof -
  let ?h = "handshake L clk rnd overTLS remote rd w s" and ?a = "sv_auth s" and ?t = "h_Token h"
  let ?sub = "hs_sub L clk s h"
  note sub = hs_sub_def [of L clk s h, unfolded Let_def]
  note unf = handshake_def rm sum.case Let_def hs_protected_def [symmetric] sub [symmetric]
  consider "h_Type h \<noteq> TypeHello" | "h_Type h = TypeHello" "h_Version h \<noteq> ControlVersion"
    | e where "h_Type h = TypeHello" "h_Version h = ControlVersion" "Check L (clk 0) ?a ?t = Some e"
    | e where "h_Type h = TypeHello" "h_Version h = ControlVersion" "Check L (clk 0) ?a ?t = None"
        "CheckSubdomain L (clk 2) ?a ?t ?sub = Some e"
    | e where "h_Type h = TypeHello" "h_Version h = ControlVersion" "Check L (clk 0) ?a ?t = None"
        "CheckSubdomain L (clk 2) ?a ?t ?sub = None" "CheckReserved L (clk 3) ?a ?t ?sub overTLS = Some e"
    | "h_Type h = TypeHello" "h_Version h = ControlVersion" "Check L (clk 0) ?a ?t = None"
        "CheckSubdomain L (clk 2) ?a ?t ?sub = None" "CheckReserved L (clk 3) ?a ?t ?sub overTLS = None"
        "hs_protected L clk s h" "\<not> Enabled (cfg_FA (sv_cfg s))"
    using no unfolding hs_admitted_def by (metis option.exhaust)
  moreover have chk: "Check L (clk 0) ?a ?t = Some e \<Longrightarrow> codeFor e = []" for e
    by (auto simp: Check_def codeFor_def split: if_splits sum.splits)
  moreover have sub: "CheckSubdomain L (clk 2) ?a ?t ?sub = Some e \<Longrightarrow> codeFor e = []" for e
    by (auto simp: CheckSubdomain_def codeFor_def split: if_splits sum.splits option.splits)
  ultimately consider "?h = (HsNotHello (h_Type h), w\<lparr>w_closed := True\<rparr>, s)"
    | "?h = reject L (RefVersion (h_Version h)) w s" | e where "?h = reject L (RefAuth e) w s" "codeFor e = []"
    | e where "?h = rejectCode L (RefAuth e) (codeFor e) w s" | "?h = reject L RefNoProvider w s"
    by cases (unfold unf, auto)
  then show ?thesis
  proof cases
    case (3 e)
    then have "?h = rejectCode L (RefAuth e) (refusalCode (RefAuth e)) w s" by (simp add: reject_def refusalCode_def)
    then show ?thesis by blast
  qed (auto simp: reject_def refusalCode_def intro: exI [of _ "RefAuth _"] exI [of _ "RefVersion _"] exI [of _ RefNoProvider])
qed

text \<open>Where opening the tunnel ends.\<close>

lemma openTunnel_cases:
  fixes L clk rnd remote tok sub protected w s
  defines "s1 \<equiv> s\<lparr>sv_sess := sv_sess s @ [newTunnelSession (sv_cfg s) (clk 5) w]\<rparr>"
  obtains why where "openTunnel L clk rnd remote tok sub protected w s = reject L why w s1"
      "why = RefTaken \<or> why = RefNoName"
  | name c ev k r1 hs s2 where
      "Register (\<lambda>i. Stale (clk (7 + k)) (sv_sess s1 ! i)) (clk (7 + k)) name (length (sv_sess s)) remote
         (TokenID L (clk 6) (sv_auth s) tok) (sv_reg s) = (Some (c, ev), r1)"
      "if sub = [] then \<not> IsReserved (sv_auth s) name \<and> (\<exists>x. name = randomSubdomain x) else name = sub"
      "finishHandshake L name c ev (length (sv_sess s)) protected (s1\<lparr>sv_reg := r1\<rparr>) = (hs, s2)"
      "openTunnel L clk rnd remote tok sub protected w s = (hs, s_conn (sv_sess s2 ! length (sv_sess s)), s2)"
proof -
  let ?sess = "length (sv_sess s)" and ?tid = "TokenID L (clk 6) (sv_auth s) tok"
  obtain res r1 where al: "allocName 100 (sv_auth s) rnd (\<lambda>n i. Stale (clk (7 + n)) (sv_sess s1 ! i))
      (\<lambda>n. clk (7 + n)) sub ?sess remote ?tid (sv_reg s1) = (res, r1)" by fastforce
  have eq: "openTunnel L clk rnd remote tok sub protected w s =
      (case res of
         Inl why \<Rightarrow> reject L why w (s1\<lparr>sv_reg := r1\<rparr>)
       | Inr None \<Rightarrow> reject L RefNoName w (s1\<lparr>sv_reg := r1\<rparr>)
       | Inr (Some (name, c, ev)) \<Rightarrow>
           (case finishHandshake L name c ev ?sess protected (s1\<lparr>sv_reg := r1\<rparr>) of
              (hs, s2) \<Rightarrow> (hs, s_conn (sv_sess s2 ! ?sess), s2)))"
    using al unfolding openTunnel_def Let_def s1_def by simp
  have same: "sv_reg s1 = sv_reg s" "s1\<lparr>sv_reg := sv_reg s\<rparr> = s1" by (simp_all add: s1_def)
  consider why where "res = Inl why" | "res = Inr None" | name c ev where "res = Inr (Some (name, c, ev))"
    by (metis old.sum.exhaust option.exhaust prod_cases3)
  then show thesis
  proof cases
    case (1 why)
    with allocName_res [OF al] eq same that(1) [of why] show ?thesis by simp
  next
    case 2
    with allocName_res [OF al] eq same that(1) [of RefNoName] show ?thesis by simp
  next
    case (3 name c ev)
    obtain hs s2 where f: "finishHandshake L name c ev ?sess protected (s1\<lparr>sv_reg := r1\<rparr>) = (hs, s2)" by fastforce
    obtain k where "Register (\<lambda>i. Stale (clk (7 + k)) (sv_sess s1 ! i)) (clk (7 + k)) name ?sess remote ?tid (sv_reg s) =
        (Some (c, ev), r1)"
      "if sub = [] then \<not> IsReserved (sv_auth s) name \<and> (\<exists>x. name = randomSubdomain x) else name = sub"
      using allocName_res [OF al] 3 same by auto
    with that(2) [of k name c ev r1 hs s2] f eq 3 show ?thesis by simp
  qed
qed

section \<open>Steps that keep what matters of the registry\<close>

definition reg_sim :: "registry \<Rightarrow> registry \<Rightarrow> bool" where
  "reg_sim r r' \<longleftrightarrow> rg_clients r' = rg_clients r \<and> rg_log r' = rg_log r \<and> length (rg_heap r') = length (rg_heap r) \<and>
     (\<forall>k. cl_Subdomain (clnt r' k) = cl_Subdomain (clnt r k) \<and> cl_Session (clnt r' k) = cl_Session (clnt r k) \<and>
        cl_TokenID (clnt r' k) = cl_TokenID (clnt r k))"

lemma heap_update_sim:
  assumes "\<And>x. cl_Subdomain (f x) = cl_Subdomain x \<and> cl_Session (f x) = cl_Session x \<and> cl_TokenID (f x) = cl_TokenID x"
  shows "reg_sim r (r\<lparr>rg_heap := (rg_heap r)[c := f (rg_heap r ! c)]\<rparr>)"
proof -
  have "cl_Subdomain ((rg_heap r)[c := f (rg_heap r ! c)] ! k) = cl_Subdomain (rg_heap r ! k) \<and>
      cl_Session ((rg_heap r)[c := f (rg_heap r ! c)] ! k) = cl_Session (rg_heap r ! k) \<and>
      cl_TokenID ((rg_heap r)[c := f (rg_heap r ! c)] ! k) = cl_TokenID (rg_heap r ! k)" for k
    using assms by (cases "c < length (rg_heap r)") (auto simp: nth_list_update list_update_beyond)
  then show ?thesis by (simp add: reg_sim_def clnt_def)
qed

lemma reg_sims: "reg_sim r (markReady c r)" "reg_sim r (setProtected c p r)"
  unfolding markReady_def setProtected_def by (rule heap_update_sim; simp)+

lemma reg_sim_Get: "reg_sim r r' \<Longrightarrow> Get m r' = Get m r"
  by (simp add: reg_sim_def Get_def)

lemma reg_sim_ok: "reg_sim r r' \<Longrightarrow> reg_ok r \<Longrightarrow> reg_ok r'"
  unfolding reg_sim_def reg_ok_def by auto

section \<open>The server's invariant\<close>

definition hold_ok :: "authenticator \<Rightarrow> registry \<Rightarrow> bool" where
  "hold_ok a r \<longleftrightarrow>
     (\<forall>name c ids. Get name r = Some c \<and> map_of (au_reservedNames a) name = Some ids \<longrightarrow>
        cl_TokenID (clnt r c) = [] \<or> cl_TokenID (clnt r c) \<in> set ids)"

definition server_ok :: "server \<Rightarrow> bool" where
  "server_ok s \<longleftrightarrow>
     reg_ok (sv_reg s) \<and> list_all sess_ok (sv_sess s) \<and>
     (\<forall>c < length (rg_heap (sv_reg s)). cl_Session (clnt (sv_reg s) c) < length (sv_sess s)) \<and>
     hold_ok (sv_auth s) (sv_reg s)"

lemma reg_sim_hold: "reg_sim r r' \<Longrightarrow> hold_ok a r \<Longrightarrow> hold_ok a r'"
  by (simp add: hold_ok_def reg_sim_Get) (simp add: reg_sim_def)

lemma hold_ok_Unregister: "hold_ok a r \<Longrightarrow> hold_ok a (Unregister c r)"
  by (auto simp: hold_ok_def Get_Unregister Unregister_clnt split: option.splits if_splits)

lemma Unregister_heap [simp]: "rg_heap (Unregister c r) = rg_heap r"
  by (simp add: Unregister_def onChange_def Let_def split: option.splits)

lemma server_ok_reg:
  assumes "server_ok s" and "reg_ok r" and "length (rg_heap r) = length (rg_heap (sv_reg s))"
    and "\<And>k. cl_Session (clnt r k) = cl_Session (clnt (sv_reg s) k)" and "hold_ok (sv_auth s) r"
  shows "server_ok (s\<lparr>sv_reg := r\<rparr>)"
  using assms by (simp add: server_ok_def)

lemma server_ok_sim:
  assumes "server_ok s" and "reg_sim (sv_reg s) r"
  shows "server_ok (s\<lparr>sv_reg := r\<rparr>)"
proof (rule server_ok_reg [OF assms(1)])
  show "reg_ok r" "hold_ok (sv_auth s) r"
    using assms reg_sim_ok reg_sim_hold by (auto simp: server_ok_def)
qed (use assms(2) in \<open>simp_all add: reg_sim_def\<close>)

lemma server_ok_Unregister: "server_ok s \<Longrightarrow> server_ok (s\<lparr>sv_reg := Unregister c (sv_reg s)\<rparr>)"
  by (rule server_ok_reg) (simp_all add: server_ok_def Unregister_ok hold_ok_Unregister Unregister_clnt)

lemma server_ok_sess:
  assumes "server_ok s" and "i < length (sv_sess s) \<Longrightarrow> sess_ok x"
  shows "server_ok (s\<lparr>sv_sess := (sv_sess s)[i := x]\<rparr>)"
  using assms
  by (cases "i < length (sv_sess s)")
     (auto simp: server_ok_def list_all_nth_update list_update_beyond)

lemma server_ok_nth: "server_ok s \<Longrightarrow> i < length (sv_sess s) \<Longrightarrow> sess_ok (sv_sess s ! i)"
  by (simp add: server_ok_def list_all_length)

lemma closeEvicted_ok: "server_ok s \<Longrightarrow> server_ok (closeEvicted ev s)"
  by (cases ev) (auto simp: closeEvicted_def Let_def intro!: server_ok_sess CloseWithError_ok server_ok_nth)

lemma closeEvicted_same [simp]:
  "sv_reg (closeEvicted ev s) = sv_reg s" "sv_cfg (closeEvicted ev s) = sv_cfg s"
  "sv_auth (closeEvicted ev s) = sv_auth s" "length (sv_sess (closeEvicted ev s)) = length (sv_sess s)"
  by (simp_all add: closeEvicted_def Let_def split: option.splits)

lemma WriteMessage_closed: "w_closed (snd (WriteMessage enc v w)) = w_closed w"
  using w_write_closed by (auto simp: WriteMessage_def split: option.splits prod.splits) (metis snd_conv)+

lemma sess_ok_conn: "sess_ok x \<Longrightarrow> w_closed w = w_closed (s_conn x) \<Longrightarrow> sess_ok (x\<lparr>s_conn := w\<rparr>)"
  by (erule sess_ok_same) simp_all

lemma newTunnelSession_ok: "\<not> w_closed w \<Longrightarrow> sess_ok (newTunnelSession c now w)"
  unfolding newTunnelSession_def by (rule sess_ok_same [OF new_sessions_ok(1)]) simp_all

lemma finishHandshake_ok:
  assumes "server_ok s0" and "i < length (sv_sess s0)"
    and "finishHandshake L name c ev i protected s0 = (hs, s')"
  shows "server_ok s' \<and> sv_auth s' = sv_auth s0 \<and> sv_cfg s' = sv_cfg s0"
proof -
  define s1 where "s1 = closeEvicted ev (s0\<lparr>sv_reg := setProtected c protected (sv_reg s0)\<rparr>)"
  define ack where "ack = \<lparr>a_Type = TypeAck, a_OK = True, a_Subdomain = name,
      a_PublicURL = publicURL (sv_cfg s1) name, a_Error = [], a_Code = []\<rparr>"
  obtain e w1 where W: "WriteMessage (k_ack L) ack (s_conn (sv_sess s1 ! i)) = (e, w1)" by fastforce
  have ok1: "server_ok s1" and i: "i < length (sv_sess s1)"
    using assms(1,2) by (simp_all add: s1_def closeEvicted_ok server_ok_sim reg_sims)
  have w1: "w_closed w1 = w_closed (s_conn (sv_sess s1 ! i))"
    using WriteMessage_closed [of "k_ack L" ack "s_conn (sv_sess s1 ! i)"] W by simp
  let ?x = "(sv_sess s1 ! i)\<lparr>s_conn := w1\<rparr>"
  have x: "sess_ok ?x" using server_ok_nth [OF ok1 i] w1 by (rule sess_ok_conn)
  have upd: "server_ok (s1\<lparr>sv_reg := r\<rparr>) \<Longrightarrow> sess_ok y \<Longrightarrow>
      server_ok (s1\<lparr>sv_reg := r, sv_sess := (sv_sess s1)[i := y]\<rparr>)" for r y
    using server_ok_sess [of "s1\<lparr>sv_reg := r\<rparr>" i y] by simp
  have "server_ok (s1\<lparr>sv_reg := markReady c (Unregister c (sv_reg s1))\<rparr>)"
    using server_ok_sim [OF server_ok_Unregister [OF ok1, of c], of "markReady c (Unregister c (sv_reg s1))"] reg_sims
    by simp
  moreover have "sess_ok (sess_Close ?x)" by (simp add: sess_Close_def CloseWithError_ok x)
  ultimately have "server_ok (s1\<lparr>sv_reg := markReady c (Unregister c (sv_reg s1)),
      sv_sess := (sv_sess s1)[i := sess_Close ?x]\<rparr>)" by (rule upd)
  moreover have "server_ok (s1\<lparr>sv_reg := markReady c (sv_reg s1), sv_sess := (sv_sess s1)[i := ?x]\<rparr>)"
    using server_ok_sim [OF ok1 reg_sims(1)] x by (rule upd)
  moreover have "sv_auth s1 = sv_auth s0" "sv_cfg s1 = sv_cfg s0" by (simp_all add: s1_def)
  moreover have "finishHandshake L name c ev i protected s0 =
      (case e of
         Some er \<Rightarrow> (HsAckFailed er c, s1\<lparr>sv_reg := markReady c (Unregister c (sv_reg s1)),
           sv_sess := (sv_sess s1)[i := sess_Close ?x]\<rparr>)
       | None \<Rightarrow> (HsUp c, s1\<lparr>sv_reg := markReady c (sv_reg s1), sv_sess := (sv_sess s1)[i := ?x]\<rparr>))"
    unfolding finishHandshake_def Let_def s1_def [symmetric] ack_def [symmetric] W by (simp split: option.splits)
  ultimately show ?thesis
    using assms(3) by (cases e) auto
qed

lemma Register_server_ok:
  assumes ok: "server_ok s" and "\<not> w_closed w"
    and s1: "s1 = s\<lparr>sv_sess := sv_sess s @ [newTunnelSession cfg now w]\<rparr>"
    and R: "Register stale t name (length (sv_sess s)) remote tid (sv_reg s) = (Some (c, ev), r1)"
    and gate: "\<And>ids. map_of (au_reservedNames (sv_auth s)) name = Some ids \<Longrightarrow> tid = [] \<or> tid \<in> set ids"
  shows "server_ok (s1\<lparr>sv_reg := r1\<rparr>)"
proof -
  note RS = Register_Some [OF R]
  have reg: "reg_ok (sv_reg s)" using ok by (simp add: server_ok_def)
  have r1: "reg_ok r1" using Register_ok [OF reg R] .
  have heap: "clnt r1 k = (if k < length (rg_heap (sv_reg s)) then clnt (sv_reg s) k else clnt r1 k)" for k
    by (simp add: clnt_def RS(3) nth_append)
  have "hold_ok (sv_auth s) r1"
  proof (unfold hold_ok_def, intro allI impI)
    fix n k ids
    assume g: "Get n r1 = Some k \<and> map_of (au_reservedNames (sv_auth s)) n = Some ids"
    show "cl_TokenID (clnt r1 k) = [] \<or> cl_TokenID (clnt r1 k) \<in> set ids"
    proof (cases "n = name")
      case True
      with g RS have "clnt r1 k = \<lparr>cl_Subdomain = name, cl_Session = length (sv_sess s), cl_RemoteAddr = remote,
        cl_ConnectedAt = t, cl_Protected = False, cl_TokenID = tid, cl_ready = False\<rparr>"
        by (auto simp: Get_def go_map_simps clnt_def nth_append)
      with gate g True show ?thesis by simp
    next
      case False
      with g RS(4) have old: "Get n (sv_reg s) = Some k" by (simp add: Get_def go_map_simps)
      then have "clnt r1 k = clnt (sv_reg s) k"
        using Get_ok [OF reg old] heap [of k] by simp
      with old g ok show ?thesis by (auto simp: server_ok_def hold_ok_def)
    qed
  qed
  moreover have "\<forall>k < length (rg_heap r1). cl_Session (clnt r1 k) < length (sv_sess s1)"
    using ok by (auto simp: RS(3) s1 server_ok_def clnt_def nth_append less_Suc_eq)
  moreover have "list_all sess_ok (sv_sess s1)"
    using ok newTunnelSession_ok [OF assms(2)] by (simp add: s1 server_ok_def)
  ultimately show ?thesis using r1 by (simp add: server_ok_def s1)
qed

lemma server_ok_extra:
  "server_ok s \<Longrightarrow> sess_ok x \<Longrightarrow> server_ok (s\<lparr>sv_sess := sv_sess s @ [x]\<rparr>)"
  by (auto simp: server_ok_def less_SucI)

text \<open>A token's id is the same whenever it has one.\<close>

lemma TokenID_time: "TokenID L t a tok \<noteq> [] \<Longrightarrow> TokenID L t' a tok = [] \<or> TokenID L t' a tok = TokenID L t a tok"
proof -
  assume "TokenID L t a tok \<noteq> []"
  then obtain c where c: "Parse L t (au_signing a) tok = Inr c" "TokenID L t a tok = c_ID c" "isSigned a tok"
      "c_ID c \<notin> set (au_revoked a)"
    by (auto simp: TokenID_def split: if_splits sum.splits)
  have "Parse L t' (au_signing a) tok = Inr c' \<Longrightarrow> c' = c" for c'
    using c(1) by (rule Parse_time)
  with c show ?thesis by (auto simp: TokenID_def split: sum.splits)
qed

lemma openTunnel_ok:
  assumes ok: "server_ok s" and w: "\<not> w_closed w"
    and gate: "\<And>ids. map_of (au_reservedNames (sv_auth s)) sub = Some ids \<Longrightarrow>
          TokenID L t (sv_auth s) tok \<noteq> [] \<and> TokenID L t (sv_auth s) tok \<in> set ids"
    and run: "openTunnel L clk rnd remote tok sub protected w s = (hs, w', s')"
  shows "server_ok s' \<and> sv_auth s' = sv_auth s \<and> sv_cfg s' = sv_cfg s"
proof (cases rule: openTunnel_cases [of L clk rnd remote tok sub protected w s])
  case (1 why)
  with run server_ok_extra [OF ok newTunnelSession_ok [OF w]] show ?thesis
    by (auto simp: reject_def rejectCode_def)
next
  case (2 name c ev k r1 hs2 s2)
  let ?s1 = "s\<lparr>sv_sess := sv_sess s @ [newTunnelSession (sv_cfg s) (clk 5) w]\<rparr>"
  let ?tid = "TokenID L (clk 6) (sv_auth s) tok"
  have "?tid = [] \<or> ?tid \<in> set ids" if m: "map_of (au_reservedNames (sv_auth s)) name = Some ids" for ids
  proof (cases "sub = []")
    case True
    with 2(2) m show ?thesis by (simp add: IsReserved_def)
  next
    case False
    with 2(2) m have "TokenID L t (sv_auth s) tok \<noteq> []" "TokenID L t (sv_auth s) tok \<in> set ids"
      using gate by simp_all
    then show ?thesis using TokenID_time [of L t "sv_auth s" tok "clk 6"] by auto
  qed
  from Register_server_ok [OF ok w refl 2(1) this] have "server_ok (?s1\<lparr>sv_reg := r1\<rparr>)" .
  from finishHandshake_ok [OF this _ 2(3)] run 2(4) show ?thesis by simp
qed

lemma CheckReserved_id:
  "CheckReserved L t a tok name tls = None \<Longrightarrow> map_of (au_reservedNames a) name = Some ids \<Longrightarrow>
   TokenID L t a tok \<noteq> [] \<and> TokenID L t a tok \<in> set ids"
  by (auto simp: CheckReserved_def Let_def split: if_splits)

lemma handshake_ok:
  assumes "server_ok s" and "\<not> w_closed w" and "handshake L clk rnd overTLS remote rd w s = (hs, w', s')"
  shows "server_ok s' \<and> sv_auth s' = sv_auth s \<and> sv_cfg s' = sv_cfg s"
proof (cases "fst (ReadMessage (k_hello L) rd)")
  case (Inl e)
  with assms show ?thesis by (simp add: handshake_def)
next
  case (Inr h)
  show ?thesis
  proof (cases "hs_admitted L clk overTLS s h")
    case True
    then have gate: "\<And>ids. map_of (au_reservedNames (sv_auth s)) (hs_sub L clk s h) = Some ids \<Longrightarrow>
        TokenID L (clk 3) (sv_auth s) (h_Token h) \<noteq> [] \<and> TokenID L (clk 3) (sv_auth s) (h_Token h) \<in> set ids"
      unfolding hs_admitted_def using CheckReserved_id by blast
    show ?thesis
      by (rule openTunnel_ok [OF assms(1,2) gate assms(3) [unfolded handshake_admitted [OF Inr True]]])
  next
    case False
    with handshake_not_admitted [OF Inr, of clk overTLS s rnd remote w] assms show ?thesis
      by (auto simp: rejectCode_def)
  qed
qed

text \<open>Everything that happens to a server: handshakes, tunnels going down, and life in the sessions.\<close>

inductive srv_op :: "server \<Rightarrow> server \<Rightarrow> bool" where
  so_handshake: "\<not> w_closed w \<Longrightarrow> handshake (L :: ctl_lib) clk rnd overTLS remote rd w s = (hs, w', s') \<Longrightarrow> srv_op s s'"
| so_down: "srv_op s (tunnelDown c s)"
| so_session: "i < length (sv_sess s) \<Longrightarrow> mux_op (sv_sess s ! i) x \<Longrightarrow>
     srv_op s (s\<lparr>sv_sess := (sv_sess s)[i := x]\<rparr>)"

lemma srv_op_ok: "srv_op s s' \<Longrightarrow> server_ok s \<Longrightarrow> server_ok s' \<and> sv_auth s' = sv_auth s"
proof (induction rule: srv_op.induct)
  case (so_handshake w L clk rnd overTLS remote rd s hs w' s')
  then show ?case using handshake_ok by blast
next
  case (so_down s c)
  then show ?case by (simp add: tunnelDown_def server_ok_Unregister)
next
  case (so_session i s x)
  then have "sess_ok x" using mux_op_ok server_ok_nth by blast
  with so_session show ?case by (simp add: server_ok_sess)
qed

definition srv_init :: "authenticator \<Rightarrow> server \<Rightarrow> bool" where
  "srv_init a s \<longleftrightarrow> sv_auth s = a \<and> sv_reg s = NewRegistry \<and> sv_sess s = []"

interpretation srv: invariant_system "srv_init a" srv_op "\<lambda>s. server_ok s \<and> sv_auth s = a"
proof
  fix s
  assume "srv_init a s"
  then show "server_ok s \<and> sv_auth s = a"
    by (simp add: srv_init_def server_ok_def NewRegistry_ok hold_ok_def Get_def) (simp add: NewRegistry_def)
qed (auto dest: srv_op_ok)

section \<open>A tunnel that came up\<close>

lemma admitted_scope:
  assumes "hs_admitted L clk tls s h"
  defines "a \<equiv> sv_auth s" and "tok \<equiv> h_Token h" and "sub \<equiv> hs_sub L clk s h"
  shows "(isSigned a tok \<and> (\<exists>cl. Parse L (clk 2) (au_signing a) tok = Inr cl \<and>
            (if c_Sub cl \<noteq> [] then sub = c_Sub cl else sub = [] \<or> ValidSubdomain sub))) \<or>
     (\<not> isSigned a tok \<and> (case map_of (au_reserved a) tok of
          Some r \<Rightarrow> r = [] \<or> sub = r
        | None \<Rightarrow> sub = [] \<or> ValidSubdomain sub))"
proof -
  have c: "CheckSubdomain L (clk 2) a tok sub = None"
    using assms(1) by (simp add: hs_admitted_def a_def tok_def sub_def)
  show ?thesis
  proof (cases "isSigned a tok")
    case True
    with c show ?thesis by (auto simp: CheckSubdomain_def split: sum.splits if_splits)
  next
    case False
    show ?thesis
    proof (cases "map_of (au_reserved a) tok")
      case None
      with c False show ?thesis by (auto simp: CheckSubdomain_def split: if_splits)
    next
      case (Some r)
      have "ReservedSubdomain L (clk 1) a tok = r"
        unfolding ReservedSubdomain_def using False Some by simp
      then have "r = [] \<or> sub = r"
        unfolding sub_def hs_sub_def Let_def by (simp add: a_def tok_def)
      with False Some show ?thesis by simp
    qed
  qed
qed

lemma finishHandshake_Up:
  assumes f: "finishHandshake L name c ev i protected s0 = (HsUp c', s')"
    and ev: "\<And>k. ev = Some k \<Longrightarrow> cl_Session (clnt (sv_reg s0) k) \<noteq> i"
    and c: "c < length (rg_heap (sv_reg s0))" and i: "i < length (sv_sess s0)"
  shows "c' = c \<and> reg_sim (sv_reg s0) (sv_reg s') \<and>
     cl_Protected (clnt (sv_reg s') c) = protected \<and> cl_ready (clnt (sv_reg s') c) \<and>
     (\<exists>j. k_ack L \<lparr>a_Type = TypeAck, a_OK = True, a_Subdomain = name, a_PublicURL = publicURL (sv_cfg s0) name,
            a_Error = [], a_Code = []\<rparr> = Some j \<and>
        w_bytes (s_conn (sv_sess s' ! i)) = w_bytes (s_conn (sv_sess s0 ! i)) @ line_bytes j)"
proof -
  let ?r = "setProtected c protected (sv_reg s0)"
  let ?s1 = "closeEvicted ev (s0\<lparr>sv_reg := ?r\<rparr>)"
  let ?ack = "\<lparr>a_Type = TypeAck, a_OK = True, a_Subdomain = name, a_PublicURL = publicURL (sv_cfg s0) name,
            a_Error = [], a_Code = []\<rparr>"
  have same: "sv_sess ?s1 ! i = sv_sess s0 ! i"
  proof (cases ev)
    case (Some k)
    have "cl_Session (clnt ?r k) \<noteq> i"
      using ev [OF Some] reg_sims(2) [of "sv_reg s0" c protected] by (simp add: reg_sim_def)
    with Some show ?thesis by (simp add: closeEvicted_def Let_def)
  qed (simp add: closeEvicted_def)
  obtain w1 where W: "WriteMessage (k_ack L) ?ack (s_conn (sv_sess ?s1 ! i)) = (None, w1)"
    and c': "c' = c" and s': "s' = ?s1\<lparr>sv_reg := markReady c ?r, sv_sess := (sv_sess ?s1)[i := (sv_sess ?s1 ! i)\<lparr>s_conn := w1\<rparr>]\<rparr>"
    using f by (auto simp: finishHandshake_def Let_def split: prod.splits option.splits)
  have "reg_sim (sv_reg s0) (markReady c ?r)"
    using reg_sims(2) [of "sv_reg s0" c protected] reg_sims(1) [of ?r c] by (simp add: reg_sim_def)
  moreover have "cl_Protected (clnt (markReady c ?r) c) = protected" "cl_ready (clnt (markReady c ?r) c)"
    using c by (simp_all add: markReady_def setProtected_def clnt_def)
  moreover obtain j where "k_ack L ?ack = Some j" "w_bytes w1 = w_bytes (s_conn (sv_sess s0 ! i)) @ line_bytes j"
    using WriteMessage_bytes [OF W] same by auto
  ultimately show ?thesis using c' i by (simp add: s')
qed

lemma handshake_HsUp:
  assumes ok: "server_ok s" and up: "handshake L clk rnd overTLS remote rd w s = (HsUp c, w', s')"
  obtains h name j where "fst (ReadMessage (k_hello L) rd) = Inr h" and "hs_admitted L clk overTLS s h"
    and "Get name (sv_reg s') = Some c"
    and "if hs_sub L clk s h = [] then \<not> IsReserved (sv_auth s) name \<and> (\<exists>x. name = randomSubdomain x)
         else name = hs_sub L clk s h"
    and "cl_Protected (clnt (sv_reg s') c) = hs_protected L clk s h" and "cl_ready (clnt (sv_reg s') c)"
    and "k_ack L \<lparr>a_Type = TypeAck, a_OK = True, a_Subdomain = name, a_PublicURL = publicURL (sv_cfg s) name,
            a_Error = [], a_Code = []\<rparr> = Some j"
    and "w_bytes w' = w_bytes w @ line_bytes j"
proof -
  obtain h where h: "fst (ReadMessage (k_hello L) rd) = Inr h"
    using up by (cases "fst (ReadMessage (k_hello L) rd)") (simp_all add: handshake_def)
  have adm: "hs_admitted L clk overTLS s h"
    using handshake_not_admitted [OF h, of clk overTLS s rnd remote w] up by (auto simp: rejectCode_def)
  note o = up [unfolded handshake_admitted [OF h adm]]
  let ?i = "length (sv_sess s)"
  let ?s1 = "s\<lparr>sv_sess := sv_sess s @ [newTunnelSession (sv_cfg s) (clk 5) w]\<rparr>"
  show thesis
  proof (cases rule: openTunnel_cases [of L clk rnd remote "h_Token h" "hs_sub L clk s h" "hs_protected L clk s h" w s])
    case (1 why)
    with o show ?thesis by (simp add: reject_def rejectCode_def)
  next
    case (2 name d ev k r1 hs s2)
    note R = Register_Some [OF 2(1)]
    have up2: "hs = HsUp c" "s2 = s'" "w' = s_conn (sv_sess s' ! ?i)" using o 2(4) by auto
    have evs: "cl_Session (clnt r1 m) \<noteq> ?i" if "ev = Some m" for m
    proof -
      have g: "Get name (sv_reg s) = Some m" using that R(2) by simp
      have reg: "reg_ok (sv_reg s)" using ok by (simp add: server_ok_def)
      have "m < length (rg_heap (sv_reg s))" using Get_ok [OF reg g] by simp
      with ok have "cl_Session (clnt (sv_reg s) m) < ?i" "clnt r1 m = clnt (sv_reg s) m"
        by (simp_all add: server_ok_def R(3) clnt_def nth_append)
      then show ?thesis by simp
    qed
    have F: "c = d" "reg_sim r1 (sv_reg s')"
        "cl_Protected (clnt (sv_reg s') d) = hs_protected L clk s h" "cl_ready (clnt (sv_reg s') d)"
        "\<exists>j. k_ack L \<lparr>a_Type = TypeAck, a_OK = True, a_Subdomain = name, a_PublicURL = publicURL (sv_cfg s) name,
            a_Error = [], a_Code = []\<rparr> = Some j \<and> w_bytes w' = w_bytes w @ line_bytes j"
      using finishHandshake_Up [OF 2(3) [unfolded up2(1,2)]] evs R(1,3) up2(3)
      by (simp_all add: newTunnelSession_def NewServerSession_def newSession_def)
    have "Get name (sv_reg s') = Some c"
      using reg_sim_Get [OF F(2)] R(4) F(1) by (simp add: Get_def go_map_simps)
    with F h adm 2(2) that [of h name] show ?thesis by blast
  qed
qed

lemma subAlphabet_chars: "list_all isNameStart subAlphabet" "length subAlphabet = 36"
  by (simp_all add: subAlphabet_def isNameStart_def)

lemma subDigits_chars: "list_all isNameStart (subDigits k n) \<and> length (subDigits k n) = k"
proof (induction k arbitrary: n)
  case (Suc k)
  have "unat (n mod 36) < 36"
    by (simp add: unat_mod)
  then have "isNameStart (subAlphabet ! unat (n mod 36))"
    using subAlphabet_chars by (simp add: list_all_length)
  with Suc show ?case by simp
qed simp

lemma randomSubdomain_valid: "ValidSubdomain (randomSubdomain n)"
proof -
  have d: "list_all isNameStart (subDigits 6 n)" "length (subDigits 6 n) = 6"
    using subDigits_chars by blast+
  then obtain c cs where "subDigits 6 n = c # cs" by (cases "subDigits 6 n") auto
  with d show ?thesis
    by (auto simp: randomSubdomain_def ValidSubdomain_def isNameChar_def list_all_iff)
qed

section \<open>A handshake to try things on\<close>

definition demo_hello :: hello where
  "demo_hello = \<lparr>h_Type = ''hello'', h_Version = 1, h_Token = demo_token, h_Subdomain = [], h_Protected = False\<rparr>"

definition demo_ctl :: ctl_lib where
  "demo_ctl = \<lparr>l_lower = l_lower demo_lib, l_hmac = l_hmac demo_lib, l_marshal = l_marshal demo_lib,
     l_unmarshal = l_unmarshal demo_lib, k_hello = (\<lambda>_. Some demo_hello), k_ack = (\<lambda>_. Some ''{}''), k_text = (\<lambda>_. [])\<rparr>"

definition demo_srv :: server where
  "demo_srv = \<lparr>sv_cfg = \<lparr>cfg_Domain = ''ex.org'', cfg_ControlAddr = '':7001'', cfg_ProxyAddr = '':8080'', cfg_AskAddr = [],
       cfg_ControlTLSAddr = '':7002'', cfg_ControlTLS = True, cfg_PublicPort = ''443'', cfg_PublicScheme = ''https'',
       cfg_MaxRequestBody = 1000, cfg_Auth = Some demo_auth, cfg_FA = Some demo_manager, cfg_EnrollPassword = [],
       cfg_ResponseHeaderTimeout = 60, cfg_MuxPingInterval = 0, cfg_MuxIdleTimeout = 0\<rparr>,
     sv_auth = demo_auth, sv_reg = NewRegistry, sv_sess = []\<rparr>"

abbreviation demo_rd :: reader where "demo_rd \<equiv> \<lparr>r_bytes = [123, 125, 10], r_end = EOF\<rparr>"

lemma demo_srv_ok: "server_ok demo_srv"
  by (simp add: server_ok_def demo_srv_def NewRegistry_ok hold_ok_def Get_def) (simp add: NewRegistry_def)

lemma demo_parse: "Parse demo_ctl t ''k'' demo_token = Parse demo_lib t ''k'' demo_token"
proof -
  have "hmacSum demo_ctl = hmacSum demo_lib" "l_unmarshal demo_ctl = l_unmarshal demo_lib"
    by (simp_all add: demo_ctl_def hmacSum_def fun_eq_iff)
  then show ?thesis unfolding Parse_def by (simp only:)
qed

lemma demo_hello_read: "fst (ReadMessage (k_hello demo_ctl) demo_rd) = Inr demo_hello"
  by (simp add: ReadMessage_def ReadSlice_def bufSize_def demo_ctl_def)

lemma demo_tokens:
  "isSigned demo_auth demo_token" "au_signing demo_auth = ''k''" "au_revoked demo_auth = []" "au_open demo_auth = False"
  "c_Sub demo_claims = ''hop''" "c_Prot demo_claims" "c_ID demo_claims = ''tok_41''"
  "map_of (au_reservedNames demo_auth) ''hop'' = Some [''tok_41'']" "demo_token \<noteq> []"
  by (simp_all add: demo_token_signed)
     (simp_all add: demo_auth_def demo_claims_def demo_token_def signed_token_def Prefix_def)

lemma demo_sub: "hs_sub demo_ctl (\<lambda>_. 0) demo_srv demo_hello = ''hop''"
  by (simp add: hs_sub_def ReservedSubdomain_def demo_srv_def demo_hello_def demo_tokens demo_parse demo_token_parses)

lemma demo_admitted: "hs_admitted demo_ctl (\<lambda>_. 0) True demo_srv demo_hello"
  unfolding hs_admitted_def demo_sub
  by (simp add: Check_def CheckSubdomain_def CheckReserved_def TokenID_def demo_srv_def demo_hello_def demo_tokens
      demo_parse demo_token_parses TypeHello_def ControlVersion_def Enabled_def demo_manager_def NewManager_def)

lemma demo_handshake:
  "\<exists>w' s'. handshake demo_ctl (\<lambda>_. 0) (\<lambda>_. 0) True ''9.9.9.9:9'' demo_rd fresh_conn demo_srv = (HsUp 0, w', s')"
proof -
  have "allocName 100 a rnd stale now ''hop'' sess remote tid NewRegistry =
      (Inr (Some (''hop'', 0, None)), snd (Register (stale 99) (now 99) ''hop'' sess remote tid NewRegistry))"
    for a rnd stale now sess remote tid
    using allocName_requested [of "''hop''" 99 a rnd stale now sess remote tid NewRegistry]
    by (simp add: Register_def NewRegistry_def Get_def onChange_def)
  then show ?thesis
    unfolding handshake_admitted [OF demo_hello_read demo_admitted] demo_sub openTunnel_def Let_def
    by (simp add: demo_srv_def finishHandshake_def closeEvicted_def Let_def WriteMessage_def w_write_def demo_ctl_def
        newTunnelSession_def NewServerSession_def newSession_def fresh_conn_def)
qed

section \<open>Properties\<close>

text \<open>
  Property C4. Who gets which name. If a handshake brings a tunnel up, the token passed the authenticator, and the
  client now holds a name that is: the signed token's own subdomain whenever it claims one; the static token's
  reserved subdomain whenever it has one; and otherwise valid. A reserved name was given only over TLS, to a signed token
  that verified, is not revoked and is listed for it.
\<close>

theorem handshake_grants:
  assumes "server_ok s" and "handshake L clk rnd overTLS remote rd w s = (HsUp c, w', s')"
  defines "a \<equiv> sv_auth s"
  shows "\<exists>h name. fst (ReadMessage (k_hello L) rd) = Inr h \<and> Check L (clk 0) a (h_Token h) = None \<and>
     Get name (sv_reg s') = Some c \<and>
     (if isSigned a (h_Token h)
      then (\<exists>cl. Parse L (clk 2) (au_signing a) (h_Token h) = Inr cl \<and>
              (if c_Sub cl \<noteq> [] then name = c_Sub cl else ValidSubdomain name))
      else (case map_of (au_reserved a) (h_Token h) of
              Some r \<Rightarrow> r \<noteq> [] \<longrightarrow> name = r
            | None \<Rightarrow> ValidSubdomain name)) \<and>
     (\<forall>ids. map_of (au_reservedNames a) name = Some ids \<longrightarrow> overTLS \<and>
        (\<exists>cl. Parse L (clk 3) (au_signing a) (h_Token h) = Inr cl \<and> c_ID cl \<notin> set (au_revoked a) \<and> c_ID cl \<in> set ids))"
proof -
  from assms(1,2) obtain h name j where
    h: "fst (ReadMessage (k_hello L) rd) = Inr h" and adm: "hs_admitted L clk overTLS s h"
    and g: "Get name (sv_reg s') = Some c"
    and n: "if hs_sub L clk s h = [] then \<not> IsReserved a name \<and> (\<exists>x. name = randomSubdomain x)
         else name = hs_sub L clk s h"
    unfolding a_def by (rule handshake_HsUp)
  have chk: "Check L (clk 0) a (h_Token h) = None"
    and res: "CheckReserved L (clk 3) a (h_Token h) (hs_sub L clk s h) overTLS = None"
    using adm by (simp_all add: hs_admitted_def a_def)
  have valid: "hs_sub L clk s h = [] \<Longrightarrow> ValidSubdomain name" using n randomSubdomain_valid by auto
  have gate: "\<forall>ids. map_of (au_reservedNames a) name = Some ids \<longrightarrow> overTLS \<and>
        (\<exists>cl. Parse L (clk 3) (au_signing a) (h_Token h) = Inr cl \<and> c_ID cl \<notin> set (au_revoked a) \<and> c_ID cl \<in> set ids)"
  proof (intro allI impI)
    fix ids assume m: "map_of (au_reservedNames a) name = Some ids"
    then have "hs_sub L clk s h \<noteq> []" "name = hs_sub L clk s h"
      using n by (auto simp: IsReserved_def split: if_splits)
    with res m show "overTLS \<and> (\<exists>cl. Parse L (clk 3) (au_signing a) (h_Token h) = Inr cl \<and>
        c_ID cl \<notin> set (au_revoked a) \<and> c_ID cl \<in> set ids)"
      by (simp add: CheckReserved_None)
  qed
  have "if isSigned a (h_Token h)
      then (\<exists>cl. Parse L (clk 2) (au_signing a) (h_Token h) = Inr cl \<and>
              (if c_Sub cl \<noteq> [] then name = c_Sub cl else ValidSubdomain name))
      else (case map_of (au_reserved a) (h_Token h) of
              Some r \<Rightarrow> r \<noteq> [] \<longrightarrow> name = r
            | None \<Rightarrow> ValidSubdomain name)"
    using admitted_scope [OF adm] n valid unfolding a_def
    by (auto split: if_splits option.splits)
  with h chk g gate show ?thesis by blast
qed

theorem handshake_grants_witness:
  "\<exists>w' s'. handshake demo_ctl (\<lambda>_. 0) (\<lambda>_. 0) True ''9.9.9.9:9'' demo_rd fresh_conn demo_srv = (HsUp 0, w', s') \<and>
     Get ''hop'' (sv_reg s') = Some 0"
proof -
  obtain w' s' where up: "handshake demo_ctl (\<lambda>_. 0) (\<lambda>_. 0) True ''9.9.9.9:9'' demo_rd fresh_conn demo_srv = (HsUp 0, w', s')"
    using demo_handshake by blast
  have "sv_auth demo_srv = demo_auth" "h_Token demo_hello = demo_token"
    by (simp_all add: demo_srv_def demo_hello_def)
  with handshake_grants [OF demo_srv_ok up] have "Get ''hop'' (sv_reg s') = Some 0"
    by (auto simp: demo_hello_read demo_tokens demo_parse demo_token_parses)
  with up show ?thesis by blast
qed

text \<open>
  A tunnel is opened for requests only when its client has been told: when a handshake succeeds, the
  acknowledgement, with the name and its public URL, is the one thing that was written to the connection, the client
  is marked ready, and the tunnel is protected exactly if the client asked for it or its token mandates it, which the
  server only accepts with a login provider configured.
\<close>

theorem handshake_ack:
  assumes "server_ok s" and "handshake L clk rnd overTLS remote rd w s = (HsUp c, w', s')"
  shows "\<exists>h name j. fst (ReadMessage (k_hello L) rd) = Inr h \<and> Get name (sv_reg s') = Some c \<and>
     k_ack L \<lparr>a_Type = ''ack'', a_OK = True, a_Subdomain = name, a_PublicURL = publicURL (sv_cfg s) name,
       a_Error = [], a_Code = []\<rparr> = Some j \<and>
     w_bytes w' = w_bytes w @ line_bytes j \<and> cl_ready (clnt (sv_reg s') c) \<and>
     cl_Protected (clnt (sv_reg s') c) =
       (h_Protected h \<or> ProtectedByToken L (clk 4) (sv_auth s) (h_Token h)) \<and>
     (cl_Protected (clnt (sv_reg s') c) \<longrightarrow> Enabled (cfg_FA (sv_cfg s)))"
  using assms
proof (rule handshake_HsUp)
  fix h name j
  assume "fst (ReadMessage (k_hello L) rd) = Inr h" "hs_admitted L clk overTLS s h" "Get name (sv_reg s') = Some c"
    "cl_Protected (clnt (sv_reg s') c) = hs_protected L clk s h" "cl_ready (clnt (sv_reg s') c)"
    "k_ack L \<lparr>a_Type = TypeAck, a_OK = True, a_Subdomain = name, a_PublicURL = publicURL (sv_cfg s) name,
       a_Error = [], a_Code = []\<rparr> = Some j"
    "w_bytes w' = w_bytes w @ line_bytes j"
  then show ?thesis
    by (intro exI [of _ h] exI [of _ name] exI [of _ j])
       (simp add: TypeAck_def hs_protected_def hs_admitted_def)
qed

theorem handshake_ack_witness:
  "\<exists>w' s'. handshake demo_ctl (\<lambda>_. 0) (\<lambda>_. 0) True ''9.9.9.9:9'' demo_rd fresh_conn demo_srv = (HsUp 0, w', s') \<and>
     w_bytes w' = line_bytes ''{}'' \<and> cl_ready (clnt (sv_reg s') 0) \<and> cl_Protected (clnt (sv_reg s') 0)"
proof -
  obtain w' s' where up: "handshake demo_ctl (\<lambda>_. 0) (\<lambda>_. 0) True ''9.9.9.9:9'' demo_rd fresh_conn demo_srv = (HsUp 0, w', s')"
    using demo_handshake by blast
  have "k_ack demo_ctl = (\<lambda>_. Some ''{}'')" "w_bytes fresh_conn = []"
    by (simp_all add: demo_ctl_def fresh_conn_def w_bytes_def)
  moreover have "ProtectedByToken demo_ctl 0 (sv_auth demo_srv) (h_Token demo_hello)"
    by (simp add: ProtectedByToken_def demo_srv_def demo_hello_def demo_tokens demo_parse demo_token_parses)
  ultimately show ?thesis
    using handshake_ack [OF demo_srv_ok up] up
    by (auto simp: demo_hello_read)
qed

lemma handshake_rejected:
  assumes hs: "handshake L clk rnd overTLS remote rd w s = (hs, w', s')"
    and no: "\<And>c. hs \<noteq> HsUp c" "\<And>e c. hs \<noteq> HsAckFailed e c"
  shows "sv_reg s' = sv_reg s \<and> take (length (sv_sess s)) (sv_sess s') = sv_sess s \<and> w_closed w' \<and>
     (\<forall>why. hs = HsRejected why \<longrightarrow>
        w_bytes w' = w_bytes (snd (WriteMessage (k_ack L) (refusalAck L why
          (if \<exists>n. why = RefAuth (ErrTLSRequired n) then ''tls_required'' else [])) w)))"
proof -
  have code: "refusalCode why = (if \<exists>n. why = RefAuth (ErrTLSRequired n) then ''tls_required'' else [])" for why
    by (auto simp: refusalCode_def codeFor_def CodeTLSRequired_def split: refusal.splits auth_err.splits)
  have rej: ?thesis if "handshake L clk rnd overTLS remote rd w s = rejectCode L why (refusalCode why) w s1"
      "sv_reg s1 = sv_reg s" "take (length (sv_sess s)) (sv_sess s1) = sv_sess s" for why s1
    using that hs by (auto simp: rejectCode_def code w_bytes_def)
  show ?thesis
  proof (cases "fst (ReadMessage (k_hello L) rd)")
    case (Inl e)
    with hs show ?thesis by (auto simp: handshake_def)
  next
    case (Inr h)
    show ?thesis
    proof (cases "hs_admitted L clk overTLS s h")
      case False
      with handshake_not_admitted [OF Inr, of clk overTLS s rnd remote w] rej [where ?s1.0 = s] hs show ?thesis
        by auto
    next
      case True
      note o = handshake_admitted [OF Inr True, of rnd remote w]
      show ?thesis
      proof (cases rule: openTunnel_cases [of L clk rnd remote "h_Token h" "hs_sub L clk s h" "hs_protected L clk s h" w s])
        case (1 why)
        then have "refusalCode why = []" by (auto simp: refusalCode_def)
        with 1(1) o rej [of why "s\<lparr>sv_sess := sv_sess s @ [newTunnelSession (sv_cfg s) (clk 5) w]\<rparr>"] show ?thesis
          by (simp add: reject_def)
      next
        case (2 name c ev k r1 hs2 s2)
        then show ?thesis using o hs no
          by (auto simp: finishHandshake_def Let_def split: prod.splits option.splits)
      qed
    qed
  qed
qed

text \<open>
  Property C39. A handshake that is refused or breaks off before its client is registered leaves every registered
  tunnel as it was: the registry is unchanged, no session of another client is touched, and the connection is closed.
  A refused client has been sent the reason, with the code that tells it to stop retrying exactly when the reason is that the
  name needs TLS.
\<close>

theorem handshake_refusal:
  assumes hs: "handshake L clk rnd overTLS remote rd w s = (hs, w', s')"
    and no: "\<And>c. hs \<noteq> HsUp c" "\<And>e c. hs \<noteq> HsAckFailed e c"
  shows "sv_reg s' = sv_reg s \<and> take (length (sv_sess s)) (sv_sess s') = sv_sess s \<and> w_closed w' \<and>
     (\<forall>why. hs = HsRejected why \<longrightarrow>
        w_bytes w' = w_bytes (snd (WriteMessage (k_ack L) (refusalAck L why
          (if \<exists>n. why = RefAuth (ErrTLSRequired n) then ''tls_required'' else [])) w)))"
  using assms by (rule handshake_rejected)

lemma demo_refused:
  "handshake demo_ctl (\<lambda>_. 0) (\<lambda>_. 0) False ''9.9.9.9:9'' demo_rd fresh_conn demo_srv =
     rejectCode demo_ctl (RefAuth (ErrTLSRequired ''hop'')) CodeTLSRequired fresh_conn demo_srv"
proof -
  have "CheckReserved demo_ctl 0 demo_auth demo_token ''hop'' False = Some (ErrTLSRequired ''hop'')"
    by (simp add: CheckReserved_def TokenID_def demo_tokens demo_parse demo_token_parses)
  moreover have "ReservedSubdomain demo_ctl 0 demo_auth demo_token = ''hop''"
    "Check demo_ctl 0 demo_auth demo_token = None" "CheckSubdomain demo_ctl 0 demo_auth demo_token ''hop'' = None"
    by (simp_all add: ReservedSubdomain_def Check_def CheckSubdomain_def demo_tokens demo_parse demo_token_parses)
  moreover have "sv_auth demo_srv = demo_auth" "h_Token demo_hello = demo_token" "h_Type demo_hello = TypeHello"
    "h_Version demo_hello = ControlVersion"
    by (simp_all add: demo_srv_def demo_hello_def TypeHello_def ControlVersion_def)
  ultimately show ?thesis
    unfolding handshake_def demo_hello_read by (simp add: Let_def codeFor_def)
qed

theorem handshake_refusal_witness:
  "sv_reg (snd (snd (handshake demo_ctl (\<lambda>_. 0) (\<lambda>_. 0) False ''9.9.9.9:9'' demo_rd fresh_conn demo_srv))) = NewRegistry \<and>
   w_bytes (fst (snd (handshake demo_ctl (\<lambda>_. 0) (\<lambda>_. 0) False ''9.9.9.9:9'' demo_rd fresh_conn demo_srv))) = line_bytes ''{}''"
proof -
  let ?hs = "handshake demo_ctl (\<lambda>_. 0) (\<lambda>_. 0) False ''9.9.9.9:9'' demo_rd fresh_conn demo_srv"
  obtain w' s' where e: "?hs = (HsRejected (RefAuth (ErrTLSRequired ''hop'')), w', s')"
    by (simp add: demo_refused rejectCode_def)
  have "w_bytes w' = line_bytes ''{}''" "sv_reg s' = sv_reg demo_srv"
    using handshake_refusal [OF e] by (auto simp: WriteMessage_def w_write_def fresh_conn_def w_bytes_def demo_ctl_def
        line_bytes_def)
  then show ?thesis using e by (simp add: demo_srv_def)
qed



text \<open>
  The certificate check approves a host exactly if it is the domain itself, its www alias, or one
  label under the domain, valid as a subdomain, that a client holds at this moment.
\<close>

theorem cert_allowed_iff:
  "certAllowed s host \<longleftrightarrow>
     host = cfg_Domain (sv_cfg s) \<or> host = ''www.'' @ cfg_Domain (sv_cfg s) \<or>
     (\<exists>sub c. host = sub @ ''.'' @ cfg_Domain (sv_cfg s) \<and> ValidSubdomain sub \<and> Get sub (sv_reg s) = Some c)"
proof -
  have "(case CutSuffix host (''.'' @ cfg_Domain (sv_cfg s)) of
          None \<Rightarrow> False
        | Some sub \<Rightarrow> ValidSubdomain sub \<and> Get sub (sv_reg s) \<noteq> None) \<longleftrightarrow>
      (\<exists>sub c. host = sub @ ''.'' @ cfg_Domain (sv_cfg s) \<and> ValidSubdomain sub \<and> Get sub (sv_reg s) = Some c)"
  proof (cases "CutSuffix host (''.'' @ cfg_Domain (sv_cfg s))")
    case None
    then have "host \<noteq> sub @ ''.'' @ cfg_Domain (sv_cfg s)" for sub
      using CutSuffix_eq_Some [of host "''.'' @ cfg_Domain (sv_cfg s)" sub] by simp
    with None show ?thesis by simp
  next
    case (Some sub)
    then have "host = sub @ ''.'' @ cfg_Domain (sv_cfg s)" by (simp add: CutSuffix_eq_Some)
    with Some show ?thesis by simp
  qed
  then show ?thesis unfolding certAllowed_def by simp
qed

section \<open>A claim that leads nowhere\<close>

text \<open>
  A signed token's subdomain claim is never validated: a token minted with a claim that is no valid subdomain is
  accepted for exactly that name, which the proxy refuses to route.
\<close>

lemma scoped_name_unchecked:
  assumes "isSigned a tok" and "Parse L now (au_signing a) tok = Inr cl" and "c_Sub cl = ''My.App''"
  shows "CheckSubdomain L now a tok ''My.App'' = None \<and> \<not> ValidSubdomain ''My.App''"
  using assms by (simp add: CheckSubdomain_def ValidSubdomain_def isNameStart_def)

end
