(* ===== verification/Proxy.thy ===== *)
theory Proxy
  imports Control_Props
begin

text \<open>
  The public side of the server, \<^verbatim>\<open>internal/server/proxy.go\<close>: routing by host, self-service token issuance, the request as it
  goes over the tunnel, and the relay of the response. Library functions that the theories before do not already
  fix are the fields of \<open>plib\<close>: whether a host is an IP address, parsing and printing a duration, quoting a string, the
  JSON forms of the token request and of the stream metadata. A page is a constructor of \<open>page\<close> with the strings its
  template receives; the content type goes with the constructor.
\<close>

section \<open>Hosts\<close>

record tokenReq =
  tr_Sub :: string
  tr_Password :: string
  tr_TTL :: string

record plib = lib +
  p_fa :: falib
  p_isIP :: "string \<Rightarrow> bool"
  p_duration :: "string \<Rightarrow> int option"
  p_durStr :: "int \<Rightarrow> string"
  p_quote :: "string \<Rightarrow> string"
  p_tokenReq :: "string \<Rightarrow> tokenReq option"
  p_meta :: "openMeta \<Rightarrow> string option"

definition stripPort :: "'x lib_scheme \<Rightarrow> string \<Rightarrow> string" where
  "stripPort L hostport =
     (case SplitHostPort hostport of
        Some (host, port) \<Rightarrow> ToLower (l_lower L) (TrimSuffix host ''.'')
      | None \<Rightarrow> ToLower (l_lower L) (TrimSuffix hostport ''.''))"

definition remoteIP :: "string \<Rightarrow> string" where
  "remoteIP remote = (case SplitHostPort remote of Some (ip, port) \<Rightarrow> ip | None \<Rightarrow> remote)"

definition isAddrHost :: "string \<Rightarrow> string \<Rightarrow> bool" where
  "isAddrHost host proxyAddr =
     (if host = ''localhost'' \<or> host = ''127.0.0.1'' \<or> host = ''::1'' then True
      else case SplitHostPort proxyAddr of
             None \<Rightarrow> False
           | Some (h, p) \<Rightarrow> let h1 = TrimPrefix h ''[::]'' in h1 \<noteq> [] \<and> h1 = host)"

section \<open>Pages\<close>

definition escByte :: "char \<Rightarrow> string" where
  "escByte c =
     (if c = CHR ''&'' then ''&amp;'' else if c = CHR ''<'' then ''&lt;'' else if c = CHR ''>'' then ''&gt;''
      else if c = CHR 34 then ''&quot;'' else if c = CHR 39 then ''&#39;'' else [c])"

definition esc :: "string \<Rightarrow> string" where
  "esc s = concat (map escByte s)"

definition errorPage :: "nat \<Rightarrow> string \<Rightarrow> string \<Rightarrow> reply" where
  "errorPage status title detail = mkReply status (ErrorDoc status (esc title) (esc detail))"

definition serveLanding :: "server \<Rightarrow> request \<Rightarrow> reply" where
  "serveLanding s r =
     (if rq_Path r \<noteq> ''/'' then errorPage 404 ''not found'' ''this is the munnel server landing endpoint''
      else mkReply 200 (LandingPage (cfg_Domain (sv_cfg s)) (cfg_ControlAddr (sv_cfg s)) (cfg_PublicScheme (sv_cfg s))))"

section \<open>Self-service tokens\<close>

definition defaultEnrollTTL :: int where "defaultEnrollTTL = 7 * 24 * 3600 * 10 ^ 9"
definition maxEnrollTTL :: int where "maxEnrollTTL = 30 * 24 * 3600 * 10 ^ 9"

definition tokenIssueError :: "nat \<Rightarrow> string \<Rightarrow> reply" where
  "tokenIssueError status msg = mkReply status (JsonError msg)"

definition limitBody :: "nat \<Rightarrow> string \<times> err option \<Rightarrow> err + string" where
  "limitBody n b =
     (if n \<le> length (fst b) then Inr (take n (fst b))
      else case snd b of None \<Rightarrow> Inr (fst b) | Some e \<Rightarrow> Inl e)"

definition subdomainError :: string where
  "subdomainError = ''invalid subdomain (lowercase letters, digits, hyphens; '' @ utf8 [0xE2, 0x89, 0xA4] @ ''63 chars)''"

text \<open>The lifetime a request asks for: the default when it names none, \<open>None\<close> when it is not a positive duration, capped.\<close>

definition enrollTTL :: "'x plib_scheme \<Rightarrow> string \<Rightarrow> int option" where
  "enrollTTL L want =
     (case (if want = [] then Some defaultEnrollTTL
            else case p_duration L want of
                   None \<Rightarrow> None
                 | Some d \<Rightarrow> if d \<le> 0 then None else Some d) of
        None \<Rightarrow> None
      | Some ttl \<Rightarrow> Some (if maxEnrollTTL < ttl then maxEnrollTTL else ttl))"

definition handleTokenIssue :: "'x plib_scheme \<Rightarrow> int \<Rightarrow> string option \<Rightarrow> server \<Rightarrow> request \<Rightarrow> reply" where
  "handleTokenIssue L now rnd s r =
     (if cfg_EnrollPassword (sv_cfg s) = []
      then tokenIssueError 404 ''self-service token issuance is disabled on this server''
      else case limitBody (64 * 2 ^ 10) (rq_Body r) of
        Inl e \<Rightarrow> tokenIssueError 400 ''invalid request body (expected JSON: sub, password, ttl)''
      | Inr body \<Rightarrow>
        (case p_tokenReq L body of
           None \<Rightarrow> tokenIssueError 400 ''invalid request body (expected JSON: sub, password, ttl)''
         | Some req \<Rightarrow>
           if tr_Password req \<noteq> cfg_EnrollPassword (sv_cfg s)
           then tokenIssueError 401 ''invalid enrollment password''
           else let sub = NormalizeSubdomain (l_lower L) (tr_Sub req)
           in if sub \<noteq> [] \<and> \<not> ValidSubdomain sub then tokenIssueError 400 subdomainError
              else if sub \<noteq> [] \<and> IsReserved (sv_auth s) sub then tokenIssueError 403 (''subdomain '' @ p_quote L sub @ '' is reserved; ask your operator'')
              else (case enrollTTL L (tr_TTL req) of
                      None \<Rightarrow> tokenIssueError 400 ''invalid ttl (examples: 24h, 168h, 720h)''
                    | Some ttl \<Rightarrow>
                         (case auth_Mint L now rnd (sv_auth s) \<lparr>mo_Sub = sub, mo_TTL = ttl, mo_Prot = False\<rparr> of
                            Inl e \<Rightarrow> tokenIssueError 500 ''token issuance unavailable: signed tokens not enabled on this server''
                          | Inr tok \<Rightarrow> mkReply 200 (TokenIssued tok (IDOf L tok) sub (now + ttl))))))"

section \<open>Routing\<close>

datatype routed = Answer reply | Panic | Forward request nat

definition offlinePage :: "string \<Rightarrow> string \<Rightarrow> reply" where
  "offlinePage sub domain = errorPage 502 ''tunnel offline'' (''no client is connected for '' @ sub @ ''.'' @ domain)"

definition ServeHTTP ::
  "'x plib_scheme \<Rightarrow> int \<Rightarrow> string option \<Rightarrow> wait_event \<Rightarrow> server \<Rightarrow> request \<Rightarrow> routed" where
  "ServeHTTP L now rnd ev s r =
     (let host = stripPort L (rq_Host r); dom = cfg_Domain (sv_cfg s)
      in if rq_Path r = ''/healthz'' then Answer (mkReply 200 (Health (Count (sv_reg s))))
         else if rq_Path r = ''/__munnel/token'' \<and> rq_Method r = ''POST'' then Answer (handleTokenIssue L now rnd s r)
         else if host = [] \<or> host = dom \<or> host = ''www.'' @ dom \<or> (host \<noteq> [] \<and> p_isIP L host) \<or>
                 isAddrHost host (cfg_ProxyAddr (sv_cfg s))
         then Answer (serveLanding s r)
         else if \<not> HasSuffix host (''.'' @ dom) then Answer (errorPage 404 ''unknown host'' (p_quote L host @ '' is not a subdomain of '' @ dom))
         else let sub = TrimSuffix host (''.'' @ dom)
         in if \<not> ValidSubdomain sub then Answer (errorPage 404 ''unknown host'' (p_quote L sub @ '' is not a valid tunnel subdomain''))
            else case Get sub (sv_reg s) of
              None \<Rightarrow> Answer (offlinePage sub dom)
            | Some c \<Rightarrow>
                if \<not> waitReady ev c (sv_reg s) then Answer (offlinePage sub dom)
                else case (if Enabled (cfg_FA (sv_cfg s)) then cfg_FA (sv_cfg s) else None) of
                  Some m \<Rightarrow>
                    if HasPrefix (rq_Path r) ''/__munnel/''
                    then (case Handle (p_fa L) now m r of None \<Rightarrow> Panic | Some rep \<Rightarrow> Answer rep)
                    else let r1 = StripIdentityHeaders r
                         in if cl_Protected (clnt (sv_reg s) c)
                            then (case Authorize (p_fa L) now m r1 of Inl rep \<Rightarrow> Answer rep | Inr r2 \<Rightarrow> Forward r2 c)
                            else Forward r1 c
                | None \<Rightarrow> Forward (StripIdentityHeaders r) c)"

section \<open>The request on the tunnel\<close>

definition hopByHop :: "string list" where
  "hopByHop = [''Connection'', ''Proxy-Connection'', ''Keep-Alive'', ''Te'', ''Trailer'', ''Transfer-Encoding'', ''Upgrade'',
     ''Proxy-Authenticate'', ''Proxy-Authorization'']"

text \<open>No letter of \<^verbatim>\<open>upgrade\<close> has a Unicode case variant outside ASCII, so \<^verbatim>\<open>strings.EqualFold\<close> is this.\<close>

definition isUpgrade :: "request \<Rightarrow> bool" where
  "isUpgrade r \<longleftrightarrow>
     map lowerByte (hdr_Get (rq_Header r) ''Connection'') = ''upgrade'' \<or> hdr_Get (rq_Header r) ''Upgrade'' \<noteq> []"

definition methodHasBody :: "string \<Rightarrow> bool" where
  "methodHasBody m \<longleftrightarrow> m = ''POST'' \<or> m = ''PUT'' \<or> m = ''PATCH'' \<or> m = ''DELETE''"

abbreviation crlf :: string where "crlf \<equiv> [CHR 13, CHR 10]"

definition hdrLine :: "string \<times> string \<Rightarrow> string" where
  "hdrLine kv = fst kv @ '': '' @ snd kv @ crlf"

definition forwardedFor :: "request \<Rightarrow> string \<times> string" where
  "forwardedFor r =
     (let xff = hdr_Get (rq_Header r) ''X-Forwarded-For''
      in (''X-Forwarded-For'', if xff \<noteq> [] then xff @ '', '' @ remoteIP (rq_RemoteAddr r) else remoteIP (rq_RemoteAddr r)))"

text \<open>The header lines after the request line, in order: for a plain request and for an upgrade.\<close>

definition wireHeaders :: "config \<Rightarrow> request \<Rightarrow> string \<Rightarrow> (string \<times> string) list" where
  "wireHeaders cfg r body =
     [(''Host'', rq_Host r)] @
     filter (\<lambda>kv. CanonicalHeaderKey (fst kv) \<notin> set hopByHop) (hdr_lines (rq_Header r)) @
     [forwardedFor r, (''X-Forwarded-Host'', rq_Host r), (''X-Forwarded-Proto'', cfg_PublicScheme cfg)] @
     (if 0 < length body \<or> 0 < rq_ContentLength r \<or> methodHasBody (rq_Method r)
      then [(''Content-Length'', Itoa (int (length body)))] else [])"

definition wireUpgradeHeaders :: "config \<Rightarrow> request \<Rightarrow> (string \<times> string) list" where
  "wireUpgradeHeaders cfg r =
     [(''Host'', rq_Host r)] @ hdr_lines (rq_Header r) @
     [forwardedFor r, (''X-Forwarded-Host'', rq_Host r), (''X-Forwarded-Proto'', cfg_PublicScheme cfg)]"

definition requestLine :: "request \<Rightarrow> string" where
  "requestLine r = rq_Method r @ '' '' @ rq_URI r @ '' HTTP/1.1'' @ crlf"

definition wireRequest :: "config \<Rightarrow> request \<Rightarrow> string \<Rightarrow> string" where
  "wireRequest cfg r body = requestLine r @ concat (map hdrLine (wireHeaders cfg r body)) @ crlf @ body"

definition wireUpgrade :: "config \<Rightarrow> request \<Rightarrow> string" where
  "wireUpgrade cfg r = requestLine r @ concat (map hdrLine (wireUpgradeHeaders cfg r)) @ crlf"

text \<open>Reading the public request's body, with its limit: the body, or the error page.\<close>

definition tooLarge :: "config \<Rightarrow> reply" where
  "tooLarge cfg =
     errorPage 413 ''request too large'' (''request body exceeds the '' @ Itoa (cfg_MaxRequestBody cfg) @ ''-byte limit'')"

definition readBody :: "config \<Rightarrow> request \<Rightarrow> reply + string" where
  "readBody cfg r =
     (if cfg_MaxRequestBody cfg < rq_ContentLength r
      then Inl (tooLarge cfg)
      else case limitBody (nat (cfg_MaxRequestBody cfg + 1)) (rq_Body r) of
             Inl e \<Rightarrow> Inl (errorPage 400 ''bad request'' ''failed reading request body'')
           | Inr body \<Rightarrow>
               if cfg_MaxRequestBody cfg < int (length body)
               then Inl (tooLarge cfg)
               else Inr body)"

text \<open>
  The source writes the request through a \<^verbatim>\<open>bufio.Writer\<close>; how that cuts the bytes into calls of the stream's \<^verbatim>\<open>Write\<close> (the
  first failing one ends it) is the argument \<open>chop\<close>.
\<close>

primrec writeParts :: "nat \<Rightarrow> bytes list \<Rightarrow> session \<Rightarrow> err option \<times> session" where
  "writeParts st [] s = (None, s)"
| "writeParts st (p # ps) s =
     (case Write st p s of
        ((n, Some e), s1) \<Rightarrow> (Some e, s1)
      | ((n, None), s1) \<Rightarrow> writeParts st ps s1)"

definition openMetaBytes :: "'x plib_scheme \<Rightarrow> request \<Rightarrow> bytes" where
  "openMetaBytes L r =
     (case p_meta L \<lparr>om_Host = rq_Host r, om_RemoteAddr = rq_RemoteAddr r\<rparr> of None \<Rightarrow> [] | Some m \<Rightarrow> strBytes m)"

text \<open>
  The first half of \<^verbatim>\<open>proxyTo\<close> for a plain request, up to the half-close: the page that answers it, or the stream
  on which the response is awaited.
\<close>

definition proxyTo ::
  "'x plib_scheme \<Rightarrow> config \<Rightarrow> (bytes \<Rightarrow> bytes list) \<Rightarrow> request \<Rightarrow> session \<Rightarrow> (reply + nat) \<times> session" where
  "proxyTo L cfg chop r s =
     (case readBody cfg r of
        Inl page \<Rightarrow> (Inl page, s)
      | Inr body \<Rightarrow>
        (case OpenStream (openMetaBytes L r) s of
           (Inl e, s1) \<Rightarrow> (Inl (errorPage 502 ''tunnel error'' ''could not open a stream to the client''), s1)
         | (Inr st, s1) \<Rightarrow>
             (case writeParts st (chop (strBytes (wireRequest cfg r body))) s1 of
                (Some e, s2) \<Rightarrow>
                  (Inl (errorPage 502 ''tunnel error'' ''could not send the request through the tunnel''), Abort st s2)
              | (None, s2) \<Rightarrow> (Inr st, snd (CloseWrite st s2)))))"

section \<open>The response\<close>

definition addCORSDebugHeaders :: "header \<Rightarrow> header" where
  "addCORSDebugHeaders h =
     (if hdr_Get h ''Access-Control-Allow-Origin'' = [] then h else hdr_Add ''Vary'' ''Origin'' h)"

definition relayHeaders :: "header \<Rightarrow> int \<Rightarrow> header" where
  "relayHeaders h contentLen =
     (let h1 = fold (\<lambda>(k, v). hdr_Add k v) (filter (\<lambda>kv. CanonicalHeaderKey (fst kv) \<notin> set hopByHop) (hdr_lines h)) [];
          h2 = (if 0 \<le> contentLen then hdr_Set ''Content-Length'' (Itoa contentLen) h1 else h1)
      in addCORSDebugHeaders h2)"

text \<open>
  The copy loop over what successive reads of the response body give; \<open>okw\<close> says which writes to the public client
  succeed. The result is what was written and, once the loop has ended, whether the body was read to its end.
\<close>

primrec relayBody :: "(bytes \<times> err option) list \<Rightarrow> (nat \<Rightarrow> bool) \<Rightarrow> nat \<Rightarrow> bytes \<times> bool option" where
  "relayBody [] okw k = ([], None)"
| "relayBody (p # ps) okw k =
     (if fst p \<noteq> [] \<and> \<not> okw k then ([], Some False)
      else case snd p of
        Some e \<Rightarrow> (fst p, Some (e = EOF))
      | None \<Rightarrow> (case relayBody ps okw (Suc k) of (bs, c) \<Rightarrow> (fst p @ bs, c)))"

text \<open>
  How waiting for the response's headers ends: the timer fires first, parsing fails (with the public client gone or not),
  or a response is there. What the public client gets: a page, nothing, or status, headers and body bytes.
\<close>

datatype awaited =
    HeaderTimeout
  | NoResponse bool
  | Response nat header int "(bytes \<times> err option) list"

datatype public = Page reply | Nothing | Relayed nat header bytes

text \<open>
  The second half of \<^verbatim>\<open>proxyTo\<close>, on the session as it is then. While the body still streams (the list of reads has not
  come to an end) the stream is left as it is; the deferred function aborts a stream whose response was not read to its end.
\<close>

definition proxyResponse ::
  "'x plib_scheme \<Rightarrow> config \<Rightarrow> request \<Rightarrow> nat \<Rightarrow> (nat \<Rightarrow> bool) \<Rightarrow> awaited \<Rightarrow> session \<Rightarrow> public \<times> session" where
  "proxyResponse L cfg r st okw aw s =
     (case aw of
        HeaderTimeout \<Rightarrow>
          (Page (errorPage 504 ''tunnel timeout''
             (''the local service sent no response headers within '' @ p_durStr L (cfg_ResponseHeaderTimeout cfg))), Abort st s)
      | NoResponse gone \<Rightarrow>
          (if gone then Nothing
           else Page (errorPage 502 ''tunnel error'' ''the tunnel client closed the stream without a response''), Abort st s)
      | Response status h contentLen reads \<Rightarrow>
          (if rq_Method r = ''HEAD'' then (Relayed status (relayHeaders h contentLen) [], s)
           else case relayBody reads okw 0 of
             (bs, complete) \<Rightarrow>
               (Relayed status (relayHeaders h contentLen) bs, if complete = Some False then Abort st s else s)))"

section \<open>Upgrades\<close>

datatype hijack = HijackUnsupported | HijackFailed | Hijacked bytes

datatype upgraded = UpPage reply | UpClosed | UpPipe nat

text \<open>
  \<^verbatim>\<open>proxyWebSocket\<close> up to the two copy loops; \<open>Hijacked pre\<close> carries the bytes the HTTP server had already buffered. \<open>pipeEnd\<close> is
  what happens to the stream when both loops have ended: each closes it, and so does the deferred call.
\<close>

definition proxyWebSocket ::
  "config \<Rightarrow> (bytes \<Rightarrow> bytes list) \<Rightarrow> hijack \<Rightarrow> request \<Rightarrow> session \<Rightarrow> upgraded \<times> session" where
  "proxyWebSocket cfg chop hj r s =
     (case hj of
        HijackUnsupported \<Rightarrow>
          (UpPage (errorPage 500 ''hijack unsupported''
             (''this server'' @ [CHR 39] @ ''s ResponseWriter does not support connection hijacking'')), s)
      | HijackFailed \<Rightarrow> (UpClosed, s)
      | Hijacked pre \<Rightarrow>
          (case OpenStream [] s of
             (Inl e, s1) \<Rightarrow> (UpClosed, s1)
           | (Inr st, s1) \<Rightarrow>
               (case writeParts st (chop (strBytes (wireUpgrade cfg r))) s1 of
                  (Some e, s2) \<Rightarrow> (UpClosed, snd (stream_Close st s2))
                | (None, s2) \<Rightarrow> (UpPipe st, if pre \<noteq> [] then snd (Write st pre s2) else s2))))"

definition pipeEnd :: "nat \<Rightarrow> session \<Rightarrow> session" where
  "pipeEnd st s = snd (stream_Close st (snd (stream_Close st (snd (stream_Close st s)))))"

end
