(* ===== verification/Proxy_Props.thy ===== *)
theory Proxy_Props
  imports Proxy
begin

text \<open>
  What the public side promises: where a request goes, that identity headers on a forwarded request come from a
  verified session only, how far the enrollment password reaches, and that the bytes put on the tunnel are exactly one
  request whose head and body can be told apart again.
\<close>

section \<open>Header lines\<close>

lemma hdr_lines_append [simp]: "hdr_lines (g @ h) = hdr_lines g @ hdr_lines h"
  by (simp add: hdr_lines_def)

lemma hdr_lines_Cons: "hdr_lines ((k, vs) # h) = map (\<lambda>v. (k, v)) vs @ hdr_lines h"
  by (simp add: hdr_lines_def)

lemma hdr_lines_delete: "hdr_lines (AList.delete k h) = filter (\<lambda>l. fst l \<noteq> k) (hdr_lines h)"
proof (induction h)
  case (Cons p h)
  have "filter (\<lambda>l. fst l \<noteq> k) (map (\<lambda>v. (j, v)) vs) = (if j = k then [] else map (\<lambda>v. (j, v)) vs)" for j :: string and vs :: "string list"
    by (simp add: filter_map comp_def)
  with Cons show ?case by (cases p) (simp add: hdr_lines_Cons AList.delete_eq)
qed (simp add: hdr_lines_def)

lemma AList_update_new: "k \<notin> fst ` set h \<Longrightarrow> AList.update k v h = h @ [(k, v)]"
  by (induction h) auto

lemma hdr_lines_Set_new:
  "CanonicalHeaderKey k \<notin> fst ` set h \<Longrightarrow> hdr_lines (hdr_Set k v h) = hdr_lines h @ [(CanonicalHeaderKey k, v)]"
  by (simp add: hdr_Set_def AList_update_new hdr_lines_def)

text \<open>The lines of a header or of a wire request that claim an identity, in any spelling.\<close>

definition isIdentity :: "string \<times> string \<Rightarrow> bool" where
  "isIdentity l \<longleftrightarrow> CanonicalHeaderKey (fst l) = UserHeader \<or> CanonicalHeaderKey (fst l) = GroupHeader"

text \<open>The header as the HTTP server hands it over: every key in its canonical form.\<close>

definition canonicalKeys :: "header \<Rightarrow> bool" where
  "canonicalKeys h \<longleftrightarrow> list_all (\<lambda>p. CanonicalHeaderKey (fst p) = fst p) h"

lemma canonical_lines: "canonicalKeys h \<Longrightarrow> l \<in> set (hdr_lines h) \<Longrightarrow> CanonicalHeaderKey (fst l) = fst l"
  by (auto simp: canonicalKeys_def list_all_iff hdr_lines_def)

lemma strip_lines_list:
  assumes "canonicalKeys (rq_Header r)"
  shows "hdr_lines (rq_Header (StripIdentityHeaders r)) = filter (\<lambda>l. \<not> isIdentity l) (hdr_lines (rq_Header r))"
  using canonical_lines [OF assms]
  by (auto simp: StripIdentityHeaders_def hdr_Del_def hdr_lines_delete isIdentity_def intro!: filter_cong)

lemma strip_keys: "UserHeader \<notin> fst ` set (rq_Header (StripIdentityHeaders r))"
  "GroupHeader \<notin> fst ` set (rq_Header (StripIdentityHeaders r))"
  by (auto simp: StripIdentityHeaders_def hdr_Del_def set_AList_delete)

text \<open>The identity lines of a verified session.\<close>

definition sessionLines :: "fa_session \<Rightarrow> (string \<times> string) list" where
  "sessionLines se =
     (UserHeader, fs_User se) # (if fs_Groups se = [] then [] else [(GroupHeader, Join (fs_Groups se) '','')])"

lemma inject_lines:
  assumes "UserHeader \<notin> fst ` set (rq_Header r)" and "GroupHeader \<notin> fst ` set (rq_Header r)"
  shows "hdr_lines (rq_Header (injectIdentity se r)) = hdr_lines (rq_Header r) @ sessionLines se"
proof -
  let ?h = "hdr_Set UserHeader (fs_User se) (rq_Header r)"
  have u: "?h = rq_Header r @ [(UserHeader, [fs_User se])]"
    using assms(1) by (simp add: hdr_Set_def AList_update_new)
  have "GroupHeader \<notin> fst ` set ?h" using assms(2) by (auto simp: u canonical_identity(3) [symmetric])
  then have "hdr_lines (hdr_Set GroupHeader x ?h) = hdr_lines ?h @ [(GroupHeader, x)]" for x
    by (simp add: hdr_lines_Set_new)
  moreover have "hdr_lines ?h = hdr_lines (rq_Header r) @ [(UserHeader, fs_User se)]"
    using assms(1) by (simp add: hdr_lines_Set_new)
  ultimately show ?thesis by (simp add: injectIdentity_def sessionLines_def Let_def)
qed

lemma wire_identity:
  "filter isIdentity (wireHeaders cfg r body) = filter isIdentity (hdr_lines (rq_Header r))"
  "filter isIdentity (wireUpgradeHeaders cfg r) = filter isIdentity (hdr_lines (rq_Header r))"
proof -
  have own: "\<not> isIdentity (''Host'', v)" "\<not> isIdentity (''X-Forwarded-For'', v)" "\<not> isIdentity (''X-Forwarded-Host'', v)"
    "\<not> isIdentity (''X-Forwarded-Proto'', v)" "\<not> isIdentity (''Content-Length'', v)" for v
    by (simp_all add: isIdentity_def CanonicalHeaderKey_def isTokenByte_def upperByte_def lowerByte_def UserHeader_def GroupHeader_def)
  have hop: "isIdentity l \<Longrightarrow> CanonicalHeaderKey (fst l) \<notin> set hopByHop" for l
    by (auto simp: isIdentity_def hopByHop_def UserHeader_def GroupHeader_def)
  have "filter isIdentity (filter (\<lambda>kv. CanonicalHeaderKey (fst kv) \<notin> set hopByHop) ls) = filter isIdentity ls" for ls
    using hop by (auto simp: filter_filter intro!: filter_cong)
  then show "filter isIdentity (wireHeaders cfg r body) = filter isIdentity (hdr_lines (rq_Header r))"
    "filter isIdentity (wireUpgradeHeaders cfg r) = filter isIdentity (hdr_lines (rq_Header r))"
    using own by (auto simp: wireHeaders_def wireUpgradeHeaders_def forwardedFor_def Let_def)
qed

section \<open>Routing\<close>

text \<open>What must have held for a request to be forwarded.\<close>

lemma ServeHTTP_Forward:
  assumes "ServeHTTP L now rnd ev s r = Forward r' c"
  obtains sub where "stripPort L (rq_Host r) = sub @ ''.'' @ cfg_Domain (sv_cfg s)" and "ValidSubdomain sub"
    and "Get sub (sv_reg s) = Some c" and "waitReady ev c (sv_reg s)"
    and "if cl_Protected (clnt (sv_reg s) c) \<and> Enabled (cfg_FA (sv_cfg s))
         then \<exists>m. cfg_FA (sv_cfg s) = Some m \<and> Authorize (p_fa L) now m (StripIdentityHeaders r) = Inr r'
         else r' = StripIdentityHeaders r"
proof -
  let ?sub = "TrimSuffix (stripPort L (rq_Host r)) (''.'' @ cfg_Domain (sv_cfg s))"
  have suf: "HasSuffix (stripPort L (rq_Host r)) (''.'' @ cfg_Domain (sv_cfg s))"
    and valid: "ValidSubdomain ?sub" and get: "Get ?sub (sv_reg s) = Some c" "waitReady ev c (sv_reg s)"
    using assms by (auto simp: ServeHTTP_def Let_def split: if_splits option.splits sum.splits)
  have "if cl_Protected (clnt (sv_reg s) c) \<and> Enabled (cfg_FA (sv_cfg s))
         then \<exists>m. cfg_FA (sv_cfg s) = Some m \<and> Authorize (p_fa L) now m (StripIdentityHeaders r) = Inr r'
         else r' = StripIdentityHeaders r"
    using assms by (auto simp: ServeHTTP_def Let_def Enabled_def split: if_splits option.splits sum.splits)
  moreover have "stripPort L (rq_Host r) = ?sub @ ''.'' @ cfg_Domain (sv_cfg s)"
    using suf by (auto simp: HasSuffix_iff TrimSuffix_def)
  ultimately show ?thesis using valid get that by blast
qed

lemma Authorize_Inr:
  assumes "Authorize F now m (StripIdentityHeaders r) = Inr r'"
  obtains v se where "map_of (rq_Cookies r) CookieName = Some v" and "verifySession F now m v = Inr se"
    and "r' = injectIdentity se (StripIdentityHeaders r)"
  using assms by (auto simp: Authorize_def Let_def StripIdentityHeaders_def split: option.splits sum.splits)

text \<open>
  Property C3. No viewer can claim an identity: a request that is forwarded went to the ready client registered under
  the name its host carries, and whatever headers the viewer sent, the identity lines on the wire, in the plain form and
  in the upgrade form, are exactly those of a session that verified under the server's key when the tunnel is protected
  and a provider is configured, and there are none otherwise. Every other header line and every other part of the request is what
  the viewer sent.
\<close>

theorem forwarded_identity:
  assumes fwd: "ServeHTTP L now rnd ev s r = Forward r' c" and keys: "canonicalKeys (rq_Header r)"
  shows "(\<exists>sub. stripPort L (rq_Host r) = sub @ ''.'' @ cfg_Domain (sv_cfg s) \<and> ValidSubdomain sub \<and>
        Get sub (sv_reg s) = Some c) \<and> waitReady ev c (sv_reg s) \<and>
     (\<exists>ids. filter isIdentity (wireHeaders cfg r' body) = ids \<and> filter isIdentity (wireUpgradeHeaders cfg r') = ids \<and>
        (if cl_Protected (clnt (sv_reg s) c) \<and> Enabled (cfg_FA (sv_cfg s))
         then \<exists>m v se. cfg_FA (sv_cfg s) = Some m \<and> map_of (rq_Cookies r) CookieName = Some v \<and>
                verifySession (p_fa L) now m v = Inr se \<and> ids = sessionLines se
         else ids = [])) \<and>
     r' = r\<lparr>rq_Header := rq_Header r'\<rparr> \<and>
     filter (\<lambda>l. \<not> isIdentity l) (hdr_lines (rq_Header r')) = filter (\<lambda>l. \<not> isIdentity l) (hdr_lines (rq_Header r))"
proof -
  from fwd obtain sub where route: "stripPort L (rq_Host r) = sub @ ''.'' @ cfg_Domain (sv_cfg s)" "ValidSubdomain sub"
      "Get sub (sv_reg s) = Some c" "waitReady ev c (sv_reg s)"
    and auth: "if cl_Protected (clnt (sv_reg s) c) \<and> Enabled (cfg_FA (sv_cfg s))
         then \<exists>m. cfg_FA (sv_cfg s) = Some m \<and> Authorize (p_fa L) now m (StripIdentityHeaders r) = Inr r'
         else r' = StripIdentityHeaders r"
    by (rule ServeHTTP_Forward)
  let ?keep = "filter (\<lambda>l. \<not> isIdentity l) (hdr_lines (rq_Header r))"
  have none: "filter isIdentity ?keep = []" "filter (\<lambda>l. \<not> isIdentity l) ?keep = ?keep"
    by (simp_all add: filter_False)
  have se: "filter isIdentity (sessionLines se) = sessionLines se" "filter (\<lambda>l. \<not> isIdentity l) (sessionLines se) = []" for se
    by (simp_all add: sessionLines_def isIdentity_def)
  have "\<exists>ids. hdr_lines (rq_Header r') = ?keep @ ids \<and> filter isIdentity ids = ids \<and>
      filter (\<lambda>l. \<not> isIdentity l) ids = [] \<and> r' = r\<lparr>rq_Header := rq_Header r'\<rparr> \<and>
      (if cl_Protected (clnt (sv_reg s) c) \<and> Enabled (cfg_FA (sv_cfg s))
       then \<exists>m v se. cfg_FA (sv_cfg s) = Some m \<and> map_of (rq_Cookies r) CookieName = Some v \<and>
              verifySession (p_fa L) now m v = Inr se \<and> ids = sessionLines se
       else ids = [])"
  proof (cases "cl_Protected (clnt (sv_reg s) c) \<and> Enabled (cfg_FA (sv_cfg s))")
    case True
    with auth obtain m where m: "cfg_FA (sv_cfg s) = Some m"
      and a: "Authorize (p_fa L) now m (StripIdentityHeaders r) = Inr r'" by auto
    from a obtain v se where v: "map_of (rq_Cookies r) CookieName = Some v" "verifySession (p_fa L) now m v = Inr se"
      and r': "r' = injectIdentity se (StripIdentityHeaders r)" by (rule Authorize_Inr)
    have "hdr_lines (rq_Header r') = ?keep @ sessionLines se"
      using inject_lines [OF strip_keys] strip_lines_list [OF keys] by (simp add: r')
    moreover have "r' = r\<lparr>rq_Header := rq_Header r'\<rparr>"
      unfolding r' injectIdentity_def StripIdentityHeaders_def Let_def by simp
    ultimately show ?thesis using True m v se by (intro exI [of _ "sessionLines se"]) auto
  next
    case False
    with auth have "r' = StripIdentityHeaders r" by (auto split: if_splits)
    with False show ?thesis
      using strip_lines_list [OF keys] by (intro exI [of _ "[]"]) (auto simp: StripIdentityHeaders_def)
  qed
  then show ?thesis using route none by (auto simp: wire_identity)
qed

section \<open>Public hosts\<close>

text \<open>Host names as a server is configured with them: lower case, no trailing dot.\<close>

definition hostChar :: "char \<Rightarrow> bool" where
  "hostChar c \<longleftrightarrow> isNameChar c \<or> c = CHR ''.''"

definition hostName :: "string \<Rightarrow> bool" where
  "hostName d \<longleftrightarrow> d \<noteq> [] \<and> list_all hostChar d \<and> last d \<noteq> CHR ''.''"

definition portOK :: "string \<Rightarrow> bool" where
  "portOK p \<longleftrightarrow> CHR '':'' \<notin> set p \<and> CHR ''['' \<notin> set p \<and> CHR '']'' \<notin> set p"

lemma hostChar_lower: "hostChar c \<Longrightarrow> lowerByte c = c \<and> isAscii c \<and> c \<noteq> CHR '':'' \<and> c \<noteq> CHR ''['' \<and> c \<noteq> CHR '']''"
  by (auto simp: hostChar_def isNameChar_def isNameStart_def lowerByte_def isAscii_def Let_def)

lemma hostName_plain:
  assumes "list_all hostChar h"
  shows "ToLower uni h = h" "portOK h"
proof -
  have "\<forall>c \<in> set h. lowerByte c = c \<and> isAscii c \<and> c \<noteq> CHR '':'' \<and> c \<noteq> CHR ''['' \<and> c \<noteq> CHR '']''"
    using assms hostChar_lower by (auto simp: list_all_iff)
  then show "ToLower uni h = h" "portOK h"
    by (auto simp: ToLower_def portOK_def list_all_iff map_idI)
qed

lemma LastIndexByte_append: "c \<notin> set p \<Longrightarrow> LastIndexByte (h @ c # p) c = Some (length h)"
  using IndexByte_append [of c "rev p" "rev h"] by (simp add: LastIndexByte_def)

lemma SplitHostPort_join:
  assumes "portOK h" and "portOK p"
  shows "SplitHostPort (h @ '':'' @ p) = Some (h, p)"
  using assms LastIndexByte_append [of "CHR '':''" p h]
  by (cases h) (auto simp: SplitHostPort_def portOK_def Let_def contains_def)

lemma SplitHostPort_plain: "portOK h \<Longrightarrow> SplitHostPort h = None"
  by (simp add: SplitHostPort_def LastIndexByte_def portOK_def IndexByte_None [THEN iffD2])

lemma ValidSubdomain_host: "ValidSubdomain sub \<Longrightarrow> list_all hostChar sub \<and> sub \<noteq> []"
  by (cases sub) (auto simp: ValidSubdomain_def hostChar_def isNameChar_def list_all_iff)

lemma stripPort_public:
  assumes sub: "ValidSubdomain sub" and d: "hostName (cfg_Domain cfg)" and p: "portOK (publicPort cfg)"
  shows "stripPort L (publicHost cfg sub) = sub @ ''.'' @ cfg_Domain cfg"
proof -
  let ?h = "sub @ ''.'' @ cfg_Domain cfg"
  have h: "list_all hostChar ?h" "\<not> HasSuffix ?h ''.''"
    using ValidSubdomain_host [OF sub] d
    by (auto simp: hostName_def hostChar_def HasSuffix_iff) (metis append_is_Nil_conv last_append last_snoc list.simps(3) last_ConsR)
  have "stripPort L ?h = ?h" "stripPort L (?h @ '':'' @ publicPort cfg) = ?h"
    using hostName_plain [OF h(1)] h(2) SplitHostPort_join [of ?h "publicPort cfg"] p
    by (simp_all add: stripPort_def SplitHostPort_plain TrimSuffix_def)
  then show ?thesis
    using ValidSubdomain_host [OF sub] by (simp add: publicHost_def Let_def)
qed

text \<open>The requests that the server answers itself whatever the host.\<close>

definition ownPath :: "request \<Rightarrow> bool" where
  "ownPath r \<longleftrightarrow> rq_Path r = ''/healthz'' \<or> HasPrefix (rq_Path r) ''/__munnel/''"

lemma own_paths: "rq_Path r = ''/__munnel/token'' \<Longrightarrow> ownPath r"
  by (simp add: ownPath_def HasPrefix_def)

lemma route_by_host:
  assumes host: "stripPort L (rq_Host r) = sub @ ''.'' @ cfg_Domain (sv_cfg s)"
    and path: "\<not> ownPath r" and sub: "ValidSubdomain sub" "sub \<noteq> ''www''"
    and addr: "\<not> p_isIP L (sub @ ''.'' @ cfg_Domain (sv_cfg s))"
      "\<not> isAddrHost (sub @ ''.'' @ cfg_Domain (sv_cfg s)) (cfg_ProxyAddr (sv_cfg s))"
    and get: "Get sub (sv_reg s) = Some c" "waitReady ev c (sv_reg s)"
  shows "ServeHTTP L now rnd ev s r =
     (if cl_Protected (clnt (sv_reg s) c) \<and> Enabled (cfg_FA (sv_cfg s))
      then (case Authorize (p_fa L) now (the (cfg_FA (sv_cfg s))) (StripIdentityHeaders r) of
              Inl rep \<Rightarrow> Answer rep | Inr r' \<Rightarrow> Forward r' c)
      else Forward (StripIdentityHeaders r) c)"
proof -
  let ?d = "cfg_Domain (sv_cfg s)"
  have h: "sub @ ''.'' @ ?d \<noteq> []" "sub @ ''.'' @ ?d \<noteq> ?d" "sub @ ''.'' @ ?d \<noteq> ''www.'' @ ?d"
    using sub(2) append_same_eq [of sub "''.'' @ ?d" "''www''"] by simp_all
  have t: "HasSuffix (sub @ ''.'' @ ?d) (''.'' @ ?d)" "TrimSuffix (sub @ ''.'' @ ?d) (''.'' @ ?d) = sub"
    using HasSuffix_append [of sub "''.'' @ ?d"] by (simp_all add: TrimSuffix_def)
  have p: "rq_Path r \<noteq> ''/healthz''" "rq_Path r \<noteq> ''/__munnel/token''" "\<not> HasPrefix (rq_Path r) ''/__munnel/''"
    using path own_paths [of r] by (auto simp: ownPath_def)
  show ?thesis
    unfolding ServeHTTP_def host Let_def
    using h t p sub(1) addr get by (auto simp: Enabled_def split: option.splits)
qed


text \<open>The exception is real: the tunnel named \<^verbatim>\<open>www\<close> can be claimed, but its public host shows the landing page.\<close>

lemma www_tunnel_unreachable:
  assumes "rq_Host r = publicHost (sv_cfg s) ''www''" and "rq_Path r = ''/''"
    and "hostName (cfg_Domain (sv_cfg s))" and "portOK (publicPort (sv_cfg s))"
  shows "ServeHTTP L now rnd ev s r =
     Answer (mkReply 200 (LandingPage (cfg_Domain (sv_cfg s)) (cfg_ControlAddr (sv_cfg s)) (cfg_PublicScheme (sv_cfg s))))"
proof -
  have "ValidSubdomain ''www''" by (simp add: ValidSubdomain_def isNameStart_def isNameChar_def)
  then have "stripPort L (rq_Host r) = ''www.'' @ cfg_Domain (sv_cfg s)"
    using assms stripPort_public [of "''www''" "sv_cfg s" L] by simp
  then show ?thesis using assms(2) by (simp add: ServeHTTP_def serveLanding_def Let_def)
qed

section \<open>A server to try things on\<close>

definition demo_plib :: plib where
  "demo_plib = \<lparr>l_lower = l_lower demo_lib, l_hmac = l_hmac demo_lib,
     l_marshal = (\<lambda>c. if c_Sub c = ''blog'' \<and> c_Exp c = 90 \<and> c_ID c = ''tok_41'' \<and> \<not> c_Prot c then Some ''{blog}'' else None),
     l_unmarshal = (\<lambda>p. if p = ''{blog}'' then Some \<lparr>c_Sub = ''blog'', c_Exp = 90, c_ID = ''tok_41'', c_Prot = False\<rparr> else None),
     p_fa = demo_falib, p_isIP = (\<lambda>h. list_all (\<lambda>c. c \<in> set ''0123456789.:'') h),
     p_duration = (\<lambda>d. if d = ''60s'' then Some (60 * 10 ^ 9) else None), p_durStr = (\<lambda>_. ''1m0s''), p_quote = (\<lambda>s. s),
     p_tokenReq = (\<lambda>b. Some \<lparr>tr_Sub = ''blog'', tr_Password = b, tr_TTL = ''60s''\<rparr>), p_meta = (\<lambda>_. None)\<rparr>"

text \<open>One protected, ready tunnel named \<^verbatim>\<open>hop\<close>, and a viewer who is logged in as \<^verbatim>\<open>ann\<close> and claims to be \<^verbatim>\<open>bob\<close>.\<close>

definition demo_psrv :: server where
  "demo_psrv = demo_srv\<lparr>sv_cfg := (sv_cfg demo_srv)\<lparr>cfg_EnrollPassword := ''pw''\<rparr>,
     sv_reg := markReady 0 (setProtected 0 True demo_reg)\<rparr>"

definition demo_cookie :: string where
  "demo_cookie = the (signSession demo_falib 0 demo_manager ''ann'' [])"

definition demo_req :: request where
  "demo_req = \<lparr>rq_Method = ''GET'', rq_Path = ''/x'', rq_URI = ''/x'', rq_Host = ''hop.ex.org'',
     rq_Header = [(''Accept'', [''*/*'']), (''X-Authenticated-User'', [''bob'']), (''Te'', [''trailers''])], rq_Query = [],
     rq_Form = None, rq_Cookies = [(CookieName, demo_cookie)], rq_RemoteAddr = ''6.6.6.6:6'', rq_ContentLength = 0,
     rq_Body = ([], None), rq_TLS = False\<rparr>"

lemma demo_cookie_verifies:
  "verifySession demo_falib 0 demo_manager demo_cookie = Inr \<lparr>fs_User = ''ann'', fs_Groups = [], fs_Exp = 3600\<rparr>"
proof -
  have "demo_cookie = fa_prefix @ b64 ''ann'' @ ''.'' @ b64 (fa_hmacSum demo_falib (fm_key demo_manager) ''ann'')"
    by (simp add: demo_cookie_def signSession_def demo_falib_def demo_manager_def NewManager_def unix_def)
  moreover have "fl_unmarshal demo_falib ''ann'' = Some \<lparr>fs_User = ''ann'', fs_Groups = [], fs_Exp = 3600\<rparr>"
    by (simp add: demo_falib_def)
  ultimately show ?thesis
    using verify_signed [of demo_falib "''ann''" "\<lparr>fs_User = ''ann'', fs_Groups = [], fs_Exp = 3600\<rparr>" 0 demo_manager]
    by (simp add: unix_def)
qed

lemma demo_psrv_facts:
  "Get ''hop'' (sv_reg demo_psrv) = Some 0" "cl_ready (clnt (sv_reg demo_psrv) 0)" "cl_Protected (clnt (sv_reg demo_psrv) 0)"
  "Enabled (Some demo_manager)" "cfg_FA (sv_cfg demo_psrv) = Some demo_manager"
  "cfg_Domain (sv_cfg demo_psrv) = ''ex.org''" "publicPort (sv_cfg demo_psrv) = ''443''"
  "publicHost (sv_cfg demo_psrv) ''hop'' = ''hop.ex.org''" "cfg_ProxyAddr (sv_cfg demo_psrv) = '':8080''"
  by (simp_all add: demo_psrv_def demo_srv_def markReady_def setProtected_def demo_reg_eq Get_def clnt_def Enabled_def
      demo_manager_def NewManager_def publicPort_def publicHost_def)

lemma demo_hosts: "hostName ''ex.org''" "portOK ''443''" "ValidSubdomain ''hop''"
  "\<not> p_isIP demo_plib ''hop.ex.org''" "\<not> isAddrHost ''hop.ex.org'' '':8080''" "\<not> ownPath demo_req"
  by (simp_all add: hostName_def hostChar_def isNameChar_def isNameStart_def portOK_def ValidSubdomain_def demo_plib_def
      isAddrHost_def SplitHostPort_def LastIndexByte_def contains_def TrimPrefix_def HasPrefix_def Let_def ownPath_def demo_req_def)

lemma demo_authorize:
  "Authorize demo_falib 0 demo_manager (StripIdentityHeaders demo_req) =
     Inr (injectIdentity \<lparr>fs_User = ''ann'', fs_Groups = [], fs_Exp = 3600\<rparr> (StripIdentityHeaders demo_req))"
  by (simp add: Authorize_def StripIdentityHeaders_def demo_req_def demo_cookie_verifies Let_def)


theorem forwarded_identity_witness:
  "\<exists>r'. ServeHTTP demo_plib 0 None TimerFires demo_psrv demo_req = Forward r' 0 \<and>
     filter isIdentity (wireHeaders (sv_cfg demo_psrv) r' []) = [(''X-Authenticated-User'', ''ann'')]"
proof -
  have pf: "p_fa demo_plib = demo_falib" by (simp add: demo_plib_def)
  have "stripPort demo_plib (rq_Host demo_req) = ''hop'' @ ''.'' @ cfg_Domain (sv_cfg demo_psrv)"
    using stripPort_public [of "''hop''" "sv_cfg demo_psrv" demo_plib] demo_hosts
    by (simp add: demo_psrv_facts demo_req_def)
  then obtain r' where fwd: "ServeHTTP demo_plib 0 None TimerFires demo_psrv demo_req = Forward r' 0"
    using route_by_host [of demo_plib demo_req "''hop''" demo_psrv 0 TimerFires 0 None] demo_hosts demo_authorize
    by (simp add: demo_psrv_facts pf waitReady_def)
  have keys: "canonicalKeys (rq_Header demo_req)"
    by (simp add: canonicalKeys_def demo_req_def CanonicalHeaderKey_def isTokenByte_def upperByte_def lowerByte_def)
  have "map_of (rq_Cookies demo_req) CookieName = Some demo_cookie" by (simp add: demo_req_def)
  with forwarded_identity [OF fwd keys, of "sv_cfg demo_psrv" "[]"] fwd show ?thesis
    by (auto simp: demo_psrv_facts pf demo_cookie_verifies sessionLines_def UserHeader_def)
qed

section \<open>Self-service tokens\<close>

lemma mkReply_inject [simp]: "mkReply a p = mkReply b q \<longleftrightarrow> a = b \<and> p = q"
  by (auto simp: mkReply_def)

lemma tokenIssueError_neq [simp]: "tokenIssueError st m \<noteq> mkReply n (TokenIssued a b c d)"
  by (simp add: tokenIssueError_def)

lemma enrollTTL_bounds: "enrollTTL L w = Some ttl \<Longrightarrow> 0 < ttl \<and> ttl \<le> maxEnrollTTL"
  by (auto simp: enrollTTL_def maxEnrollTTL_def defaultEnrollTTL_def split: if_splits option.splits)

lemma handleTokenIssue_200:
  assumes "handleTokenIssue L now rnd s r = mkReply 200 (TokenIssued tok tid sub expires)"
  obtains body req ttl where "cfg_EnrollPassword (sv_cfg s) \<noteq> []" and "limitBody (64 * 2 ^ 10) (rq_Body r) = Inr body"
    and "p_tokenReq L body = Some req" and "tr_Password req = cfg_EnrollPassword (sv_cfg s)"
    and "sub = NormalizeSubdomain (l_lower L) (tr_Sub req)"
    and "sub = [] \<or> ValidSubdomain sub \<and> \<not> IsReserved (sv_auth s) sub"
    and "enrollTTL L (tr_TTL req) = Some ttl" and "expires = now + ttl"
    and "auth_Mint L now rnd (sv_auth s) \<lparr>mo_Sub = sub, mo_TTL = ttl, mo_Prot = False\<rparr> = Inr tok" and "tid = IDOf L tok"
  using assms
  by (auto simp: handleTokenIssue_def Let_def split: if_splits sum.splits option.splits)

text \<open>
  Property C25. How far the enrollment password reaches. A token is issued only when an enrollment password is configured and the
  request carries it; its name is empty or valid and not reserved; it expires within thirty days. What is returned is
  a token the server itself accepts until that moment, scoped to that name, without the protection flag, with the returned id.
\<close>

theorem token_issuance:
  assumes rep: "handleTokenIssue L now rnd s r = mkReply 200 (TokenIssued tok tid sub expires)"
    and json: "json_claims L" and time: "10 ^ 9 \<le> now" "now + maxEnrollTTL < 2 ^ 63"
  shows "(\<exists>body req. limitBody (64 * 2 ^ 10) (rq_Body r) = Inr body \<and> p_tokenReq L body = Some req \<and>
        tr_Password req = cfg_EnrollPassword (sv_cfg s) \<and> tr_Password req \<noteq> []) \<and>
     (sub = [] \<or> ValidSubdomain sub \<and> \<not> IsReserved (sv_auth s) sub) \<and>
     now < expires \<and> expires \<le> now + 30 * 24 * 3600 * 10 ^ 9 \<and>
     (\<exists>c. c_Sub c = sub \<and> c_ID c = tid \<and> \<not> c_Prot c \<and>
        (\<forall>t. Parse L t (au_signing (sv_auth s)) tok = (if unix expires < unix t then Inl ErrExpired else Inr c)))"
proof -
  from rep obtain body req ttl where pw: "cfg_EnrollPassword (sv_cfg s) \<noteq> []"
      "limitBody (64 * 2 ^ 10) (rq_Body r) = Inr body" "p_tokenReq L body = Some req" "tr_Password req = cfg_EnrollPassword (sv_cfg s)"
    and sub: "sub = [] \<or> ValidSubdomain sub \<and> \<not> IsReserved (sv_auth s) sub"
    and en: "enrollTTL L (tr_TTL req) = Some ttl" and expires: "expires = now + ttl"
    and mint: "auth_Mint L now rnd (sv_auth s) \<lparr>mo_Sub = sub, mo_TTL = ttl, mo_Prot = False\<rparr> = Inr tok"
    and tid: "tid = IDOf L tok"
    by (rule handleTokenIssue_200)
  note ttl = enrollTTL_bounds [OF en] expires
  let ?o = "\<lparr>mo_Sub = sub, mo_TTL = ttl, mo_Prot = False\<rparr>"
  have m: "MintWith L now rnd (au_signing (sv_auth s)) ?o = Inr tok"
    using mint by (auto simp: auth_Mint_def split: if_splits sum.splits)
  have ascii: "list_all isAscii (mo_Sub ?o)"
    using sub ValidSubdomain_host [of sub] hostChar_lower by (auto simp: list_all_iff)
  have range: "0 \<le> now" "now + mo_TTL ?o < 2 ^ 63" using time ttl by simp_all
  have exp: "0 < unix (now + ttl)"
    using time(1) ttl(1) by (simp add: unix_def pos_imp_zdiv_pos_iff)
  have "\<exists>c. c_Sub c = sub \<and> c_ID c = tid \<and> \<not> c_Prot c \<and>
      Parse L t (au_signing (sv_auth s)) tok = (if unix expires < unix t then Inl ErrExpired else Inr c)" for t
    using minted_token [OF m json ascii range, of t] ttl exp tid by auto
  then obtain C where C: "\<And>t. c_Sub (C t) = sub \<and> c_ID (C t) = tid \<and> \<not> c_Prot (C t) \<and>
      Parse L t (au_signing (sv_auth s)) tok = (if unix expires < unix t then Inl ErrExpired else Inr (C t))"
    by metis
  have le: "unix now \<le> unix expires" using ttl by (simp add: unix_def zdiv_mono1)
  have same: "C t = C now" if "unix t \<le> unix expires" for t
  proof (rule Parse_time)
    show "Parse L now (au_signing (sv_auth s)) tok = Inr (C now)" using C [of now] le by simp
    show "Parse L t (au_signing (sv_auth s)) tok = Inr (C t)" using C [of t] that by simp
  qed
  have "Parse L t (au_signing (sv_auth s)) tok = (if unix expires < unix t then Inl ErrExpired else Inr (C now))" for t
    using C [of t] same [of t] by (cases "unix expires < unix t") simp_all
  then show ?thesis
    using pw sub ttl C [of now] by (auto simp: maxEnrollTTL_def intro!: exI [of _ "C now"])
qed

theorem token_issuance_witness:
  "\<exists>tok. handleTokenIssue demo_plib (30 * 10 ^ 9) (Some [CHR ''A'']) demo_psrv (demo_req\<lparr>rq_Body := (''pw'', None)\<rparr>) =
      mkReply 200 (TokenIssued tok ''tok_41'' ''blog'' (90 * 10 ^ 9)) \<and>
     (\<exists>c. c_Sub c = ''blog'' \<and> Parse demo_plib 0 ''k'' tok = Inr c \<and> Parse demo_plib (91 * 10 ^ 9) ''k'' tok = Inl ErrExpired)"
proof -
  let ?r = "demo_req\<lparr>rq_Body := (''pw'', None)\<rparr>" and ?o = "\<lparr>mo_Sub = ''blog'', mo_TTL = 60 * 10 ^ 9, mo_Prot = False\<rparr>"
  let ?tok = "signed_token demo_plib ''k'' ''{blog}''"
  have a: "sv_auth demo_psrv = demo_auth" "au_signing demo_auth = ''k''" "\<not> IsReserved demo_auth ''blog''"
    by (simp_all add: demo_psrv_def demo_srv_def demo_auth_def IsReserved_def)
  have mint: "auth_Mint demo_plib (30 * 10 ^ 9) (Some [CHR ''A'']) demo_auth ?o = Inr ?tok"
    by (simp add: auth_Mint_def a MintWith_def randomID_def hexEncode_def hex_digit_def demo_plib_def unix_def signed_token_def
        char_of_def bit_0)
  have tid: "IDOf demo_plib ?tok = ''tok_41''"
    using IndexByte_body [of "''{blog}''"]
    by (simp add: IDOf_def signed_token_def Let_def b64d_def b64_def) (simp add: demo_plib_def)
  have "NormalizeSubdomain (l_lower demo_plib) ''blog'' = ''blog''" "ValidSubdomain ''blog''"
    by (simp_all add: NormalizeSubdomain_def TrimSpace_plain graphic_def ToLower_def isAscii_def lowerByte_def ValidSubdomain_def
        isNameStart_def isNameChar_def)
  moreover have "p_tokenReq demo_plib ''pw'' = Some \<lparr>tr_Sub = ''blog'', tr_Password = ''pw'', tr_TTL = ''60s''\<rparr>"
    "p_duration demo_plib ''60s'' = Some (60 * 10 ^ 9)" "cfg_EnrollPassword (sv_cfg demo_psrv) = ''pw''"
    by (simp_all add: demo_plib_def demo_psrv_def)
  ultimately have rep: "handleTokenIssue demo_plib (30 * 10 ^ 9) (Some [CHR ''A'']) demo_psrv ?r =
      mkReply 200 (TokenIssued ?tok ''tok_41'' ''blog'' (90 * 10 ^ 9))"
    using mint tid a by (simp add: handleTokenIssue_def limitBody_def Let_def enrollTTL_def maxEnrollTTL_def)
  have json: "json_claims demo_plib" by (auto simp: json_claims_def demo_plib_def)
  from token_issuance [OF rep json] rep show ?thesis
    by (auto simp: maxEnrollTTL_def a unix_def)
qed

end
