(* ===== verification/Wire.thy ===== *)
theory Wire
  imports Proxy_Props
begin

text \<open>
  A public request on its way to the tunnel's client: how its bytes are framed as HTTP, how they travel as
  frames of one stream, and what the client's end of the stream gives its reader.
\<close>

section \<open>Reading a request head\<close>

text \<open>
  A reference reader of HTTP/1.1 framing: lines up to the first CR LF, until an empty one; what follows is the
  body.
\<close>

fun cutLine :: "string \<Rightarrow> (string \<times> string) option" where
  "cutLine (c # d # cs) =
     (if c = CHR 13 \<and> d = CHR 10 then Some ([], cs)
      else map_option (\<lambda>(l, r). (c # l, r)) (cutLine (d # cs)))"
| "cutLine s = None"

lemma cutLine_length: "cutLine s = Some (l, r) \<Longrightarrow> length r < length s"
  by (induction s arbitrary: l rule: cutLine.induct) (fastforce split: if_splits)+

function readHead :: "string \<Rightarrow> (string list \<times> string) option" where
  "readHead s =
     (case cutLine s of
        None \<Rightarrow> None
      | Some (l, r) \<Rightarrow>
          if l = [] then Some ([], r)
          else map_option (\<lambda>(ls, b). (l # ls, b)) (readHead r))"
  by pat_completeness auto
termination
  by (relation "measure length") (auto dest: cutLine_length)

declare readHead.simps [simp del]

definition lineSafe :: "string \<Rightarrow> bool" where
  "lineSafe s \<longleftrightarrow> CHR 13 \<notin> set s \<and> CHR 10 \<notin> set s"

lemma lineSafe_simps [simp]:
  "lineSafe []" "lineSafe (c # s) \<longleftrightarrow> c \<noteq> CHR 13 \<and> c \<noteq> CHR 10 \<and> lineSafe s"
  "lineSafe (s @ t) \<longleftrightarrow> lineSafe s \<and> lineSafe t"
  by (auto simp: lineSafe_def)

lemma cutLine_line: "lineSafe l \<Longrightarrow> cutLine (l @ crlf @ r) = Some (l, r)"
proof (induction l)
  case (Cons c l)
  then have "cutLine (c # (l @ crlf @ r)) = map_option (\<lambda>(m, r). (c # m, r)) (cutLine (l @ crlf @ r))"
    by (cases "l @ crlf @ r") auto
  with Cons show ?case by simp
qed simp

lemma readHead_lines:
  assumes "list_all (\<lambda>l. lineSafe l \<and> l \<noteq> []) ls"
  shows "readHead (concat (map (\<lambda>l. l @ crlf) ls) @ crlf @ body) = Some (ls, body)"
  using assms
proof (induction ls)
  case Nil
  then show ?case using cutLine_line [of "[]" body] by (simp add: readHead.simps)
next
  case (Cons l ls)
  let ?r = "concat (map (\<lambda>l. l @ crlf) ls) @ crlf @ body"
  have "cutLine (l @ crlf @ ?r) = Some (l, ?r)" using Cons.prems by (intro cutLine_line) simp
  moreover have "readHead ?r = Some (ls, body)" using Cons by simp
  ultimately have "readHead (l @ crlf @ ?r) = Some (l # ls, body)"
    using Cons.prems by (subst readHead.simps) simp
  then show ?case by simp
qed

section \<open>The server's request lines\<close>

text \<open>What the HTTP server guarantees of a parsed request: no line break in anything that is written to the head.\<close>

definition requestSafe :: "config \<Rightarrow> request \<Rightarrow> bool" where
  "requestSafe cfg r \<longleftrightarrow>
     lineSafe (rq_Method r) \<and> lineSafe (rq_URI r) \<and> lineSafe (rq_Host r) \<and> lineSafe (rq_RemoteAddr r) \<and>
     lineSafe (cfg_PublicScheme cfg) \<and> list_all (\<lambda>l. lineSafe (fst l) \<and> lineSafe (snd l)) (hdr_lines (rq_Header r))"

lemma lineSafe_subset: "lineSafe t \<Longrightarrow> set s \<subseteq> set t \<Longrightarrow> lineSafe s"
  by (auto simp: lineSafe_def)

lemma remoteIP_safe: "lineSafe a \<Longrightarrow> lineSafe (remoteIP a)"
  by (rule lineSafe_subset)
     (auto simp: remoteIP_def SplitHostPort_def Let_def split: option.splits if_splits dest!: in_set_takeD in_set_dropD)

lemma Itoa_safe: "lineSafe (Itoa i)"
proof -
  have "lineSafe (itoaNat n)" for n using itoaNat_digits [of n] by (auto simp: lineSafe_def list_all_iff isDigit_def)
  then show ?thesis by (simp add: Itoa_def)
qed

lemma hdr_Get_safe:
  assumes "list_all (\<lambda>l. lineSafe (fst l) \<and> lineSafe (snd l)) (hdr_lines h)"
  shows "lineSafe (hdr_Get h k)"
proof (cases "hdr_Values h k")
  case (Cons v vs)
  then have "(CanonicalHeaderKey k, v # vs) \<in> set h"
    by (auto simp: hdr_Values_def split: option.splits dest: map_of_SomeD)
  then have "(CanonicalHeaderKey k, v) \<in> set (hdr_lines h)" by (auto simp: in_hdr_lines)
  with assms Cons show ?thesis by (auto simp: hdr_Get_def list_all_iff)
qed (simp add: hdr_Get_def)

lemma wireHeaders_safe:
  assumes "requestSafe cfg r"
  shows "list_all (\<lambda>l. lineSafe (fst l) \<and> lineSafe (snd l)) (wireHeaders cfg r body)"
  using assms hdr_Get_safe [of "rq_Header r" "''X-Forwarded-For''"] remoteIP_safe [of "rq_RemoteAddr r"]
  by (auto simp: requestSafe_def wireHeaders_def forwardedFor_def Let_def Itoa_safe list_all_iff)

definition headLine :: "string \<times> string \<Rightarrow> string" where
  "headLine kv = fst kv @ '': '' @ snd kv"

lemma hdrLine_eq: "hdrLine = (\<lambda>kv. headLine kv @ crlf)"
  by (auto simp: hdrLine_def headLine_def)

text \<open>The names munnel writes itself.\<close>

lemma own_names_canonical [simp]:
  "CanonicalHeaderKey ''Host'' = ''Host''" "CanonicalHeaderKey ''X-Forwarded-For'' = ''X-Forwarded-For''"
  "CanonicalHeaderKey ''X-Forwarded-Host'' = ''X-Forwarded-Host''" "CanonicalHeaderKey ''X-Forwarded-Proto'' = ''X-Forwarded-Proto''"
  "CanonicalHeaderKey ''Content-Length'' = ''Content-Length''"
  by (simp_all add: CanonicalHeaderKey_def isTokenByte_def upperByte_def lowerByte_def)

lemma own_names_end_to_end:
  "''Host'' \<notin> set hopByHop" "''X-Forwarded-For'' \<notin> set hopByHop" "''X-Forwarded-Host'' \<notin> set hopByHop"
  "''X-Forwarded-Proto'' \<notin> set hopByHop" "''Content-Length'' \<notin> set hopByHop"
  by (simp_all add: hopByHop_def)

lemma wireHeaders_end_to_end: "l \<in> set (wireHeaders cfg r body) \<Longrightarrow> CanonicalHeaderKey (fst l) \<notin> set hopByHop"
  using own_names_end_to_end unfolding wireHeaders_def forwardedFor_def Let_def by (auto split: if_splits)

lemma wireRequest_read:
  assumes "requestSafe cfg r"
  shows "readHead (wireRequest cfg r body) =
     Some ((rq_Method r @ '' '' @ rq_URI r @ '' HTTP/1.1'') # map headLine (wireHeaders cfg r body), body)"
proof -
  let ?ls = "(rq_Method r @ '' '' @ rq_URI r @ '' HTTP/1.1'') # map headLine (wireHeaders cfg r body)"
  have "list_all (\<lambda>l. lineSafe l \<and> l \<noteq> []) ?ls"
    using assms wireHeaders_safe [OF assms, of body] by (auto simp: requestSafe_def list_all_iff headLine_def)
  from readHead_lines [OF this, of body] show ?thesis
    by (simp add: wireRequest_def requestLine_def hdrLine_eq comp_def)
qed

text \<open>
  A request on the tunnel is framed unambiguously: reading the bytes the server writes, line by line up to the first empty
  line, gives back the request line, exactly the header lines the server meant to send and the exact body. None of them is a hop-by-hop
  header; a body is announced with its exact length, as is an empty one of a method that has bodies.
\<close>

theorem request_framing:
  assumes "requestSafe cfg r"
  shows "readHead (wireRequest cfg r body) =
     Some ((rq_Method r @ '' '' @ rq_URI r @ '' HTTP/1.1'') # map (\<lambda>(k, v). k @ '': '' @ v) (wireHeaders cfg r body), body) \<and>
     (\<forall>l \<in> set (wireHeaders cfg r body). CanonicalHeaderKey (fst l) \<notin> set hopByHop) \<and>
     (body \<noteq> [] \<or> methodHasBody (rq_Method r) \<longrightarrow>
        (''Content-Length'', Itoa (int (length body))) \<in> set (wireHeaders cfg r body))"
proof -
  have "headLine = (\<lambda>(k, v). k @ '': '' @ v)" by (auto simp: headLine_def)
  moreover have "body \<noteq> [] \<or> methodHasBody (rq_Method r) \<longrightarrow>
      (''Content-Length'', Itoa (int (length body))) \<in> set (wireHeaders cfg r body)"
    by (auto simp: wireHeaders_def)
  ultimately show ?thesis using wireRequest_read [OF assms] wireHeaders_end_to_end by simp
qed

lemma demo_wireHeaders:
  "wireHeaders (sv_cfg demo_psrv) demo_req body =
     [(''Host'', ''hop.ex.org''), (''Accept'', ''*/*''), (''X-Authenticated-User'', ''bob''), (''X-Forwarded-For'', ''6.6.6.6''),
      (''X-Forwarded-Host'', ''hop.ex.org''), (''X-Forwarded-Proto'', ''https'')] @
     (if body = [] then [] else [(''Content-Length'', Itoa (int (length body)))])"
proof -
  have "CanonicalHeaderKey ''Accept'' = ''Accept''" "CanonicalHeaderKey ''Te'' = ''Te''"
    by (simp_all add: CanonicalHeaderKey_def isTokenByte_def upperByte_def lowerByte_def)
  moreover have "remoteIP ''6.6.6.6:6'' = ''6.6.6.6''"
    by (simp add: remoteIP_def SplitHostPort_def LastIndexByte_def contains_def Let_def)
  moreover have "cfg_PublicScheme (sv_cfg demo_psrv) = ''https''" by (simp add: demo_psrv_def demo_srv_def)
  moreover have "''Accept'' \<notin> set hopByHop" "''Te'' \<in> set hopByHop" "''X-Authenticated-User'' \<notin> set hopByHop"
    by (simp_all add: hopByHop_def)
  ultimately show ?thesis
    using canonical_identity(1)
    by (simp add: wireHeaders_def demo_req_def hdr_lines_def forwardedFor_def hdr_Get_def hdr_Values_def UserHeader_def
        methodHasBody_def)
qed

lemma demo_safe: "requestSafe (sv_cfg demo_psrv) demo_req"
  by (simp add: requestSafe_def demo_req_def hdr_lines_def) (simp add: demo_psrv_def demo_srv_def)

lemma demo_req_fields: "rq_Method demo_req = ''GET''" "rq_URI demo_req = ''/x''"
  by (simp_all add: demo_req_def)

theorem request_framing_witness:
  "readHead (wireRequest (sv_cfg demo_psrv) demo_req ''hi'') =
     Some ([''GET /x HTTP/1.1'', ''Host: hop.ex.org'', ''Accept: */*'', ''X-Authenticated-User: bob'', ''X-Forwarded-For: 6.6.6.6'',
        ''X-Forwarded-Host: hop.ex.org'', ''X-Forwarded-Proto: https'', ''Content-Length: 2''], ''hi'')"
proof -
  have "Itoa 2 = ''2''" by (simp add: Itoa_def itoaNat.simps char_of_def bit_0)
  then show ?thesis
    using request_framing [OF demo_safe, of "''hi''"] by (simp add: demo_wireHeaders demo_req_fields)
qed

section \<open>Sending on a working connection\<close>

text \<open>A session that is open on a connection without failures.\<close>

definition healthy :: "session \<Rightarrow> bool" where
  "healthy s \<longleftrightarrow> \<not> s_closed s \<and> w_plan (s_conn s) = [] \<and> \<not> w_closed (s_conn s)"

lemma sess_writeFrame_healthy:
  assumes "healthy s"
  obtains s' where "sess_writeFrame t i p s = (None, s')" and "healthy s'" and "conn_only s s'"
    and "w_bytes (s_conn s') = w_bytes (s_conn s) @ frame_bytes (t, i, p)"
proof -
  obtain w where w: "writeFrame t i p (s_conn s) = (None, w)" "w_plan w = []" "\<not> w_closed w"
    using writeFrame_healthy [of "s_conn s" t i p] assms by (auto simp: healthy_def)
  then have f: "sess_writeFrame t i p s = (None, s\<lparr>s_conn := w\<rparr>)"
    using assms by (simp add: sess_writeFrame_def healthy_def)
  show ?thesis
    using that [OF f] sess_writeFrame_bytes [OF f] sess_writeFrame_conn_only [of s t i p] assms w
    by (simp add: f healthy_def)
qed

lemma writeLoop_healthy:
  assumes "healthy s" and "checkWrite (strm s r) = None"
  shows "\<exists>s'. writeLoop r b tot s = ((tot + length b, None), s') \<and> healthy s' \<and> conn_only s s'"
  using assms
proof (induction r b tot s rule: writeLoop.induct)
  case (1 r b tot s)
  let ?n = "min (length b) MaxPayload"
  show ?case
  proof (cases "b = []")
    case True
    with "1.prems" show ?thesis by (simp add: writeLoop.simps [of r "[]"])
  next
    case False
    from "1.prems"(1) obtain s1 where s1: "sess_writeFrame FrameData (st_id (strm s r)) (take ?n b) s = (None, s1)"
      "healthy s1" "conn_only s s1" by (rule sess_writeFrame_healthy)
    have c: "(if 0 < tot then checkWrite (strm s r) else None) = None" using "1.prems"(2) by simp
    have "checkWrite (strm s1 r) = None" using conn_only_frame(7) [OF s1(3)] "1.prems"(2) by simp
    with "1.IH" [OF False c refl s1(1) [symmetric] refl s1(2)] obtain s' where
      s': "writeLoop r (drop ?n b) (tot + ?n) s1 = ((tot + ?n + length (drop ?n b), None), s')" "healthy s'" "conn_only s1 s'"
      by blast
    have "tot + ?n + length (drop ?n b) = tot + length b" by simp
    with s' s1 c False show ?thesis
      by (intro exI [of _ s']) (simp add: writeLoop.simps [of r b tot s] Let_def conn_only_trans [OF s1(3) s'(3)])
  qed
qed

lemma Write_healthy:
  assumes "healthy s" and "checkWrite (strm s r) = None"
  obtains s' where "Write r b s = ((length b, None), s')" and "healthy s'" and "conn_only s s'"
    and "w_bytes (s_conn s') = w_bytes (s_conn s) @ concat (map frame_bytes (data_frames (st_id (strm s r)) b))"
proof -
  obtain s' where s': "Write r b s = ((length b, None), s')" "healthy s'" "conn_only s s'"
    using writeLoop_healthy [OF assms, of b 0] assms(2) by (auto simp: Write_def)
  with that show ?thesis using Write_sent [OF s'(1)] by blast
qed

lemma writeParts_healthy:
  assumes "healthy s" and "checkWrite (strm s r) = None"
  shows "\<exists>s'. writeParts r ps s = (None, s') \<and> healthy s' \<and> conn_only s s' \<and>
     w_bytes (s_conn s') = w_bytes (s_conn s) @
       concat (map (\<lambda>p. frame_bytes (FrameData, st_id (strm s r), p)) (concat (map chunked ps)))"
  using assms
proof (induction ps arbitrary: s)
  case (Cons p ps)
  from Cons.prems obtain s1 where s1: "Write r p s = ((length p, None), s1)" "healthy s1" "conn_only s s1"
      "w_bytes (s_conn s1) = w_bytes (s_conn s) @ concat (map frame_bytes (data_frames (st_id (strm s r)) p))"
    by (rule Write_healthy)
  have same: "strm s1 r = strm s r" by (rule conn_only_frame(7) [OF s1(3)])
  obtain s' where "writeParts r ps s1 = (None, s')" "healthy s'" "conn_only s1 s'"
      "w_bytes (s_conn s') = w_bytes (s_conn s1) @
       concat (map (\<lambda>p. frame_bytes (FrameData, st_id (strm s1 r), p)) (concat (map chunked ps)))"
    using Cons.IH [OF s1(2)] Cons.prems(2) same by auto
  then show ?case
    using s1 same conn_only_trans [OF s1(3)] by (intro exI [of _ s']) (simp add: comp_def)
qed simp

lemma concat_chunks: "concat (concat (map chunked ps)) = concat ps"
  by (induction ps) simp_all

lemma OpenStream_healthy:
  assumes "healthy s"
  obtains s' where "OpenStream m s = (Inr (length (s_heap s)), s')" and "healthy s'" and "getStream (s_nextID s) s' = Some (length (s_heap s))"
    and "strm s' (length (s_heap s)) = newStream (s_nextID s)" and "length (s_heap s') = Suc (length (s_heap s))"
    and "w_bytes (s_conn s') = w_bytes (s_conn s) @ frame_bytes (FrameOpen, s_nextID s, m)"
proof -
  let ?s3 = "s\<lparr>s_nextID := s_nextID s + 2, s_heap := s_heap s @ [newStream (s_nextID s)],
      s_streams := AList.update (s_nextID s) (length (s_heap s)) (s_streams s)\<rparr>"
  have h: "healthy ?s3" using assms by (simp add: healthy_def)
  then obtain s' where s': "sess_writeFrame FrameOpen (s_nextID s) m ?s3 = (None, s')" "healthy s'" "conn_only ?s3 s'"
      "w_bytes (s_conn s') = w_bytes (s_conn ?s3) @ frame_bytes (FrameOpen, s_nextID s, m)"
    by (rule sess_writeFrame_healthy)
  have "OpenStream m s = (Inr (length (s_heap s)), s')"
    using s'(1) assms by (simp add: OpenStream_def alloc_def Let_def healthy_def)
  then show ?thesis
    using that s' conn_only_frame(1,2) [OF s'(3)] by (simp add: strm_def getStream_def map_of_AList_update)
qed

lemma CloseWrite_healthy:
  assumes "healthy s" and "checkWrite (strm s r) = None" and "r < length (s_heap s)"
  obtains s' where "CloseWrite r s = (None, s')"
    and "w_bytes (s_conn s') = w_bytes (s_conn s) @ frame_bytes (FrameClose, st_id (strm s r), [])"
    and "\<not> readDone (strm s r) \<longrightarrow> strm s' r = (strm s r)\<lparr>sentClose := True\<rparr> \<and> s_streams s' = s_streams s"
proof -
  have open_: "\<not> sentClose (strm s r)" "\<not> rst (strm s r)" using assms(2) by (simp_all add: checkWrite_None)
  let ?s1 = "upd r (\<lambda>st. st\<lparr>sentClose := True\<rparr>) s"
  have "healthy ?s1" using assms(1) by (simp add: healthy_def upd_def)
  then obtain s2 where s2: "sess_writeFrame FrameClose (st_id (strm s r)) [] ?s1 = (None, s2)" "conn_only ?s1 s2"
    by (rule sess_writeFrame_healthy)
  let ?s' = "if readDone (strm s r) then remove r s2 else s2"
  have c: "CloseWrite r s = (None, ?s')" using open_ s2(1) by (simp add: CloseWrite_def Let_def)
  have "strm s2 r = (strm s r)\<lparr>sentClose := True\<rparr> \<and> s_streams s2 = s_streams s"
    using conn_only_frame(2,7) [OF s2(2)] assms(3) by (simp add: strm_def upd_def)
  then show ?thesis using that [OF c CloseWrite_sent [OF c open_]] by simp
qed

text \<open>What the first half of \<^verbatim>\<open>proxyTo\<close> puts on a working connection.\<close>

lemma proxyTo_sends:
  assumes h: "healthy s" and body: "readBody cfg r = Inr body"
  obtains s' where "proxyTo L cfg chop r s = (Inr (length (s_heap s)), s')"
    and "w_bytes (s_conn s') = w_bytes (s_conn s) @ frame_bytes (FrameOpen, s_nextID s, openMetaBytes L r) @
       concat (map (\<lambda>p. frame_bytes (FrameData, s_nextID s, p))
         (concat (map chunked (chop (strBytes (wireRequest cfg r body)))))) @
       frame_bytes (FrameClose, s_nextID s, [])"
    and "strm s' (length (s_heap s)) = (newStream (s_nextID s))\<lparr>sentClose := True\<rparr>"
    and "getStream (s_nextID s) s' = Some (length (s_heap s))" and "sess_ok s \<longrightarrow> sess_ok s'"
proof -
  let ?st = "length (s_heap s)" and ?ps = "chop (strBytes (wireRequest cfg r body))"
  from h obtain s1 where s1: "OpenStream (openMetaBytes L r) s = (Inr ?st, s1)" "healthy s1" "getStream (s_nextID s) s1 = Some ?st"
      "strm s1 ?st = newStream (s_nextID s)" "length (s_heap s1) = Suc ?st"
      "w_bytes (s_conn s1) = w_bytes (s_conn s) @ frame_bytes (FrameOpen, s_nextID s, openMetaBytes L r)"
    by (rule OpenStream_healthy)
  have c: "checkWrite (strm s1 ?st) = None" by (simp add: s1(4) checkWrite_def newStream_def)
  obtain s2 where s2: "writeParts ?st ?ps s1 = (None, s2)" "healthy s2" "conn_only s1 s2"
      "w_bytes (s_conn s2) = w_bytes (s_conn s1) @
         concat (map (\<lambda>p. frame_bytes (FrameData, st_id (strm s1 ?st), p)) (concat (map chunked ?ps)))"
    using writeParts_healthy [OF s1(2) c] by blast
  have st2: "strm s2 ?st = newStream (s_nextID s)" "length (s_heap s2) = Suc ?st" "getStream (s_nextID s) s2 = Some ?st"
    using conn_only_frame(1,2,7) [OF s2(3)] s1(3-5) by (simp_all add: getStream_def)
  have c2: "checkWrite (strm s2 ?st) = None" "?st < length (s_heap s2)" using c st2 s1(4) by simp_all
  from s2(2) c2 obtain s3 where s3: "CloseWrite ?st s2 = (None, s3)"
      "w_bytes (s_conn s3) = w_bytes (s_conn s2) @ frame_bytes (FrameClose, st_id (strm s2 ?st), [])"
      "\<not> readDone (strm s2 ?st) \<longrightarrow> strm s3 ?st = (strm s2 ?st)\<lparr>sentClose := True\<rparr> \<and> s_streams s3 = s_streams s2"
    by (rule CloseWrite_healthy)
  have run: "proxyTo L cfg chop r s = (Inr ?st, s3)"
    using body s1(1) s2(1) s3(1) by (simp add: proxyTo_def)
  have new: "st_id (newStream (s_nextID s)) = s_nextID s" "\<not> readDone (newStream (s_nextID s))" by (simp_all add: newStream_def)
  have ok: "sess_ok s3" if "sess_ok s"
    using CloseWrite_ok [OF conn_only_ok [OF s2(3)], of ?st] OpenStream_ok [OF that, of "openMetaBytes L r"] s1(1) c2(2) s3(1) by simp
  show ?thesis
  proof (rule that [OF run])
    show "strm s3 ?st = (newStream (s_nextID s))\<lparr>sentClose := True\<rparr>" "getStream (s_nextID s) s3 = Some ?st"
      using s3(3) st2 new by (simp_all add: getStream_def)
  qed (use s1(4,6) s2(4) s3(2) st2(1) new ok in simp_all)
qed

section \<open>The client's end\<close>

lemma deliver_open:
  assumes ok: "sess_ok s" and up: "\<not> s_closed s" and len: "length m \<le> MaxPayload"
    and rd: "r_bytes rd = frame_bytes (FrameOpen, i, m) @ rest"
  shows "\<exists>s'. readLoop clk pick k rd s = readLoop clk pick (Suc k) (rd\<lparr>r_bytes := rest\<rparr>) s' \<and> sess_ok s' \<and>
     getStream i s' = Some (length (s_heap s)) \<and> strm s' (length (s_heap s)) = newStream i \<and>
     s_served s' = (if s_onStream s then s_served s @ [length (s_heap s)] else s_served s) \<and> quiet s s'"
proof -
  have rf: "readFrame rd = (Inr (FrameOpen, i, m), rd\<lparr>r_bytes := rest\<rparr>)"
    using len rd by (rule readFrame_frame_bytes)
  let ?n = "length (r_bytes rd) - length (r_bytes (rd\<lparr>r_bytes := rest\<rparr>))"
  let ?s = "liveRead (clk k) ?n s"
  let ?s2 = "?s\<lparr>s_heap := s_heap s @ [newStream i], s_streams := AList.update i (length (s_heap s)) (s_streams s)\<rparr>"
  let ?s' = "if s_onStream s then ?s2\<lparr>s_served := s_served s @ [length (s_heap s)]\<rparr> else ?s2"
  have live: "s_onStream ?s = s_onStream s" "s_served ?s = s_served s"
    by (simp_all add: liveRead_def markRecv_def)
  have d: "dispatch (clk k) (pick k) (FrameOpen, i, m) ?s = Next ?s'"
    using up live by (simp add: dispatch_def alloc_def Let_def)
  have "sess_ok ?s'" using dispatch_open_ok [OF _ d] ok by simp
  moreover have "getStream i ?s' = Some (length (s_heap s))" "strm ?s' (length (s_heap s)) = newStream i"
    by (simp_all add: getStream_def map_of_AList_update strm_def)
  moreover have "s_served ?s' = (if s_onStream s then s_served s @ [length (s_heap s)] else s_served s)"
    using live by simp
  moreover have "quiet s ?s'" by (simp add: quiet_def liveRead_def markRecv_def)
  ultimately show ?thesis
    using readLoop_next [where clk = clk and pick = pick and k = k, OF rf d] by blast
qed

lemma deliver_stream:
  assumes ok: "sess_ok s" and up: "\<not> s_closed s" and len: "length m \<le> MaxPayload"
    and fits: "length ps \<le> chunksCap" and small: "\<forall>p \<in> set ps. length p \<le> MaxPayload"
    and rd: "r_bytes rd = frame_bytes (FrameOpen, i, m) @ concat (map (\<lambda>p. frame_bytes (FrameData, i, p)) ps) @
       frame_bytes (FrameClose, i, []) @ rest"
    and n: "0 < n"
  shows "\<exists>k' s'. readLoop clk pick k rd s = readLoop clk pick k' (rd\<lparr>r_bytes := rest\<rparr>) s' \<and> sess_ok s' \<and>
     readAll n (s_done s') (strm s' (length (s_heap s))) = (concat ps, RErr EOF) \<and> quiet s s' \<and>
     length (s_heap s) < length (s_heap s') \<and> st_id (strm s' (length (s_heap s))) = i \<and>
     checkWrite (strm s' (length (s_heap s))) = None"
proof -
  let ?q = "length (s_heap s)"
  let ?c = "frame_bytes (FrameClose, i, []) @ rest"
  let ?d = "concat (map frame_bytes (map (\<lambda>p. (FrameData, i, p)) ps)) @ ?c"
  have rd': "r_bytes rd = frame_bytes (FrameOpen, i, m) @ ?d" using rd by (simp add: comp_def)
  obtain s1 where s1: "readLoop clk pick k rd s = readLoop clk pick (Suc k) (rd\<lparr>r_bytes := ?d\<rparr>) s1" "sess_ok s1"
      "getStream i s1 = Some ?q" "strm s1 ?q = newStream i" "quiet s s1"
    using deliver_open [OF ok up len rd', of clk pick k] by blast
  obtain s2 where s2: "readLoop clk pick (Suc k) (rd\<lparr>r_bytes := ?d\<rparr>) s1 =
        readLoop clk pick (Suc k + length ps) ((rd\<lparr>r_bytes := ?d\<rparr>)\<lparr>r_bytes := ?c\<rparr>) s2"
      "sess_ok s2" "getStream i s2 = Some ?q" "strm s2 ?q = (strm s1 ?q)\<lparr>chunks := chunks (strm s1 ?q) @ ps\<rparr>" "quiet s1 s2"
    using deliver_datas [OF s1(2,3), of ps "rd\<lparr>r_bytes := ?d\<rparr>" ?c clk pick "Suc k"] fits small s1(4)
    by (auto simp: newStream_def)
  have "\<not> readDone (strm s2 ?q)" and "\<not> sentClose (strm s2 ?q)" using s2(4) s1(4) by (simp_all add: newStream_def)
  then obtain s3 where s3: "readLoop clk pick (Suc k + length ps) ((rd\<lparr>r_bytes := ?d\<rparr>)\<lparr>r_bytes := ?c\<rparr>) s2 =
        readLoop clk pick (Suc (Suc k + length ps)) (((rd\<lparr>r_bytes := ?d\<rparr>)\<lparr>r_bytes := ?c\<rparr>)\<lparr>r_bytes := rest\<rparr>) s3" "sess_ok s3"
      "cur (strm s3 ?q) = cur (strm s2 ?q)" "chunks (strm s3 ?q) = chunks (strm s2 ?q)" "readDone (strm s3 ?q)"
      "readErr (strm s3 ?q) = Some EOF" "quiet s2 s3" "strm s3 ?q = st_done EOF (strm s2 ?q)" "?q < length (s_heap s3)"
    using deliver_close [OF s2(2,3), of "(rd\<lparr>r_bytes := ?d\<rparr>)\<lparr>r_bytes := ?c\<rparr>" rest clk pick "Suc k + length ps"] by auto
  have "readAll n (s_done s3) (strm s3 ?q) = (concat ps, RErr EOF)"
    using n s1(4) s2(4) s3(3-6) by (simp add: readAll_spec readEnd_def newStream_def)
  moreover have "quiet s s3" using s1(5) s2(5) s3(7) quiet_trans by blast
  moreover have "st_id (strm s3 ?q) = i" "checkWrite (strm s3 ?q) = None"
    using s1(4) s2(4) s3(8) by (simp_all add: newStream_def checkWrite_def st_done_def)
  ultimately show ?thesis using s1(1) s2(1) s3(1,2,9)
    by (intro exI [of _ "Suc (Suc k + length ps)"] exI [of _ s3]) simp
qed


lemma demo_body: "readBody (sv_cfg demo_psrv) demo_req = Inr []"
proof -
  have "cfg_MaxRequestBody (sv_cfg demo_psrv) = 1000" by (simp add: demo_psrv_def demo_srv_def)
  then show ?thesis by (simp add: readBody_def demo_req_def limitBody_def)
qed

lemma demo_fits: "length (concat (map chunked [strBytes (wireRequest (sv_cfg demo_psrv) demo_req [])])) \<le> chunksCap"
proof -
  have "length (wireRequest (sv_cfg demo_psrv) demo_req []) \<le> 1000"
    by (simp add: wireRequest_def requestLine_def demo_wireHeaders hdrLine_def demo_req_fields)
  then show ?thesis
    by (simp add: length_chunked chunksCap_def MaxPayload_def div_le_dividend
        less_mult_imp_div_less [of _ 16, THEN less_imp_le])
qed

lemma demo_meta: "length (openMetaBytes demo_plib demo_req) \<le> MaxPayload"
  by (simp add: openMetaBytes_def demo_plib_def)


end
