(* ===== verification/Link.thy ===== *)
theory Link
  imports Mux_Live Wire
begin

text \<open>
  Two sessions on the two ends of one connection, and one stream between them, under every interleaving of what both sides do:
  calls on this and on other streams, frames in both directions, the heartbeat, closing, losing the connection. A stream of the multiplexer
  (\<^verbatim>\<open>internal/mux\<close>) promises to be a FIFO of bytes; the step relation \<open>lk_step\<close> has the real operations of both sessions and
  the bytes in flight, and the theorems at the end state the promise for all of its runs, with no bound on the length of the data.
\<close>

section \<open>What one operation does to a stream\<close>

text \<open>The fields of a stream that only ever move one way.\<close>

definition st_grow :: "stream \<Rightarrow> stream \<Rightarrow> bool" where
  "st_grow st st' \<longleftrightarrow> st_id st' = st_id st \<and> (aborted st \<longrightarrow> aborted st') \<and> (sentClose st \<longrightarrow> sentClose st') \<and> (rst st \<longrightarrow> rst st') \<and>
     (readDone st \<longrightarrow> readDone st' \<and> readErr st' = readErr st)"

text \<open>What a frame from the peer can change besides the received data.\<close>

definition st_recv :: "stream \<Rightarrow> stream \<Rightarrow> bool" where
  "st_recv st st' \<longleftrightarrow> st_grow st st' \<and> sentClose st' = sentClose st"

definition along :: "(stream \<Rightarrow> stream \<Rightarrow> bool) \<Rightarrow> nat \<Rightarrow> session \<Rightarrow> session \<Rightarrow> bool" where
  "along R r s t \<longleftrightarrow> r < length (s_heap t) \<and> R (strm s r) (strm t r)"

lemma st_refl [simp]: "st_grow st st" "st_recv st st"
  by (simp_all add: st_grow_def st_recv_def)

lemma along_same: "R (strm s r) (strm s r) \<Longrightarrow> r < length (s_heap s) \<Longrightarrow> s_heap t = s_heap s \<Longrightarrow> along R r s t"
  by (simp add: along_def strm_def)

lemma along_upd:
  assumes "R (strm s r) (strm s r)" and "r < length (s_heap s)" and "x < length (s_heap s)" and "R (strm s x) (f (strm s x))"
    and "s_heap t = s_heap (upd x f s)"
  shows "along R r s t"
  using assms by (auto simp: along_def strm_def upd_def nth_list_update)

lemmas grown_same = along_same [where R = st_grow, OF st_refl(1)] and grown_upd = along_upd [where R = st_grow, OF st_refl(1)]
  and recv_same = along_same [where R = st_recv, OF st_refl(2)] and recv_upd = along_upd [where R = st_recv, OF st_refl(2)]

lemma CloseWrite_net:
  assumes "r < length (s_heap s)" and "\<not> sentClose (strm s r)" and "\<not> rst (strm s r)"
    and t: "t = snd (sess_writeFrame FrameClose (st_id (strm s r)) [] s)"
  shows "snd (CloseWrite r s) =
     (if readDone (strm s r) then remove r (upd r (\<lambda>st. st\<lparr>sentClose := True\<rparr>) t) else upd r (\<lambda>st. st\<lparr>sentClose := True\<rparr>) t)"
  using assms sess_writeFrame_upd [of FrameClose "st_id (strm s r)" "[]" r "\<lambda>st. st\<lparr>sentClose := True\<rparr>" s]
  by (auto simp: CloseWrite_def Let_def split: prod.splits)

lemma heap_remove: "r < length (s_heap s) \<Longrightarrow> s_heap (remove r s) = s_heap (upd r (\<lambda>st. st\<lparr>removed := True\<rparr>) s)"
  by (simp add: remove_net upd_same)

lemma CloseWrite_strm:
  assumes "r < length (s_heap s)"
  shows "strm (snd (CloseWrite r s)) r =
     (if sentClose (strm s r) \<or> rst (strm s r) then strm s r
      else (strm s r)\<lparr>sentClose := True, removed := removed (strm s r) \<or> readDone (strm s r)\<rparr>)"
proof (cases "sentClose (strm s r) \<or> rst (strm s r)")
  case True
  then show ?thesis by (simp add: CloseWrite_def)
next
  case False
  let ?t = "upd r (\<lambda>st. st\<lparr>sentClose := True\<rparr>) (snd (sess_writeFrame FrameClose (st_id (strm s r)) [] s))"
  have t: "r < length (s_heap ?t)" "strm ?t r = (strm s r)\<lparr>sentClose := True\<rparr>" using assms by simp_all
  with False CloseWrite_net [OF assms _ _ refl] show ?thesis by (auto simp: remove_def removeStream_def strm_def upd_def)
qed

lemma CloseWrite_stops: "r < length (s_heap s) \<Longrightarrow> checkWrite (strm (snd (CloseWrite r s)) r) \<noteq> None"
  by (simp add: CloseWrite_strm checkWrite_def)

lemma shutdown_strm:
  assumes "sess_ok s" and "r < length (s_heap s)"
  shows "length (s_heap (shutdown e s)) = length (s_heap s) \<and> s_streams (shutdown e s) = s_streams s \<and>
     (strm (shutdown e s) r = strm s r \<or> strm (shutdown e s) r = (st_done ErrSessionClosed (strm s r))\<lparr>aborted := True\<rparr>)"
proof (cases "s_closeOnce s")
  case True
  then show ?thesis by (simp add: shutdown_def)
next
  case False
  from shutdown_open [OF assms(1) this, of e] obtain h where
    h: "shutdown e s = s\<lparr>s_closeOnce := True, s_closed := True, s_closeErr := Some e,
      s_heap := h, s_done := True, s_conn := (s_conn s)\<lparr>w_closed := True\<rparr>\<rparr>" "length h = length (s_heap s)"
    "\<And>q. q < length h \<Longrightarrow> h ! q = (if q \<in> snd ` set (s_streams s)
           then (st_done ErrSessionClosed (s_heap s ! q))\<lparr>aborted := True\<rparr> else s_heap s ! q)" by metis
  with assms(2) h(3) [of r] show ?thesis by (simp add: strm_def)
qed

lemma fireOnClose_same: "s_heap (fireOnClose e s) = s_heap s" "s_streams (fireOnClose e s) = s_streams s" "s_conn (fireOnClose e s) = s_conn s"
  by (simp_all add: fireOnClose_def)

text \<open>The three ways a session ends do the same to a stream.\<close>

lemma closing_strm:
  assumes "sess_ok s" and "r < length (s_heap s)" and "t = CloseWithError e s \<or> t = snd (finishRun e s) \<or> t = watchdogTick idle now s"
  shows "length (s_heap t) = length (s_heap s) \<and> s_streams t = s_streams s \<and>
     (strm t r = strm s r \<or> strm t r = (st_done ErrSessionClosed (strm s r))\<lparr>aborted := True\<rparr>)"
proof -
  have "t = s \<or> (\<exists>e e'. t = fireOnClose e' (shutdown e s))"
    using assms(3) unfolding CloseWithError_def finishRun_def watchdogTick_def Let_def snd_conv by metis
  then show ?thesis
  proof (elim disjE exE)
    fix e e' assume t: "t = fireOnClose e' (shutdown e s)"
    then have "strm t r = strm (shutdown e s) r" by (simp add: strm_def fireOnClose_same)
    with t shutdown_strm [OF assms(1,2), of e] show ?thesis by (simp add: fireOnClose_same)
  qed simp
qed

lemma grown_closing:
  assumes "sess_ok s" and "r < length (s_heap s)" and "t = CloseWithError e s \<or> t = snd (finishRun e s) \<or> t = watchdogTick idle now s"
  shows "along st_grow r s t"
  using closing_strm [OF assms] assms(2) by (auto simp: along_def st_grow_def)

lemma dispatch_recv:
  assumes ok: "sess_ok s" and r: "r < length (s_heap s)" and d: "dispatch now pick f s = Next t \<or> dispatch now pick f s = Block t"
  shows "along st_recv r s t"
proof -
  obtain ty i p where f: "f = (ty, i, p)" by (cases f)
  have x: "x < length (s_heap s)" "stream_ok (strm s x)" "\<not> removed (strm s x)" if "getStream i s = Some x" for x
    using getStream_ok [OF ok that] sess_okD_stream [OF ok] by simp_all
  consider "ty = FrameOpen" | "ty = FrameData" | "ty = FrameClose" | "ty = FrameReset" | "ty \<notin> {FrameOpen, FrameData, FrameClose, FrameReset}" by blast
  then show ?thesis
  proof cases
    case 1
    with d r show ?thesis
      by (auto simp: f dispatch_def alloc_def Let_def along_def strm_def nth_append split: if_splits)
  next
    case 2
    then consider "s_heap t = s_heap s" | y where "getStream i s = Some y" "s_heap t = s_heap (upd y (\<lambda>st. st\<lparr>chunks := chunks st @ [p]\<rparr>) s)"
      using d by (auto simp: f dispatch_data pushData_def Let_def markRecv_def upd_def strm_def split: option.splits if_splits)
    then show ?thesis
    proof cases
      case 1
      with r show ?thesis by (rule recv_same)
    next
      case (2 y)
      show ?thesis by (rule recv_upd [OF r x(1) [OF 2(1)] _ 2(2)]) (simp add: st_grow_def st_recv_def)
    qed
  next
    case 3
    show ?thesis
    proof (cases "getStream i s")
      case (Some y)
      with d 3 have "s_heap t = s_heap (upd y (\<lambda>st. (st_done EOF st)\<lparr>removed := removed st \<or> sentClose (strm s y)\<rparr>) s)"
        using x [OF Some] by (auto simp: f dispatch_close remoteClose_net upd_def strm_def intro!: arg_cong [where f = "list_update _ _"])
      then show ?thesis by (rule recv_upd [OF r x(1) [OF Some], rotated]) (simp add: st_grow_def st_recv_def)
    qed (use d 3 r in \<open>auto simp: f dispatch_close intro: recv_same\<close>)
  next
    case 4
    show ?thesis
    proof (cases "getStream i s")
      case (Some y)
      with d 4 have "t = remoteReset y s" by (simp add: f dispatch_def frame_types)
      with x [OF Some] have "s_heap t = s_heap (upd y (\<lambda>st. (st_done ErrStreamReset (st\<lparr>rst := True\<rparr>))\<lparr>aborted := True, removed := True\<rparr>) s)"
        by (simp add: remoteReset_net)
      then show ?thesis by (rule recv_upd [OF r x(1) [OF Some], rotated]) (simp add: st_grow_def st_recv_def)
    qed (use d 4 r in \<open>auto simp: f dispatch_def frame_types intro: recv_same\<close>)
  next
    case 5
    with d r show ?thesis by (auto simp: f dispatch_def split: if_splits option.splits intro!: recv_same)
  qed
qed

lemma dispatch_grown:
  "sess_ok s \<Longrightarrow> r < length (s_heap s) \<Longrightarrow> dispatch now pick f s = Next t \<or> dispatch now pick f s = Block t \<Longrightarrow> along st_grow r s t"
  using dispatch_recv [of s r now pick f t] by (simp add: along_def st_recv_def)

lemma Abort_heap:
  assumes "sess_ok s" and "x < length (s_heap s)"
  obtains "Abort x s = s" | f where "s_heap (Abort x s) = s_heap (upd x f s)" and "st_grow (strm s x) (f (strm s x))"
proof (cases "rst (strm s x)")
  case True
  then show ?thesis using that(1) by (simp add: Abort_def)
next
  case False
  let ?t = "if fully_finished (strm s x) then s else snd (sess_writeFrame FrameReset (st_id (strm s x)) [] s)"
  have h: "s_heap ?t = s_heap s" by simp
  then have "s_heap (upd x f ?t) = s_heap (upd x f s)" for f by (simp add: upd_def)
  with Abort_net [OF assms False refl] show ?thesis
    by (intro that(2) [of "if removed (strm s x) then st_abort else (\<lambda>st. (st_abort st)\<lparr>removed := True\<rparr>)"])
       (simp_all add: st_grow_def st_done_def)
qed

lemma CloseWrite_heap:
  assumes "sess_ok s" and "x < length (s_heap s)"
  obtains "snd (CloseWrite x s) = s" | f where "s_heap (snd (CloseWrite x s)) = s_heap (upd x f s)" and "st_grow (strm s x) (f (strm s x))"
proof (cases "sentClose (strm s x) \<or> rst (strm s x)")
  case True
  then show ?thesis using that(1) by (simp add: CloseWrite_def)
next
  case False
  let ?t = "snd (sess_writeFrame FrameClose (st_id (strm s x)) [] s)"
  let ?f = "\<lambda>st. st\<lparr>sentClose := True, removed := removed st \<or> readDone st\<rparr>"
  have h: "s_heap ?t = s_heap s" "strm ?t x = strm s x" by simp_all
  have "s_heap (snd (CloseWrite x s)) = s_heap (upd x ?f s)"
    using assms(2) False h
    by (simp add: CloseWrite_net [OF assms(2) _ _ refl] heap_remove upd_upd) (simp add: upd_def strm_def)
  then show ?thesis by (rule that(2)) (simp add: st_grow_def)
qed

lemma op_grown:
  assumes "mux_op s t" and ok: "sess_ok s" and r: "r < length (s_heap s)"
  shows "along st_grow r s t"
  using assms(1)
proof cases
  case (op_open meta)
  with r OpenStream_heap [of meta s] show ?thesis by (simp add: along_def strm_def nth_append)
next
  case (op_read x n)
  obtain res st' where st: "stRead n (s_done s) (strm s x) = (res, st')" by fastforce
  then have "snd (Read n x s) = upd x (\<lambda>_. st') s" by (simp add: Read_def)
  moreover have "st_grow (strm s x) st'" by (subst conjunct1 [OF stRead_flags [OF st]]) (simp add: st_grow_def)
  ultimately show ?thesis using op_read r by (auto intro!: grown_upd [where x = x and f = "\<lambda>_. st'"])
next
  case (op_write x b)
  with r show ?thesis using conn_only_frame(1) [OF Write_conn_only] by (auto intro!: grown_same)
next
  case (op_closeWrite x)
  from ok op_closeWrite(2) show ?thesis
    by (rule CloseWrite_heap) (use op_closeWrite r in \<open>auto intro: grown_same grown_upd\<close>)
next
  case (op_abort x)
  from ok op_abort(2) show ?thesis
    by (rule Abort_heap) (use op_abort r in \<open>auto intro: grown_same grown_upd\<close>)
next
  case (op_pong e)
  then obtain p where "sess_writeFrame FramePong 0 p (s\<lparr>s_pongs := None\<rparr>) = (e, t)" by (auto simp: pongTick_def split: option.splits)
  with r show ?thesis using sess_writeFrame_same(1) [of FramePong 0 p "s\<lparr>s_pongs := None\<rparr>"] by (intro grown_same) simp_all
qed (use ok r in \<open>auto simp: pingTick_def intro: grown_same dispatch_grown grown_closing\<close>)

section \<open>What one operation puts on the connection\<close>

definition emits :: "session \<Rightarrow> frame list \<Rightarrow> session \<Rightarrow> bool" where
  "emits s fs t \<longleftrightarrow> w_plan (s_conn t) = [] \<and> (w_closed (s_conn s) \<longrightarrow> w_closed (s_conn t)) \<and>
     w_bytes (s_conn t) = w_bytes (s_conn s) @ concat (map frame_bytes fs)"

lemma emits_same: "w_plan (s_conn s) = [] \<Longrightarrow> s_conn t = s_conn s \<Longrightarrow> emits s [] t"
  by (simp add: emits_def)

lemma sess_writeFrame_down:
  assumes "w_plan (s_conn s) = []" and "\<not> healthy s"
  shows "\<exists>e. sess_writeFrame t i p s = (Some e, s)"
  using assms by (auto simp: sess_writeFrame_def healthy_def writeFrame_def w_write_def split: if_splits)

lemma emits_frame:
  assumes "w_plan (s_conn s) = []"
  shows "emits s (if healthy s then [(t, i, p)] else []) (snd (sess_writeFrame t i p s))"
proof (cases "healthy s")
  case True
  then obtain s' where "sess_writeFrame t i p s = (None, s')" "healthy s'"
    "w_bytes (s_conn s') = w_bytes (s_conn s) @ frame_bytes (t, i, p)" by (rule sess_writeFrame_healthy)
  with True show ?thesis by (simp add: emits_def healthy_def)
next
  case False
  with sess_writeFrame_down [OF assms False, of t i p] assms show ?thesis by (auto simp: emits_same)
qed

lemma emits_Write:
  assumes plan: "w_plan (s_conn s) = []" and w: "Write r b s = ((n, e), s')"
  shows "\<exists>ps. emits s (map (\<lambda>p. (FrameData, st_id (strm s r), p)) ps) s' \<and> concat ps = take n b \<and>
     list_all (\<lambda>p. length p \<le> MaxPayload) ps \<and> (checkWrite (strm s r) \<noteq> None \<longrightarrow> ps = [])"
proof (cases "healthy s \<and> checkWrite (strm s r) = None")
  case True
  then obtain s2 where s2: "Write r b s = ((length b, None), s2)" "healthy s2"
    "w_bytes (s_conn s2) = w_bytes (s_conn s) @ concat (map frame_bytes (data_frames (st_id (strm s r)) b))"
    by (elim conjE) (rule Write_healthy)
  with True w chunked_bounds show ?thesis
    by (intro exI [of _ "chunked b"]) (auto simp: emits_def healthy_def list_all_iff)
next
  case False
  then have "s' = s \<and> n = 0"
    using w sess_writeFrame_down [OF plan, of FrameData "st_id (strm s r)" "take (min (length b) MaxPayload) b"]
    by (auto simp: Write_def writeLoop.simps [of r b 0 s] Let_def split: if_splits option.splits)
  with plan show ?thesis by (intro exI [of _ "[]"]) (simp add: emits_same)
qed

lemma emits_upd: "emits s fs (upd r f t) = emits s fs t" "emits s fs (removeStream i t) = emits s fs t"
  by (simp_all add: emits_def)

lemma emits_CloseWrite:
  assumes plan: "w_plan (s_conn s) = []" and r: "r < length (s_heap s)"
  shows "emits s (if healthy s \<and> checkWrite (strm s r) = None then [(FrameClose, st_id (strm s r), [])] else []) (snd (CloseWrite r s))"
proof (cases "checkWrite (strm s r)")
  case None
  then show ?thesis
    using CloseWrite_net [OF r _ _ refl] emits_frame [OF plan, of FrameClose "st_id (strm s r)" "[]"]
    by (auto simp: checkWrite_None emits_def)
next
  case (Some e)
  then show ?thesis using plan by (auto simp: CloseWrite_def checkWrite_def emits_same split: if_splits)
qed

lemma emits_Abort:
  assumes plan: "w_plan (s_conn s) = []" and ok: "sess_ok s" and r: "r < length (s_heap s)"
  obtains fs where "emits s fs (Abort r s)" and "fs = [] \<or> fs = [(FrameReset, st_id (strm s r), [])]"
proof (cases "rst (strm s r)")
  case True
  then show ?thesis using that [of "[]"] plan by (simp add: Abort_def emits_same)
next
  case False
  let ?t = "if fully_finished (strm s r) then s else snd (sess_writeFrame FrameReset (st_id (strm s r)) [] s)"
  let ?fs = "if fully_finished (strm s r) \<or> \<not> healthy s then [] else [(FrameReset, st_id (strm s r), [])]"
  have "emits s ?fs ?t" using emits_frame [OF plan, of FrameReset "st_id (strm s r)" "[]"] plan by (auto simp: emits_same split: if_splits)
  then have "emits s ?fs (Abort r s)"
    by (simp only: Abort_net [OF ok r False refl] emits_upd if_cancel if_distrib [of "emits s ?fs"])
  then show ?thesis by (rule that) simp
qed

lemma emits_OpenStream:
  assumes "w_plan (s_conn s) = []"
  shows "emits s (if healthy s then [(FrameOpen, s_nextID s, meta)] else []) (snd (OpenStream meta s))"
proof -
  let ?s3 = "s\<lparr>s_nextID := s_nextID s + 2, s_heap := s_heap s @ [newStream (s_nextID s)],
      s_streams := AList.update (s_nextID s) (length (s_heap s)) (s_streams s)\<rparr>"
  have "emits ?s3 (if healthy ?s3 then [(FrameOpen, s_nextID s, meta)] else []) (snd (sess_writeFrame FrameOpen (s_nextID s) meta ?s3))"
    using assms by (intro emits_frame) simp
  then show ?thesis
    using assms by (auto simp: OpenStream_def alloc_def Let_def emits_def healthy_def split: prod.splits option.splits)
qed

lemma emits_closing:
  assumes "w_plan (s_conn s) = []" and ok: "sess_ok s" and t: "t = CloseWithError e s \<or> t = snd (finishRun e s) \<or> t = watchdogTick idle now s"
  shows "emits s [] t"
proof -
  have "emits s [] (shutdown e s)" for e
  proof (cases "s_closeOnce s")
    case True
    with assms(1) show ?thesis by (simp add: shutdown_def emits_same)
  next
    case False
    from shutdown_open [OF ok this, of e] obtain h where "shutdown e s = s\<lparr>s_closeOnce := True, s_closed := True, s_closeErr := Some e,
      s_heap := h, s_done := True, s_conn := (s_conn s)\<lparr>w_closed := True\<rparr>\<rparr>" by metis
    with assms(1) show ?thesis by (simp add: emits_def w_bytes_def)
  qed
  then show ?thesis
    using t assms(1) by (auto simp: CloseWithError_def finishRun_def watchdogTick_def Let_def emits_def fireOnClose_same)
qed

lemma dispatch_conn: "dispatch now pick f s = Next t \<or> dispatch now pick f s = Block t \<Longrightarrow> s_conn t = s_conn s"
  by (cases f)
     (auto simp: dispatch_def alloc_def pushData_def markRecv_def remoteClose_def remoteReset_def
        signalAbort_def markReadDone_def closeEof_def Let_def split: if_splits option.splits)

section \<open>Calls that leave a stream alone\<close>

text \<open>
  What a session's users and its heartbeat do that does not name stream \<open>i\<close>. A new stream does not take an id that is in use (the ids of one side are
  distinct for \<open>2 ^ 31\<close> streams) and announces itself in one frame; a pong answers a ping that was read, so it fits in a frame too.
\<close>

inductive call :: "u32 \<Rightarrow> session \<Rightarrow> session \<Rightarrow> bool" for i where
  call_open: "s_nextID s \<noteq> i \<Longrightarrow> length meta \<le> MaxPayload \<Longrightarrow> call i s (snd (OpenStream meta s))"
| call_read: "x < length (s_heap s) \<Longrightarrow> st_id (strm s x) \<noteq> i \<Longrightarrow> call i s (snd (Read n x s))"
| call_write: "x < length (s_heap s) \<Longrightarrow> st_id (strm s x) \<noteq> i \<Longrightarrow> call i s (snd (Write x b s))"
| call_closeWrite: "x < length (s_heap s) \<Longrightarrow> st_id (strm s x) \<noteq> i \<Longrightarrow> call i s (snd (CloseWrite x s))"
| call_abort: "x < length (s_heap s) \<Longrightarrow> st_id (strm s x) \<noteq> i \<Longrightarrow> call i s (Abort x s)"
| call_close: "call i s (CloseWithError e s)"
| call_ping: "call i s (snd (pingTick t s))"
| call_pong: "pongTick s = Some (e, s') \<Longrightarrow> s_pongs s = Some p \<Longrightarrow> length p \<le> MaxPayload \<Longrightarrow> call i s s'"
| call_watchdog: "call i s (watchdogTick idle now s)"

lemma call_op: "call i s t \<Longrightarrow> mux_op s t"
  by (induction rule: call.induct) (auto intro: mux_op.intros)

definition known :: "frame \<Rightarrow> bool" where
  "known f \<longleftrightarrow> frame_ok f \<and> fst f \<in> {FrameOpen, FrameData, FramePing, FramePong, FrameClose, FrameReset}"

text \<open>The frames that name stream \<open>i\<close>.\<close>

definition mine :: "u32 \<Rightarrow> frame list \<Rightarrow> frame list" where
  "mine i fs = filter (\<lambda>f. fst (snd f) = i \<and> fst f \<noteq> FramePing \<and> fst f \<noteq> FramePong) fs"

lemma mine_simps [simp]:
  "mine i [] = []" "mine i (fs @ gs) = mine i fs @ mine i gs"
  "mine i (f # fs) = (if fst (snd f) = i \<and> fst f \<noteq> FramePing \<and> fst f \<noteq> FramePong then f # mine i fs else mine i fs)"
  by (simp_all add: mine_def)

lemma type_neq [simp]:
  "FrameData \<noteq> FramePing" "FrameData \<noteq> FramePong" "FrameData \<noteq> FrameOpen" "FrameData \<noteq> FrameClose" "FrameData \<noteq> FrameReset"
  "FrameClose \<noteq> FramePing" "FrameClose \<noteq> FramePong" "FrameClose \<noteq> FrameData" "FrameReset \<noteq> FramePing" "FrameReset \<noteq> FramePong"
  "FrameReset \<noteq> FrameData" "FrameReset \<noteq> FrameClose" "FrameClose \<noteq> FrameReset" "FrameOpen \<noteq> FrameData" "FrameOpen \<noteq> FrameClose"
  "FrameOpen \<noteq> FrameReset" "FrameOpen \<noteq> FramePing" "FrameOpen \<noteq> FramePong"
  by (simp_all add: frame_types)

lemma mine_data [simp]: "mine i (map (\<lambda>p. (FrameData, j, p)) ps) = (if j = i then map (\<lambda>p. (FrameData, i, p)) ps else [])"
  by (cases "j = i") (simp_all add: mine_def filter_map comp_def)

lemma known_frames:
  "list_all known (map (\<lambda>p. (FrameData, j, p)) ps) = list_all (\<lambda>p. length p \<le> MaxPayload) ps"
  "known (FrameClose, j, [])" "known (FrameReset, j, [])" "known (FrameOpen, j, p) = (length p \<le> MaxPayload)"
  "known (FramePing, j, p) = (length p \<le> MaxPayload)" "known (FramePong, j, p) = (length p \<le> MaxPayload)"
  by (simp_all add: known_def frame_ok_def list_all_iff)

lemma call_emits:
  assumes "call i s t" and "w_plan (s_conn s) = []" and "sess_ok s"
  shows "\<exists>fs. emits s fs t \<and> list_all known fs \<and> mine i fs = []"
  using assms(1)
proof cases
  case (call_open meta)
  with emits_OpenStream [OF assms(2), of meta] show ?thesis
    by (intro exI [of _ "if healthy s then [(FrameOpen, s_nextID s, meta)] else []"]) (simp add: known_frames)
next
  case (call_read x n)
  with assms(2) show ?thesis by (intro exI [of _ "[]"]) (simp add: emits_same Read_def split: prod.splits)
next
  case (call_write x b)
  obtain n e s' where w: "Write x b s = ((n, e), s')" by (metis prod.exhaust)
  from emits_Write [OF assms(2) w] obtain ps where "emits s (map (\<lambda>p. (FrameData, st_id (strm s x), p)) ps) s'"
    "list_all (\<lambda>p. length p \<le> MaxPayload) ps" by blast
  with call_write w show ?thesis by (intro exI [of _ "map (\<lambda>p. (FrameData, st_id (strm s x), p)) ps"]) (simp add: known_frames)
next
  case (call_closeWrite x)
  with emits_CloseWrite [OF assms(2), of x] show ?thesis
    by (intro exI [of _ "if healthy s \<and> checkWrite (strm s x) = None then [(FrameClose, st_id (strm s x), [])] else []"]) (simp add: known_frames)
next
  case (call_abort x)
  from emits_Abort [OF assms(2,3) call_abort(2)] obtain fs where "emits s fs (Abort x s)" "fs = [] \<or> fs = [(FrameReset, st_id (strm s x), [])]" .
  with call_abort show ?thesis by (intro exI [of _ fs]) (auto simp: known_frames)
next
  case (call_ping u)
  with emits_frame [OF assms(2), of FramePing 0 "PutUint64 u"] show ?thesis
    by (intro exI [of _ "if healthy s then [(FramePing, 0, PutUint64 u)] else []"]) (simp add: known_frames pingTick_def PutUint64_def MaxPayload_def)
next
  case (call_pong e p)
  let ?s = "s\<lparr>s_pongs := None\<rparr>"
  have "emits ?s (if healthy ?s then [(FramePong, 0, p)] else []) t"
    using call_pong emits_frame [of ?s FramePong 0 p] assms(2) by (simp add: pongTick_def)
  with call_pong show ?thesis
    by (intro exI [of _ "if healthy ?s then [(FramePong, 0, p)] else []"]) (simp add: known_frames emits_def)
qed (use emits_closing [OF assms(2,3)] in \<open>fastforce intro!: exI [of _ "[]"]\<close>)+

lemma getStream_streams: "s_streams t = s_streams s \<Longrightarrow> getStream i t = getStream i s"
  "s_streams t = AList.delete j (s_streams s) \<Longrightarrow> j \<noteq> i \<Longrightarrow> getStream i t = getStream i s"
  by (simp_all add: getStream_def map_of_AList_delete)

lemma CloseWrite_streams:
  assumes "x < length (s_heap s)"
  shows "s_streams (snd (CloseWrite x s)) = s_streams s \<or>
     s_streams (snd (CloseWrite x s)) = AList.delete (st_id (strm s x)) (s_streams s) \<and> readDone (strm s x)"
proof (cases "sentClose (strm s x) \<or> rst (strm s x)")
  case True
  then show ?thesis by (simp add: CloseWrite_def)
next
  case False
  with assms CloseWrite_net [of x s, OF _ _ _ refl] show ?thesis by (auto simp: remove_def)
qed

lemma Abort_streams:
  assumes "sess_ok s" and "x < length (s_heap s)"
  shows "s_streams (Abort x s) = s_streams s \<or> s_streams (Abort x s) = AList.delete (st_id (strm s x)) (s_streams s)"
proof (cases "rst (strm s x)")
  case True
  then show ?thesis by (simp add: Abort_def)
next
  case False
  with Abort_net [OF assms False refl] show ?thesis by simp
qed

text \<open>A stream that a call does not name stays as it is, or is ended with its session.\<close>

definition untouched :: "u32 \<Rightarrow> nat \<Rightarrow> session \<Rightarrow> session \<Rightarrow> bool" where
  "untouched i q s t \<longleftrightarrow> q < length (s_heap t) \<and> getStream i t = getStream i s \<and>
     (strm t q = strm s q \<or> strm t q = (st_done ErrSessionClosed (strm s q))\<lparr>aborted := True\<rparr>)"

lemma untouched_other:
  assumes "q < length (s_heap s)" and "x \<noteq> q" and "s_heap t = s_heap (upd x f s)" and "getStream i t = getStream i s"
  shows "untouched i q s t"
  using assms by (simp add: untouched_def strm_def upd_def)

lemma untouched_same: "q < length (s_heap s) \<Longrightarrow> s_heap t = s_heap s \<Longrightarrow> getStream i t = getStream i s \<Longrightarrow> untouched i q s t"
  by (simp add: untouched_def strm_def)

lemma untouched_closing:
  assumes "sess_ok s" and "q < length (s_heap s)" and "t = CloseWithError e s \<or> t = snd (finishRun e s) \<or> t = watchdogTick idle now s"
  shows "untouched i q s t"
  using closing_strm [OF assms] assms(2) by (auto simp: untouched_def intro: getStream_streams)

lemma call_untouched:
  assumes "call i s t" and ok: "sess_ok s" and q: "q < length (s_heap s)" "st_id (strm s q) = i"
  shows "untouched i q s t"
  using assms(1)
proof cases
  case (call_open meta)
  let ?m = "AList.update (s_nextID s) (length (s_heap s)) (s_streams s)"
  let ?s3 = "s\<lparr>s_nextID := s_nextID s + 2, s_heap := s_heap s @ [newStream (s_nextID s)], s_streams := ?m\<rparr>"
  obtain e s4 where s4: "sess_writeFrame FrameOpen (s_nextID s) meta ?s3 = (e, s4)" by fastforce
  then have "s_streams s4 = ?m" using sess_writeFrame_same(2) [of FrameOpen "s_nextID s" meta ?s3] by simp
  then have "s_streams t = ?m \<or> s_streams t = s_streams s \<or> s_streams t = AList.delete (s_nextID s) ?m"
    using call_open(1) s4 by (cases e) (auto simp: OpenStream_def alloc_def Let_def)
  then have "getStream i t = getStream i s"
    using call_open(2) by (auto simp: getStream_def map_of_AList_update map_of_AList_delete)
  with call_open q OpenStream_heap [of meta s] show ?thesis by (simp add: untouched_def strm_def nth_append)
next
  case (call_read x n)
  with q show ?thesis
    by (auto simp: Read_def getStream_def split: prod.splits intro!: untouched_other [where x = x])
next
  case (call_write x b)
  with q conn_only_frame(1,2) [OF Write_conn_only [of s x b]] show ?thesis by (auto intro!: untouched_same getStream_streams(1))
next
  case (call_closeWrite x)
  have g: "getStream i t = getStream i s"
    using call_closeWrite CloseWrite_streams [of x s] by (auto simp: getStream_def map_of_AList_delete)
  from ok call_closeWrite(2) show ?thesis
    by (rule CloseWrite_heap) (use call_closeWrite q g in \<open>auto intro: untouched_same untouched_other\<close>)
next
  case (call_abort x)
  have g: "getStream i t = getStream i s"
    using call_abort Abort_streams [OF ok, of x] by (auto simp: getStream_def map_of_AList_delete)
  from ok call_abort(2) show ?thesis
    by (rule Abort_heap) (use call_abort q g in \<open>auto intro: untouched_same untouched_other\<close>)
next
  case (call_ping u)
  with q show ?thesis by (auto simp: pingTick_def intro!: untouched_same getStream_streams(1))
next
  case (call_pong e p)
  then have "snd (sess_writeFrame FramePong 0 p (s\<lparr>s_pongs := None\<rparr>)) = t" by (simp add: pongTick_def)
  with q sess_writeFrame_same(1,2) [of FramePong 0 p "s\<lparr>s_pongs := None\<rparr>"] show ?thesis
    by (intro untouched_same getStream_streams(1)) simp_all
qed (use ok q in \<open>auto intro: untouched_closing\<close>)

section \<open>A stream between two sessions\<close>

text \<open>
  \<open>lk_a\<close> writes, \<open>lk_b\<close> reads; \<open>lk_wire\<close> is what \<open>lk_a\<close> has written and \<open>lk_b\<close>'s read loop has not read yet. \<open>lk_wait\<close> is the call of \<^verbatim>\<open>pushData\<close> the read loop waits in,
  \<open>lk_alive\<close> whether the loop still runs. The last four fields are the history seen by the two users of the stream: the bytes \<^verbatim>\<open>Write\<close> took, whether
  \<^verbatim>\<open>CloseWrite\<close> was called, the bytes \<^verbatim>\<open>Read\<close> returned, whether it returned \<^verbatim>\<open>io.EOF\<close>.
\<close>

record link =
  lk_a :: session
  lk_b :: session
  lk_wire :: bytes
  lk_wait :: "(nat \<times> bytes) option"
  lk_alive :: bool
  lk_in :: bytes
  lk_fin :: bool
  lk_out :: bytes
  lk_eof :: bool

definition sent :: "session \<Rightarrow> session \<Rightarrow> bytes" where
  "sent a a' = drop (length (w_bytes (s_conn a))) (w_bytes (s_conn a'))"

definition sends :: "session \<Rightarrow> link \<Rightarrow> link" where
  "sends a' L = L\<lparr>lk_a := a', lk_wire := lk_wire L @ sent (lk_a L) a'\<rparr>"

text \<open>The \<^verbatim>\<open>select\<close> of \<^verbatim>\<open>pushData\<close>, where a blocked call goes on.\<close>

definition pushSelect :: "bool \<Rightarrow> nat \<Rightarrow> bytes \<Rightarrow> session \<Rightarrow> session option" where
  "pushSelect pick r p s =
     (let st = strm s r; gone = eofCh st \<or> s_done s
      in if length (chunks st) < chunksCap \<and> \<not> (gone \<and> pick) then Some (upd r (\<lambda>st. st\<lparr>chunks := chunks st @ [p]\<rparr>) s)
         else if gone then Some s else None)"

lemma pushData_select: "pushData pick r p s = (if readDone (strm s r) then Some s else pushSelect pick r p s)"
  by (simp add: pushData_def pushSelect_def Let_def)

text \<open>The writing side, stream \<open>r\<close> with id \<open>i\<close>: its calls on the stream, its other calls, the frames it receives.\<close>

inductive lk_send :: "u32 \<Rightarrow> nat \<Rightarrow> link \<Rightarrow> link \<Rightarrow> bool" for i r where
  send_write: "Write r d (lk_a L) = ((n, e), a') \<Longrightarrow> lk_send i r L ((sends a' L)\<lparr>lk_in := lk_in L @ take n d\<rparr>)"
| send_close: "lk_send i r L ((sends (snd (CloseWrite r (lk_a L))) L)\<lparr>lk_fin := True\<rparr>)"
| send_abort: "lk_send i r L (sends (Abort r (lk_a L)) L)"
| send_read: "lk_send i r L (sends (snd (Read n r (lk_a L))) L)"
| send_call: "call i (lk_a L) a' \<Longrightarrow> lk_send i r L (sends a' L)"
| send_frame: "dispatch now pick f (lk_a L) = Next a' \<or> dispatch now pick f (lk_a L) = Block a' \<Longrightarrow> lk_send i r L (sends a' L)"
| send_bytes: "lk_send i r L (sends (liveRead now n (lk_a L)) L)"

text \<open>The reading side, stream \<open>q\<close>: its read loop and the readers of its streams.\<close>

inductive lk_recv :: "nat \<Rightarrow> link \<Rightarrow> link \<Rightarrow> bool" for q where
  recv_frame: "lk_alive L \<Longrightarrow> lk_wait L = None \<Longrightarrow> readFrame \<lparr>r_bytes = lk_wire L, r_end = EOF\<rparr> = (Inr f, rd) \<Longrightarrow>
     dispatch now pick f (liveRead now (length (lk_wire L) - length (r_bytes rd)) (lk_b L)) = Next b' \<Longrightarrow>
     lk_recv q L (L\<lparr>lk_b := b', lk_wire := r_bytes rd\<rparr>)"
| recv_block: "lk_alive L \<Longrightarrow> lk_wait L = None \<Longrightarrow> readFrame \<lparr>r_bytes = lk_wire L, r_end = EOF\<rparr> = (Inr (t, j, p), rd) \<Longrightarrow>
     dispatch now pick (t, j, p) (liveRead now (length (lk_wire L) - length (r_bytes rd)) (lk_b L)) = Block b' \<Longrightarrow>
     getStream j (lk_b L) = Some x \<Longrightarrow> lk_recv q L (L\<lparr>lk_b := b', lk_wire := r_bytes rd, lk_wait := Some (x, p)\<rparr>)"
| recv_resume: "lk_alive L \<Longrightarrow> lk_wait L = Some (x, p) \<Longrightarrow> pushSelect pick x p (lk_b L) = Some b' \<Longrightarrow>
     lk_recv q L (L\<lparr>lk_b := (markRecv now b')\<lparr>s_stalled := False\<rparr>, lk_wait := None\<rparr>)"
| recv_read: "0 < n \<Longrightarrow> Read n q (lk_b L) = (res, b') \<Longrightarrow>
     lk_recv q L (L\<lparr>lk_b := b', lk_out := lk_out L @ (case res of RData d \<Rightarrow> d | _ \<Rightarrow> []), lk_eof := lk_eof L \<or> res = RErr EOF\<rparr>)"
| recv_other: "x \<noteq> q \<Longrightarrow> x < length (s_heap (lk_b L)) \<Longrightarrow> lk_recv q L (L\<lparr>lk_b := snd (Read n x (lk_b L))\<rparr>)"

text \<open>
  Everything: both sides, the reading side's own calls (it may write to the stream, close its half or abort it), and the end of its read loop by an
  error of the connection or of a frame.
\<close>

inductive lk_step :: "u32 \<Rightarrow> nat \<Rightarrow> nat \<Rightarrow> link \<Rightarrow> link \<Rightarrow> bool" for i r q where
  step_send: "lk_send i r L M \<Longrightarrow> lk_step i r q L M"
| step_recv: "lk_recv q L M \<Longrightarrow> lk_step i r q L M"
| step_call: "call i (lk_b L) b' \<Longrightarrow> lk_step i r q L (L\<lparr>lk_b := b'\<rparr>)"
| step_write: "lk_step i r q L (L\<lparr>lk_b := snd (Write q d (lk_b L))\<rparr>)"
| step_close: "lk_step i r q L (L\<lparr>lk_b := snd (CloseWrite q (lk_b L))\<rparr>)"
| step_abort: "lk_step i r q L (L\<lparr>lk_b := Abort q (lk_b L)\<rparr>)"
| step_lost: "lk_wait L = None \<Longrightarrow> lk_step i r q L (L\<lparr>lk_b := snd (finishRun e (lk_b L)), lk_alive := False\<rparr>)"

end
