(* ===== verification/Link_Fifo.thy ===== *)
theory Link_Fifo
  imports Link
begin

text \<open>
  A stream of the multiplexer as a FIFO of bytes: the invariant of all runs of \<open>Link\<close>'s two sessions, that every step keeps it, and what follows for
  the two users of the stream.
\<close>

section \<open>The invariant\<close>

text \<open>A stream that its session may forget: its reader has seen the end, and it was closed or aborted.\<close>

definition st_over :: "stream \<Rightarrow> bool" where
  "st_over st \<longleftrightarrow> readDone st \<and> (sentClose st \<or> aborted st)"

definition reader_ok :: "u32 \<Rightarrow> nat \<Rightarrow> session \<Rightarrow> bool" where
  "reader_ok i q b \<longleftrightarrow> sess_ok b \<and> q < length (s_heap b) \<and> st_id (strm b q) = i \<and>
     (getStream i b = Some q \<or> getStream i b = None \<and> st_over (strm b q))"

definition pend :: "nat \<Rightarrow> link \<Rightarrow> bytes" where
  "pend q L = (case lk_wait L of None \<Rightarrow> [] | Some (x, p) \<Rightarrow> if x = q then p else [])"

definition held :: "nat \<Rightarrow> link \<Rightarrow> bytes" where
  "held q L = lk_out L @ cur (strm (lk_b L) q) @ concat (chunks (strm (lk_b L) q))"

text \<open>Where the written bytes are: read, buffered at the reader, waiting in its read loop, in flight. Once the stream has failed some are lost, at the end.\<close>

definition content :: "nat \<Rightarrow> link \<Rightarrow> bytes list \<Rightarrow> bool" where
  "content q L ps \<longleftrightarrow>
     (case readErr (strm (lk_b L) q) of
        None \<Rightarrow> lk_in L = held q L @ pend q L @ concat ps
      | Some e \<Rightarrow> if e = EOF then lk_in L = held q L \<and> pend q L = [] \<and> ps = [] else (\<exists>lost. lk_in L = held q L @ pend q L @ lost))"

definition ending :: "u32 \<Rightarrow> nat \<Rightarrow> nat \<Rightarrow> link \<Rightarrow> frame list \<Rightarrow> bool" where
  "ending i r q L es \<longleftrightarrow>
     (let w = strm (lk_a L) r; st = strm (lk_b L) q; fin = (FrameClose, i, []) \<in> set es
      in set es \<subseteq> {(FrameClose, i, []), (FrameReset, i, [])} \<and>
         (es \<noteq> [] \<or> readErr st = Some EOF \<or> lk_fin L \<longrightarrow> checkWrite w \<noteq> None) \<and>
         (fin \<or> readErr st = Some EOF \<longrightarrow> lk_fin L) \<and>
         ((FrameReset, i, []) \<in> set es \<longrightarrow> rst w) \<and> (sentClose w \<longrightarrow> lk_fin L \<or> rst w) \<and>
         (lk_fin L \<longrightarrow> w_closed (s_conn (lk_a L)) \<or> rst w \<or> fin \<or> readDone st) \<and>
         (lk_eof L \<longrightarrow> readErr st = Some EOF \<and> cur st = [] \<and> concat (chunks st) = []))"

definition link_ok :: "u32 \<Rightarrow> nat \<Rightarrow> nat \<Rightarrow> link \<Rightarrow> bool" where
  "link_ok i r q L \<longleftrightarrow>
     sess_ok (lk_a L) \<and> w_plan (s_conn (lk_a L)) = [] \<and> r < length (s_heap (lk_a L)) \<and> st_id (strm (lk_a L) r) = i \<and>
     reader_ok i q (lk_b L) \<and> (\<forall>x p. lk_wait L = Some (x, p) \<longrightarrow> x < length (s_heap (lk_b L))) \<and>
     (\<exists>fs ps es. lk_wire L = concat (map frame_bytes fs) \<and> list_all known fs \<and>
        mine i fs = map (\<lambda>p. (FrameData, i, p)) ps @ es \<and> content q L ps \<and> ending i r q L es)"

text \<open>The start: the stream is open on both sides and unused; frames of other streams may be in flight.\<close>

definition link_init :: "u32 \<Rightarrow> nat \<Rightarrow> nat \<Rightarrow> link \<Rightarrow> bool" where
  "link_init i r q L \<longleftrightarrow>
     sess_ok (lk_a L) \<and> w_plan (s_conn (lk_a L)) = [] \<and> r < length (s_heap (lk_a L)) \<and> strm (lk_a L) r = newStream i \<and>
     sess_ok (lk_b L) \<and> getStream i (lk_b L) = Some q \<and> strm (lk_b L) q = newStream i \<and>
     (\<exists>fs. lk_wire L = concat (map frame_bytes fs) \<and> list_all known fs \<and> mine i fs = []) \<and>
     lk_wait L = None \<and> lk_alive L \<and> lk_in L = [] \<and> \<not> lk_fin L \<and> lk_out L = [] \<and> \<not> lk_eof L"

lemma link_init_ok: "link_init i r q L \<Longrightarrow> link_ok i r q L"
  using getStream_ok [of "lk_b L" i q]
  by (auto simp: link_init_def link_ok_def reader_ok_def content_def held_def pend_def ending_def newStream_def Let_def)

lemma link_okE:
  assumes "link_ok i r q L"
  obtains fs ps es where "lk_wire L = concat (map frame_bytes fs)" and "list_all known fs"
    and "mine i fs = map (\<lambda>p. (FrameData, i, p)) ps @ es" and "content q L ps" and "ending i r q L es"
  using assms unfolding link_ok_def by blast

lemma link_ok_intro:
  assumes "sess_ok (lk_a L)" and "w_plan (s_conn (lk_a L)) = []" and "r < length (s_heap (lk_a L))" and "st_id (strm (lk_a L) r) = i"
    and "reader_ok i q (lk_b L)" and "\<And>x p. lk_wait L = Some (x, p) \<Longrightarrow> x < length (s_heap (lk_b L))"
    and "lk_wire L = concat (map frame_bytes fs)" and "list_all known fs" and "mine i fs = map (\<lambda>p. (FrameData, i, p)) ps @ es"
    and "content q L ps" and "ending i r q L es"
  shows "link_ok i r q L"
  using assms unfolding link_ok_def by blast

lemma link_ok_parts:
  assumes "link_ok i r q L"
  shows "sess_ok (lk_a L)" "w_plan (s_conn (lk_a L)) = []" "r < length (s_heap (lk_a L))" "st_id (strm (lk_a L) r) = i"
    and "reader_ok i q (lk_b L)" "\<And>x p. lk_wait L = Some (x, p) \<Longrightarrow> x < length (s_heap (lk_b L))"
  using assms unfolding link_ok_def by blast+

lemma link_okI:
  assumes "link_ok i r q L" and "lk_a M = lk_a L" and "reader_ok i q (lk_b M)"
    and "\<And>x p. lk_wait M = Some (x, p) \<Longrightarrow> x < length (s_heap (lk_b M))"
    and "lk_wire M = concat (map frame_bytes fs)" and "list_all known fs" and "mine i fs = map (\<lambda>p. (FrameData, i, p)) ps @ es"
    and "content q M ps" and "ending i r q M es"
  shows "link_ok i r q M"
  by (rule link_ok_intro [where fs = fs and ps = ps and es = es]) (use link_ok_parts [OF assms(1)] assms(2-) in simp_all)

subsection \<open>Steps of the writing side\<close>

lemma emits_sent: "emits a fs a' \<Longrightarrow> sent a a' = concat (map frame_bytes fs)"
  by (simp add: emits_def sent_def)

lemma send_ok:
  assumes inv: "link_ok i r q L" and a': "sess_ok a'" "along st_grow r (lk_a L) a'"
    and out: "emits (lk_a L) fs' a'" "list_all known fs'" "mine i fs' = map (\<lambda>p. (FrameData, i, p)) ps' @ es'"
    and data: "checkWrite (strm (lk_a L) r) \<noteq> None \<longrightarrow> ps' = []"
    and M: "M = (sends a' L)\<lparr>lk_in := lk_in L @ concat ps', lk_fin := fin\<rparr>" and mono: "lk_fin L \<longrightarrow> fin"
    and ends: "\<And>es. ending i r q L es \<Longrightarrow> ps' = [] \<or> es = [] \<Longrightarrow> ending i r q M (es @ es')"
  shows "link_ok i r q M"
proof -
  from inv obtain fs ps es where fs: "lk_wire L = concat (map frame_bytes fs)" "list_all known fs"
    "mine i fs = map (\<lambda>p. (FrameData, i, p)) ps @ es" "content q L ps" "ending i r q L es" by (rule link_okE)
  have es: "ps' = [] \<or> es = [] \<and> readErr (strm (lk_b L) q) \<noteq> Some EOF" using data fs(5) by (auto simp: ending_def Let_def)
  then have mine: "mine i (fs @ fs') = map (\<lambda>p. (FrameData, i, p)) (ps @ ps') @ (es @ es')"
    using fs(3) out(3) by auto
  have "content q M (ps @ ps')"
    using fs(4) es by (auto simp: content_def M sends_def held_def pend_def split: option.splits if_splits)
  moreover have "ending i r q M (es @ es')" using ends [OF fs(5)] es by blast
  moreover have "lk_wire M = concat (map frame_bytes (fs @ fs'))" using fs(1) emits_sent [OF out(1)] by (simp add: M sends_def)
  ultimately show ?thesis
    using link_ok_parts [OF inv] a' out(1,2) fs(2)
    by (intro link_ok_intro [OF _ _ _ _ _ _ _ _ mine]) (simp_all add: M sends_def along_def st_grow_def emits_def)
qed

lemma checkWrite_grows: "st_grow st st' \<Longrightarrow> checkWrite st \<noteq> None \<Longrightarrow> checkWrite st' \<noteq> None"
  by (auto simp: st_grow_def checkWrite_None)

lemma send_quiet:
  assumes inv: "link_ok i r q L" and a': "sess_ok a'" "along st_recv r (lk_a L) a'"
    and out: "emits (lk_a L) fs' a'" "list_all known fs'" "mine i fs' = []"
  shows "link_ok i r q (sends a' L)"
proof (rule send_ok [OF inv a'(1) _ out(1,2), where ps' = "[]" and es' = "[]" and fin = "lk_fin L"])
  show "along st_grow r (lk_a L) a'" using a'(2) by (simp add: along_def st_recv_def)
  fix es assume "ending i r q L es"
  with a'(2) out(1) show "ending i r q (sends a' L) (es @ [])"
    by (auto simp: ending_def Let_def sends_def along_def st_recv_def st_grow_def emits_def checkWrite_None)
qed (use out(3) in \<open>simp_all add: sends_def\<close>)

lemma untouched_recv: "untouched i q s t \<Longrightarrow> along st_recv q s t"
  by (auto simp: untouched_def along_def st_recv_def st_grow_def)

lemma Read_recv:
  assumes "r < length (s_heap s)"
  shows "along st_recv r s (snd (Read n r s))"
proof -
  obtain res st' where st: "stRead n (s_done s) (strm s r) = (res, st')" by fastforce
  have "st_recv (strm s r) st'" by (subst conjunct1 [OF stRead_flags [OF st]]) (simp add: st_recv_def st_grow_def)
  with assms st show ?thesis by (simp add: along_def Read_def)
qed

lemma send_write_ok:
  assumes inv: "link_ok i r q L" and w: "Write r d (lk_a L) = ((n, e), a')"
  shows "link_ok i r q ((sends a' L)\<lparr>lk_in := lk_in L @ take n d\<rparr>)"
proof -
  note a = link_ok_parts(1-4) [OF inv]
  have op: "mux_op (lk_a L) a'" using mux_op.op_write [OF a(3), of d] w by simp
  have same: "strm a' r = strm (lk_a L) r" using conn_only_frame(7) [OF Write_conn_only [of "lk_a L" r d]] w by simp
  from emits_Write [OF a(2) w] a(4) obtain ps' where ps': "emits (lk_a L) (map (\<lambda>p. (FrameData, i, p)) ps') a'" "concat ps' = take n d"
    "list_all (\<lambda>p. length p \<le> MaxPayload) ps'" "checkWrite (strm (lk_a L) r) \<noteq> None \<longrightarrow> ps' = []" by auto
  show ?thesis
  proof (rule send_ok [OF inv mux_op_ok [OF op a(1)] op_grown [OF op a(1,3)] ps'(1), where ps' = ps' and es' = "[]" and fin = "lk_fin L"])
    fix es assume "ending i r q L es"
    with ps'(1) show "ending i r q ((sends a' L)\<lparr>lk_in := lk_in L @ take n d\<rparr>) (es @ [])"
      by (auto simp: ending_def Let_def sends_def same emits_def)
  qed (use ps' in \<open>simp_all add: known_frames sends_def\<close>)
qed

lemma send_close_ok:
  assumes inv: "link_ok i r q L"
  shows "link_ok i r q ((sends (snd (CloseWrite r (lk_a L))) L)\<lparr>lk_fin := True\<rparr>)"
proof -
  let ?a' = "snd (CloseWrite r (lk_a L))"
  let ?es = "if healthy (lk_a L) \<and> checkWrite (strm (lk_a L) r) = None then [(FrameClose, i, [])] else []"
  note a = link_ok_parts(1-4) [OF inv]
  have op: "mux_op (lk_a L) ?a'" using a(3) by (rule mux_op.op_closeWrite)
  have out: "emits (lk_a L) ?es ?a'" using emits_CloseWrite [OF a(2,3)] unfolding a(4) .
  have "checkWrite (strm ?a' r) \<noteq> None" using a(3) by (rule CloseWrite_stops)
  moreover have down: "w_closed (s_conn (lk_a L))" if "\<not> healthy (lk_a L)"
    using that a(1,2) by (auto simp: healthy_def sess_ok_def close_ok_def)
  moreover have "st_grow (strm (lk_a L) r) (strm ?a' r)" using op_grown [OF op a(1,3)] by (simp add: along_def)
  ultimately have ends: "ending i r q ((sends ?a' L)\<lparr>lk_fin := True\<rparr>) (es @ ?es)" if "ending i r q L es" for es
    using that out by (auto simp: ending_def Let_def sends_def emits_def st_grow_def checkWrite_None)
  show ?thesis
    by (rule send_ok [OF inv mux_op_ok [OF op a(1)] op_grown [OF op a(1,3)] out, where ps' = "[]" and es' = ?es and fin = True])
       (use ends in \<open>simp_all add: known_frames sends_def\<close>)
qed

lemma Abort_rst:
  assumes "sess_ok s" and "r < length (s_heap s)"
  shows "rst (strm (Abort r s) r)"
  using Abort_strm [OF assms] by (cases "rst (strm s r)") (simp_all add: Abort_def)

lemma send_abort_ok:
  assumes inv: "link_ok i r q L"
  shows "link_ok i r q (sends (Abort r (lk_a L)) L)"
proof -
  let ?a' = "Abort r (lk_a L)"
  note a = link_ok_parts(1-4) [OF inv]
  have op: "mux_op (lk_a L) ?a'" using a(3) by (rule mux_op.op_abort)
  from emits_Abort [OF a(2,1,3)] a(4) obtain fs where out: "emits (lk_a L) fs ?a'" and fs: "fs = [] \<or> fs = [(FrameReset, i, [])]" by metis
  have ends: "ending i r q (sends ?a' L) (es @ fs)" if "ending i r q L es" for es
  proof -
    have "rst (strm ?a' r)" "checkWrite (strm ?a' r) \<noteq> None" using Abort_rst [OF a(1,3)] by (simp_all add: checkWrite_def)
    moreover have "set fs \<subseteq> {(FrameReset, i, [])}" "(FrameClose, i, []) \<notin> set fs" using fs by auto
    ultimately show ?thesis
      using that unfolding ending_def Let_def sends_def
      by (simp del: not_None_eq) blast
  qed
  have m: "list_all known fs" "mine i fs = fs" using fs by (auto simp: known_frames)
  show ?thesis
    by (rule send_ok [OF inv mux_op_ok [OF op a(1)] op_grown [OF op a(1,3)] out m(1), where ps' = "[]" and es' = fs and fin = "lk_fin L"])
       (use ends m(2) in \<open>simp_all add: sends_def\<close>)
qed

lemma lk_send_ok:
  assumes "lk_send i r L M" and inv: "link_ok i r q L"
  shows "link_ok i r q M"
proof -
  note a = link_ok_parts(1-4) [OF inv]
  from assms(1) show ?thesis
  proof cases
    case (send_call a')
    from call_emits [OF send_call(2) a(2,1)] obtain fs where "emits (lk_a L) fs a'" "list_all known fs" "mine i fs = []" by blast
    then show ?thesis
      unfolding send_call(1) by (rule send_quiet [OF inv mux_op_ok [OF call_op [OF send_call(2)] a(1)] untouched_recv [OF call_untouched [OF send_call(2) a(1,3,4)]]])
  next
    case (send_read n)
    then show ?thesis
      using send_quiet [OF inv Read_ok [OF a(1,3)] Read_recv [OF a(3)], of "[]" n] a(2) by (simp add: emits_same Read_def split: prod.splits)
  next
    case (send_frame now pick f a')
    then show ?thesis
      using send_quiet [OF inv dispatch_ok [OF a(1)] dispatch_recv [OF a(1,3)], of now pick f a' _ _ _ "[]"] dispatch_conn [of now pick f "lk_a L" a'] a(2)
      by (auto simp: emits_same)
  next
    case (send_bytes now n)
    then show ?thesis
      using send_quiet [OF inv _ recv_same, of "liveRead now n (lk_a L)" "[]"] a by (simp add: emits_same)
  qed (use send_write_ok send_close_ok send_abort_ok inv in blast)+
qed

subsection \<open>Steps of the reading side\<close>

lemma reader_readErr: "reader_ok i q b \<Longrightarrow> (readErr (strm b q) = None) = (\<not> readDone (strm b q))"
  using sess_okD_stream [of b q] unfolding reader_ok_def stream_ok_def by blast

lemma reader_keep:
  assumes "reader_ok i q b" and "sess_ok b'" and "q < length (s_heap b')" and "st_id (strm b' q) = i"
    and "getStream i b' = getStream i b \<or> getStream i b' = None \<and> st_over (strm b' q)" and "st_over (strm b q) \<longrightarrow> st_over (strm b' q)"
  shows "reader_ok i q b'"
  using assms unfolding reader_ok_def by metis

lemma dispatch_reset:
  "dispatch now pick (FrameReset, i, p) s = (case getStream i s of None \<Rightarrow> Next s | Some r \<Rightarrow> Next (remoteReset r s))"
  by (simp add: dispatch_def frame_types)

lemma dispatch_other:
  assumes rd: "reader_ok i q b" and d: "dispatch now pick f b = Next b'" and f: "mine i [f] = []"
  shows "reader_ok i q b' \<and> strm b' q = strm b q"
proof -
  obtain t j p where tjp: "f = (t, j, p)" by (cases f)
  have ok: "sess_ok b" and q: "q < length (s_heap b)" "st_id (strm b q) = i" using rd by (simp_all add: reader_ok_def)
  have b': "sess_ok b'" "q < length (s_heap b')" using dispatch_ok [OF ok disjI1 [OF d]] dispatch_recv [OF ok q(1) disjI1 [OF d]] by (simp_all add: along_def)
  have x: "x \<noteq> q" "x < length (s_heap b)" "stream_ok (strm b x)" "\<not> removed (strm b x)" "st_id (strm b x) = j"
    if "getStream j b = Some x" "j \<noteq> i" for x
    using getStream_ok [OF ok that(1)] sess_okD_stream [OF ok] that(2) q(2) by auto
  have "strm b' q = strm b q \<and> getStream i b' = getStream i b"
  proof (cases "t = FramePing \<or> t = FramePong")
    case True
    with d show ?thesis by (auto simp: tjp dispatch_ping_pong getStream_def strm_def split: option.splits)
  next
    case False
    with f have j: "j \<noteq> i" by (auto simp: tjp split: if_splits)
    consider "t = FrameOpen" | "t = FrameData" | "t = FrameClose" | "t = FrameReset"
      using d False by (auto simp: tjp dispatch_def split: if_splits)
    then show ?thesis
    proof cases
      case 1
      with d j q(1) show ?thesis
        by (auto simp: tjp dispatch_def alloc_def Let_def getStream_def strm_def nth_append map_of_AList_update split: if_splits)
    next
      case 2
      with d j x q(1) show ?thesis
        by (auto simp: tjp dispatch_data pushData_def Let_def getStream_def strm_def markRecv_def upd_def split: option.splits if_splits)
    next
      case 3
      show ?thesis
      proof (cases "getStream j b")
        case (Some y)
        note y = x [OF Some j]
        have "b' = remoteClose y b" using d 3 Some by (simp add: tjp dispatch_close)
        then show ?thesis
          using remoteClose_net [OF y(2,3,4)] y(1,5) j by (simp add: getStream_def strm_def upd_def removeStream_def map_of_AList_delete)
      qed (use d 3 in \<open>simp add: tjp dispatch_close\<close>)
    next
      case 4
      show ?thesis
      proof (cases "getStream j b")
        case (Some y)
        note y = x [OF Some j]
        have "b' = remoteReset y b" using d 4 Some by (simp add: tjp dispatch_reset)
        then show ?thesis
          using remoteReset_net [OF y(2,3,4)] y(1,5) j by (simp add: getStream_def strm_def upd_def removeStream_def map_of_AList_delete)
      qed (use d 4 in \<open>simp add: tjp dispatch_reset\<close>)
    qed
  qed
  with rd b' show ?thesis unfolding reader_ok_def by metis
qed

lemma dispatch_gone:
  assumes "getStream i b = None" and "dispatch now pick (t, i, p) b = Next b'" and "t = FrameData \<or> t = FrameClose \<or> t = FrameReset"
  shows "b' = b"
  using assms by (auto simp: dispatch_data dispatch_close dispatch_reset)

lemma dispatch_mine_data:
  assumes rd: "reader_ok i q b" and d: "dispatch now pick (FrameData, i, p) b = Next b'"
  shows "reader_ok i q b' \<and> strm b' q = (if readDone (strm b q) then strm b q else (strm b q)\<lparr>chunks := chunks (strm b q) @ [p]\<rparr>)"
proof (cases "getStream i b")
  case None
  with dispatch_gone [OF None d] rd show ?thesis by (auto simp: reader_ok_def st_over_def)
next
  case (Some x)
  have x: "x = q" "q < length (s_heap b)" "sess_ok b" using rd Some by (simp_all add: reader_ok_def)
  have live: "\<not> readDone (strm b q) \<Longrightarrow> \<not> s_done b \<and> \<not> eofCh (strm b q)" using getStream_live x Some by blast
  have b': "sess_ok b'" using dispatch_ok [OF x(3) disjI1 [OF d]] .
  have "strm b' q = (if readDone (strm b q) then strm b q else (strm b q)\<lparr>chunks := chunks (strm b q) @ [p]\<rparr>) \<and> getStream i b' = Some q \<and>
      length (s_heap b') = length (s_heap b)"
    using d x(2) live Some unfolding x(1)
    by (auto simp: dispatch_data pushData_def Let_def getStream_def strm_def markRecv_def upd_def split: option.splits if_splits)
  with rd b' Some x(1) show ?thesis by (auto simp: reader_ok_def)
qed

text \<open>A stream that ended keeps its data; \<open>e\<close> is recorded unless it had ended before.\<close>

definition ended :: "err \<Rightarrow> stream \<Rightarrow> stream \<Rightarrow> bool" where
  "ended e st st' \<longleftrightarrow> cur st' = cur st \<and> chunks st' = chunks st \<and> readDone st' \<and> readErr st' = (if readDone st then readErr st else Some e)"

lemma dispatch_mine_end:
  assumes rd: "reader_ok i q b" and d: "dispatch now pick (t, i, p) b = Next b'"
    and t: "t = FrameClose \<and> e = EOF \<or> t = FrameReset \<and> e = ErrStreamReset"
  shows "reader_ok i q b' \<and> ended e (strm b q) (strm b' q)"
proof (cases "getStream i b")
  case None
  then have "readDone (strm b q)" using rd by (auto simp: reader_ok_def st_over_def)
  with dispatch_gone [OF None d] t rd show ?thesis by (auto simp: ended_def)
next
  case (Some x)
  have x: "x = q" "q < length (s_heap b)" "sess_ok b" "st_id (strm b q) = i" using rd Some by (simp_all add: reader_ok_def)
  have st: "stream_ok (strm b q)" "\<not> removed (strm b q)" using getStream_ok [OF x(3) Some] sess_okD_stream [OF x(3,2)] x(1) by simp_all
  have b': "sess_ok b'" using dispatch_ok [OF x(3) disjI1 [OF d]] .
  have "b' = (if t = FrameClose then remoteClose q b else remoteReset q b)"
    using d t Some x(1) by (auto simp: dispatch_close dispatch_reset)
  then have "st_id (strm b' q) = i \<and> ended e (strm b q) (strm b' q) \<and> q < length (s_heap b') \<and>
      (getStream i b' = Some q \<or> getStream i b' = None \<and> st_over (strm b' q))"
    using t x st Some
    by (auto simp: remoteClose_net remoteReset_net ended_def st_over_def getStream_def removeStream_def map_of_AList_delete strm_def upd_def)
  with b' show ?thesis by (auto simp: reader_ok_def ended_def)
qed

lemma ending_b:
  assumes "ending i r q L es" and "lk_a M = lk_a L" and "lk_fin M = lk_fin L"
    and "readErr (strm (lk_b M) q) = Some EOF \<longleftrightarrow> readErr (strm (lk_b L) q) = Some EOF"
    and "readDone (strm (lk_b L) q) \<longrightarrow> readDone (strm (lk_b M) q)"
    and "lk_eof M \<longrightarrow> readErr (strm (lk_b M) q) = Some EOF \<and> cur (strm (lk_b M) q) = [] \<and> concat (chunks (strm (lk_b M) q)) = []"
  shows "ending i r q M es"
  using assms unfolding ending_def Let_def by metis

lemma ending_eof:
  "ending i r q L es \<Longrightarrow> lk_eof L \<Longrightarrow>
     readErr (strm (lk_b L) q) = Some EOF \<and> cur (strm (lk_b L) q) = [] \<and> concat (chunks (strm (lk_b L) q)) = []"
  unfolding ending_def Let_def by blast

text \<open>The reader's other operations: its data stays, its end may come, but not as \<^verbatim>\<open>io.EOF\<close>.\<close>

definition fades :: "stream \<Rightarrow> stream \<Rightarrow> bool" where
  "fades st st' \<longleftrightarrow> cur st' = cur st \<and> chunks st' = chunks st \<and> (readDone st \<longrightarrow> readDone st') \<and>
     (readErr st' = readErr st \<or> readErr st = None \<and> readErr st' \<noteq> None \<and> readErr st' \<noteq> Some EOF)"

lemma link_b:
  assumes inv: "link_ok i r q L" and b': "reader_ok i q b'" "fades (strm (lk_b L) q) (strm b' q)"
    and wait: "\<And>x. x < length (s_heap (lk_b L)) \<Longrightarrow> x < length (s_heap b')"
    and M: "M = L\<lparr>lk_b := b', lk_alive := al\<rparr>"
  shows "link_ok i r q M"
proof -
  from inv obtain fs ps es where fs: "lk_wire L = concat (map frame_bytes fs)" "list_all known fs"
    "mine i fs = map (\<lambda>p. (FrameData, i, p)) ps @ es" "content q L ps" "ending i r q L es" by (rule link_okE)
  have same: "held q M = held q L" "pend q M = pend q L" using b'(2) by (simp_all add: M held_def pend_def fades_def)
  have c: "content q M ps"
    using fs(4) b'(2) unfolding content_def same by (auto simp: M fades_def split: option.splits)
  have e: "ending i r q M es"
    using fs(5) by (rule ending_b) (use b'(2) ending_eof [OF fs(5)] in \<open>auto simp: M fades_def simp del: concat_eq_Nil_conv\<close>)
  show ?thesis
    by (rule link_okI [OF inv _ _ _ _ fs(2,3) c e]) (use fs(1) b'(1) wait link_ok_parts(6) [OF inv] in \<open>simp_all add: M\<close>)
qed

lemma untouched_reader:
  assumes "reader_ok i q b" and "sess_ok t" and "untouched i q b t"
  shows "reader_ok i q t \<and> fades (strm b q) (strm t q)"
  using assms reader_readErr [OF assms(1)] by (auto simp: reader_ok_def untouched_def fades_def st_over_def)

lemma CloseWrite_reader:
  assumes rd: "reader_ok i q b"
  shows "reader_ok i q (snd (CloseWrite q b)) \<and> fades (strm b q) (strm (snd (CloseWrite q b)) q)"
proof (cases "sentClose (strm b q) \<or> rst (strm b q)")
  case True
  with rd show ?thesis by (simp add: CloseWrite_def fades_def)
next
  case False
  have q: "q < length (s_heap b)" "sess_ok b" "st_id (strm b q) = i" using rd by (simp_all add: reader_ok_def)
  have ok: "sess_ok (snd (CloseWrite q b))" using q(2,1) by (rule CloseWrite_ok)
  have g: "getStream i (snd (CloseWrite q b)) = getStream i b \<or> getStream i (snd (CloseWrite q b)) = None \<and> readDone (strm b q)"
    using CloseWrite_streams [OF q(1)] by (auto simp: getStream_def q(3) map_of_AList_delete)
  note st = CloseWrite_strm [OF q(1)]
  have len: "q < length (s_heap (snd (CloseWrite q b)))" using op_grown [OF mux_op.op_closeWrite [OF q(1)] q(2,1)] by (simp add: along_def)
  have "reader_ok i q (snd (CloseWrite q b))" by (rule reader_keep [OF rd ok len]) (use g q(3) False in \<open>simp_all add: st st_over_def\<close>)
  then show ?thesis by (simp add: st fades_def)
qed

lemma Abort_reader:
  assumes rd: "reader_ok i q b"
  shows "reader_ok i q (Abort q b) \<and> fades (strm b q) (strm (Abort q b) q)"
proof (cases "rst (strm b q)")
  case True
  with rd show ?thesis by (simp add: Abort_def fades_def)
next
  case False
  have q: "sess_ok b" "q < length (s_heap b)" "st_id (strm b q) = i" using rd by (simp_all add: reader_ok_def)
  have st: "strm (Abort q b) q = (st_abort (strm b q))\<lparr>removed := True\<rparr>" using q(1,2) False by (rule Abort_strm)
  have g: "getStream i (Abort q b) = getStream i b \<or> getStream i (Abort q b) = None"
    using Abort_streams [OF q(1,2)] by (auto simp: getStream_def q(3) map_of_AList_delete)
  have len: "q < length (s_heap (Abort q b))" using op_grown [OF mux_op.op_abort [OF q(2)] q(1,2)] by (simp add: along_def)
  have "reader_ok i q (Abort q b)" by (rule reader_keep [OF rd Abort_ok [OF q(1,2)] len]) (use g q(3) in \<open>simp_all add: st st_over_def\<close>)
  then show ?thesis using reader_readErr [OF rd] by (simp add: st fades_def)
qed

lemma stRead_rest:
  "stRead n d st = (res, st') \<Longrightarrow> (case res of RData b \<Rightarrow> b | _ \<Rightarrow> []) @ cur st' @ concat (chunks st') = cur st @ concat (chunks st)"
proof (induction n d st arbitrary: res st' rule: stRead.induct)
  case (1 n d st)
  show ?case
  proof (cases "cur st = [] \<and> chunks st \<noteq> []")
    case True
    then obtain c cs where c: "chunks st = c # cs" by (cases "chunks st") auto
    with True "1.prems" have "stRead n d (st\<lparr>cur := c, chunks := cs\<rparr>) = (res, st')" by (simp add: stRead.simps [of n d st])
    with "1.IH" [OF _ c] True c show ?thesis by fastforce
  next
    case False
    with "1.prems" show ?thesis by (auto simp: stRead.simps [of n d st] split: if_splits list.splits)
  qed
qed

text \<open>The first frame in flight is the one the read loop gets, and what it means for the stream.\<close>

lemma head_frame:
  assumes "w = concat (map frame_bytes fs)" and "list_all known fs" and "readFrame \<lparr>r_bytes = w, r_end = EOF\<rparr> = (Inr f, rd)"
  obtains fs' where "fs = f # fs'" and "r_bytes rd = concat (map frame_bytes fs')"
proof (cases fs)
  case Nil
  with assms(1,3) show ?thesis by (simp add: readFrame_def ReadFull_def HeaderSize_def)
next
  case (Cons g fs')
  obtain t j p where g: "g = (t, j, p)" by (cases g)
  have "readFrame \<lparr>r_bytes = w, r_end = EOF\<rparr> = (Inr (t, j, p), \<lparr>r_bytes = concat (map frame_bytes fs'), r_end = EOF\<rparr>)"
    using readFrame_frame_bytes [of p "\<lparr>r_bytes = w, r_end = EOF\<rparr>" t j "concat (map frame_bytes fs')"] assms(1,2)
    by (simp add: Cons g known_def frame_ok_def)
  with assms(3) show ?thesis using that [of fs'] by (auto simp: Cons g)
qed

lemma mine_head:
  assumes "mine i (f # fs) = map (\<lambda>p. (FrameData, i, p)) ps @ es" and "set es \<subseteq> {(FrameClose, i, []), (FrameReset, i, [])}"
  obtains (other) "mine i [f] = []" and "mine i fs = map (\<lambda>p. (FrameData, i, p)) ps @ es"
  | (data) p ps' where "f = (FrameData, i, p)" and "ps = p # ps'" and "mine i fs = map (\<lambda>p. (FrameData, i, p)) ps' @ es"
  | (close) es' where "f = (FrameClose, i, [])" and "ps = []" and "es = f # es'" and "mine i fs = es'"
  | (reset) es' where "f = (FrameReset, i, [])" and "ps = []" and "es = f # es'" and "mine i fs = es'"
proof (cases "mine i [f] = []")
  case True
  with assms(1) other show ?thesis by (simp split: if_splits)
next
  case False
  then have m: "f # mine i fs = map (\<lambda>p. (FrameData, i, p)) ps @ es" using assms(1) by (simp split: if_splits)
  show ?thesis
  proof (cases ps)
    case (Cons p ps')
    with m data show ?thesis by simp
  next
    case Nil
    with m obtain es' where "es = f # es'" "mine i fs = es'" by (cases es) simp_all
    with assms(2) Nil close reset show ?thesis by auto
  qed
qed

lemma ending_set: "ending i r q L es \<Longrightarrow> set es \<subseteq> {(FrameClose, i, []), (FrameReset, i, [])}"
  by (simp add: ending_def Let_def)

lemma reader_liveRead: "reader_ok i q b \<Longrightarrow> reader_ok i q (liveRead now n b)" and strm_liveRead: "strm (liveRead now n b) x = strm b x"
  by (simp_all add: reader_ok_def strm_def getStream_def)

text \<open>A frame that ends the stream: the peer's close, or its reset.\<close>

lemma ending_tail:
  assumes e: "ending i r q L (f # es)" and M: "lk_a M = lk_a L" "lk_fin M = lk_fin L" "lk_eof M = lk_eof L"
    and st: "ended e (strm (lk_b L) q) (strm (lk_b M) q)" and f: "f = (FrameClose, i, []) \<or> e \<noteq> EOF"
    and rd: "readErr (strm (lk_b L) q) = None \<longleftrightarrow> \<not> readDone (strm (lk_b L) q)"
  shows "ending i r q M es"
proof -
  have "readErr (strm (lk_b M) q) = Some EOF \<longrightarrow> readErr (strm (lk_b L) q) = Some EOF \<or> f = (FrameClose, i, [])"
    using st f by (auto simp: ended_def)
  moreover have eof: "lk_eof L \<longrightarrow> readDone (strm (lk_b L) q) \<and> readErr (strm (lk_b L) q) = Some EOF \<and> cur (strm (lk_b L) q) = [] \<and>
      concat (chunks (strm (lk_b L) q)) = []" using ending_eof [OF e] rd by auto
  ultimately show ?thesis
    using e st f unfolding ending_def Let_def M ended_def by (simp del: concat_eq_Nil_conv) metis
qed

lemma content_ended:
  assumes "content q L []" and "lk_wait L = None" and "lk_wait M = None" and "lk_in M = lk_in L" and "lk_out M = lk_out L"
    and "ended e (strm (lk_b L) q) (strm (lk_b M) q)" and "readErr (strm (lk_b L) q) = None \<longleftrightarrow> \<not> readDone (strm (lk_b L) q)"
  shows "content q M []"
  using assms by (auto simp: content_def held_def pend_def ended_def split: option.splits if_splits)

lemma content_same:
  "content q L ps \<Longrightarrow> readErr (strm (lk_b M) q) = readErr (strm (lk_b L) q) \<Longrightarrow> held q M = held q L \<Longrightarrow> pend q M = pend q L \<Longrightarrow>
     lk_in M = lk_in L \<Longrightarrow> content q M ps"
  by (simp add: content_def split: option.splits)

lemma recv_frame_ok:
  assumes inv: "link_ok i r q L" and wait: "lk_wait L = None" and rf: "readFrame \<lparr>r_bytes = lk_wire L, r_end = EOF\<rparr> = (Inr f, rd)"
    and d: "dispatch now pick f (liveRead now n (lk_b L)) = Next b'" and M: "M = L\<lparr>lk_b := b', lk_wire := r_bytes rd\<rparr>"
  shows "link_ok i r q M"
proof -
  let ?b = "liveRead now n (lk_b L)"
  from inv obtain fs ps es where fs: "lk_wire L = concat (map frame_bytes fs)" "list_all known fs"
    "mine i fs = map (\<lambda>p. (FrameData, i, p)) ps @ es" "content q L ps" "ending i r q L es" by (rule link_okE)
  from fs(1,2) rf obtain fs' where fs': "fs = f # fs'" "r_bytes rd = concat (map frame_bytes fs')" by (rule head_frame)
  have rd: "reader_ok i q ?b" "readErr (strm (lk_b L) q) = None \<longleftrightarrow> \<not> readDone (strm (lk_b L) q)"
    using reader_liveRead [OF link_ok_parts(5) [OF inv]] reader_readErr [OF link_ok_parts(5) [OF inv]] by simp_all
  have k: "list_all known fs'" using fs(2) fs'(1) by simp
  have eof: "lk_eof L \<longrightarrow> readDone (strm (lk_b L) q) \<and> readErr (strm (lk_b L) q) = Some EOF \<and> cur (strm (lk_b L) q) = [] \<and>
      concat (chunks (strm (lk_b L) q)) = []" using ending_eof [OF fs(5)] rd(2) by auto
  have finish: "link_ok i r q M" if "reader_ok i q b'" "mine i fs' = map (\<lambda>p. (FrameData, i, p)) ps' @ es'" "content q M ps'" "ending i r q M es'" for ps' es'
    by (rule link_okI [OF inv _ _ _ _ k that(2-4)]) (use that(1) wait fs'(2) in \<open>simp_all add: M\<close>)
  show ?thesis
    using fs(3) [unfolded fs'(1)] ending_set [OF fs(5)]
  proof (cases rule: mine_head)
    case other
    from dispatch_other [OF rd(1) d other(1)] have b': "reader_ok i q b'" "strm b' q = strm (lk_b L) q" by (simp_all add: strm_liveRead)
    have c: "content q M ps" using fs(4) by (rule content_same) (simp_all add: held_def pend_def M b'(2))
    have e: "ending i r q M es" using fs(5) by (rule ending_b) (use eof in \<open>simp_all add: M b'(2) del: concat_eq_Nil_conv\<close>)
    show ?thesis by (rule finish [OF b'(1) other(2) c e])
  next
    case (data p ps')
    from dispatch_mine_data [OF rd(1) d [unfolded data(1)]] have b': "reader_ok i q b'"
      "strm b' q = (if readDone (strm (lk_b L) q) then strm (lk_b L) q else (strm (lk_b L) q)\<lparr>chunks := chunks (strm (lk_b L) q) @ [p]\<rparr>)"
      by (simp_all add: strm_liveRead)
    have c: "content q M ps'"
      using fs(4) wait rd(2) by (auto simp: content_def held_def pend_def M b'(2) data(2) split: option.splits if_splits)
    have e: "ending i r q M es" using fs(5) by (rule ending_b) (use eof in \<open>simp_all add: M b'(2) del: concat_eq_Nil_conv\<close>)
    show ?thesis by (rule finish [OF b'(1) data(3) c e])
  next
    case (close es')
    from dispatch_mine_end [OF rd(1) d [unfolded close(1)], of EOF] have b': "reader_ok i q b'" "ended EOF (strm (lk_b L) q) (strm b' q)"
      by (simp_all add: strm_liveRead)
    have c: "content q M []" by (rule content_ended [OF fs(4) [unfolded close(2)] wait _ _ _ _ rd(2)]) (use wait b'(2) in \<open>simp_all add: M\<close>)
    have e: "ending i r q M es'" by (rule ending_tail [where e = EOF, OF fs(5) [unfolded close(3)] _ _ _ _ _ rd(2)]) (use close(1) b'(2) in \<open>simp_all add: M\<close>)
    show ?thesis by (rule finish [OF b'(1) _ c e]) (simp add: close(4))
  next
    case (reset es')
    from dispatch_mine_end [OF rd(1) d [unfolded reset(1)], of ErrStreamReset] have b': "reader_ok i q b'" "ended ErrStreamReset (strm (lk_b L) q) (strm b' q)"
      by (simp_all add: strm_liveRead)
    have c: "content q M []" by (rule content_ended [OF fs(4) [unfolded reset(2)] wait _ _ _ _ rd(2)]) (use wait b'(2) in \<open>simp_all add: M\<close>)
    have e: "ending i r q M es'" by (rule ending_tail [where e = ErrStreamReset, OF fs(5) [unfolded reset(3)] _ _ _ _ _ rd(2)]) (use b'(2) in \<open>simp_all add: M\<close>)
    show ?thesis by (rule finish [OF b'(1) _ c e]) (simp add: reset(4))
  qed
qed

lemma recv_block_ok:
  assumes inv: "link_ok i r q L" and wait: "lk_wait L = None" and rf: "readFrame \<lparr>r_bytes = lk_wire L, r_end = EOF\<rparr> = (Inr (t, j, p), rd)"
    and d: "dispatch now pick (t, j, p) (liveRead now n (lk_b L)) = Block b'" and x: "getStream j (lk_b L) = Some x"
    and M: "M = L\<lparr>lk_b := b', lk_wire := r_bytes rd, lk_wait := Some (x, p)\<rparr>"
  shows "link_ok i r q M"
proof -
  let ?b = "liveRead now n (lk_b L)"
  from inv obtain fs ps es where fs: "lk_wire L = concat (map frame_bytes fs)" "list_all known fs"
    "mine i fs = map (\<lambda>p. (FrameData, i, p)) ps @ es" "content q L ps" "ending i r q L es" by (rule link_okE)
  from fs(1,2) rf obtain fs' where fs': "fs = (t, j, p) # fs'" "r_bytes rd = concat (map frame_bytes fs')" by (rule head_frame)
  note rd = link_ok_parts(5) [OF inv]
  from dispatch_Block [OF d] x have tj: "t = FrameData" and b': "b' = ?b\<lparr>s_stalled := True\<rparr>" and live: "\<not> readDone (strm (lk_b L) x)"
    by (auto simp: strm_liveRead getStream_def)
  have st: "strm b' y = strm (lk_b L) y" for y by (simp add: b' strm_def)
  have rd': "reader_ok i q b'"
    using rd by (rule reader_keep) (use rd in \<open>simp_all add: reader_ok_def st getStream_def, simp_all add: b'\<close>)
  have k: "list_all known fs'" using fs(2) fs'(1) by simp
  have ok: "sess_ok (lk_b L)" "st_id (strm (lk_b L) q) = i" using rd by (simp_all add: reader_ok_def)
  have xl: "x < length (s_heap b')" "st_id (strm (lk_b L) x) = j" using getStream_ok [OF ok(1) x] by (simp_all add: b')
  have e: "ending i r q M es" using fs(5) by (rule ending_b) (use ending_eof [OF fs(5)] in \<open>simp_all add: M st del: concat_eq_Nil_conv\<close>)
  have finish: "link_ok i r q M" if "mine i fs' = map (\<lambda>p. (FrameData, i, p)) ps' @ es" "content q M ps'" for ps'
    by (rule link_okI [OF inv _ _ _ _ k that e]) (use rd' fs'(2) xl(1) in \<open>simp_all add: M\<close>)
  show ?thesis
  proof (cases "j = i")
    case True
    have "x = q" using rd x True by (auto simp: reader_ok_def)
    with live reader_readErr [OF rd] have none: "readErr (strm (lk_b L) q) = None" by simp
    from fs(3) True tj obtain ps' where ps': "ps = p # ps'" "mine i fs' = map (\<lambda>p. (FrameData, i, p)) ps' @ es"
      using ending_set [OF fs(5)] by (cases ps; cases es) (auto simp: fs'(1))
    have "content q M ps'" using fs(4) wait none by (simp add: content_def held_def pend_def M st ps'(1) \<open>x = q\<close>)
    then show ?thesis by (rule finish [OF ps'(2)])
  next
    case False
    then have "x \<noteq> q" using xl(2) ok(2) by auto
    then have "content q M ps" using fs(4) wait by (intro content_same [OF fs(4)]) (simp_all add: held_def pend_def M st)
    then show ?thesis using finish [of ps] fs(3) False by (simp add: fs'(1))
  qed
qed

text \<open>A change at the reader that keeps what is held and waiting together, and how the stream has ended.\<close>

lemma link_read_ok:
  assumes inv: "link_ok i r q L" and M: "lk_a M = lk_a L" "lk_wire M = lk_wire L" "lk_in M = lk_in L" "lk_fin M = lk_fin L"
    and b: "reader_ok i q (lk_b M)" "\<And>x p. lk_wait M = Some (x, p) \<Longrightarrow> x < length (s_heap (lk_b M))"
    and same: "readErr (strm (lk_b M) q) = readErr (strm (lk_b L) q)" "readDone (strm (lk_b M) q) = readDone (strm (lk_b L) q)"
    and held: "held q M @ pend q M = held q L @ pend q L \<or> held q M @ pend q M = held q L \<and> readErr (strm (lk_b L) q) \<noteq> None"
    and pend: "pend q L = [] \<longrightarrow> pend q M = []"
    and eof: "lk_eof M \<longrightarrow> readErr (strm (lk_b M) q) = Some EOF \<and> cur (strm (lk_b M) q) = [] \<and> concat (chunks (strm (lk_b M) q)) = []"
  shows "link_ok i r q M"
proof -
  from inv obtain fs ps es where fs: "lk_wire L = concat (map frame_bytes fs)" "list_all known fs"
    "mine i fs = map (\<lambda>p. (FrameData, i, p)) ps @ es" "content q L ps" "ending i r q L es" by (rule link_okE)
  have c: "content q M ps"
  proof (cases "readErr (strm (lk_b L) q)")
    case None
    with held fs(4) show ?thesis unfolding content_def by (simp add: same M)
  next
    case (Some e)
    show ?thesis
    proof (cases "e = EOF")
      case True
      with Some held pend fs(4) show ?thesis unfolding content_def by (simp add: same M)
    next
      case False
      with Some fs(4) obtain lost where "lk_in L = held q L @ pend q L @ lost" by (auto simp: content_def)
      with held have "\<exists>l. lk_in L = (held q M @ pend q M) @ l" by (metis append.assoc)
      with Some False show ?thesis by (simp add: content_def same M)
    qed
  qed
  have e: "ending i r q M es" using fs(5) M(1,4) by (rule ending_b) (use same eof in \<open>simp_all del: concat_eq_Nil_conv\<close>)
  show ?thesis by (rule link_okI [OF inv M(1) b _ fs(2,3) c e]) (use fs(1) M(2) in simp_all)
qed

lemma pushSelect_cases:
  assumes "pushSelect pick x p b = Some b'"
  obtains "b' = b" and "eofCh (strm b x) \<or> s_done b" | "b' = upd x (\<lambda>st. st\<lparr>chunks := chunks st @ [p]\<rparr>) b" and "length (chunks (strm b x)) < chunksCap"
proof (cases "length (chunks (strm b x)) < chunksCap \<and> \<not> ((eofCh (strm b x) \<or> s_done b) \<and> pick)")
  case True
  then have "pushSelect pick x p b = Some (upd x (\<lambda>st. st\<lparr>chunks := chunks st @ [p]\<rparr>) b)" unfolding pushSelect_def Let_def by (rule if_P)
  with True assms that(2) show ?thesis by simp
next
  case False
  with assms that(1) show ?thesis by (simp add: pushSelect_def Let_def split: if_splits)
qed

lemma pushSelect_ok:
  assumes "sess_ok b" and "x < length (s_heap b)" and "pushSelect pick x p b = Some b'"
  shows "sess_ok b'"
  using assms sess_okD_stream [OF assms(1,2)] sess_ok_aborted [OF assms(1,2)]
  by (auto simp: pushSelect_def Let_def stream_step_def stream_ok_def split: if_splits intro!: upd_ok)

lemma recv_resume_ok:
  assumes inv: "link_ok i r q L" and wait: "lk_wait L = Some (x, p)" and push: "pushSelect pick x p (lk_b L) = Some b'"
  shows "link_ok i r q (L\<lparr>lk_b := (markRecv now b')\<lparr>s_stalled := False\<rparr>, lk_wait := None\<rparr>)" (is "link_ok i r q ?M")
proof -
  let ?c = "(markRecv now b')\<lparr>s_stalled := False\<rparr>"
  note rd = link_ok_parts(5) [OF inv] and x = link_ok_parts(6) [OF inv wait]
  have ok: "sess_ok (lk_b L)" "q < length (s_heap (lk_b L))" using rd by (simp_all add: reader_ok_def)
  have st: "strm ?c y = strm b' y" for y by (simp add: strm_def markRecv_def)
  have b': "sess_ok b'" using ok(1) x push by (rule pushSelect_ok)
  have q: "strm b' q = strm (lk_b L) q \<and> (x = q \<longrightarrow> readErr (strm (lk_b L) q) \<noteq> None) \<or>
      x = q \<and> strm b' q = (strm (lk_b L) q)\<lparr>chunks := chunks (strm (lk_b L) q) @ [p]\<rparr>"
    and same: "s_streams b' = s_streams (lk_b L)" "length (s_heap b') = length (s_heap (lk_b L))"
    using push
  proof (atomize (full), cases rule: pushSelect_cases)
    case 1
    have "readDone (strm (lk_b L) q)" if "x = q"
    proof (rule ccontr)
      assume n: "\<not> readDone (strm (lk_b L) q)"
      then have "getStream i (lk_b L) = Some q" using rd by (auto simp: reader_ok_def st_over_def)
      from getStream_live [OF ok(1) this n] 1(2) that show False by simp
    qed
    with 1 reader_readErr [OF rd] show "(strm b' q = strm (lk_b L) q \<and> (x = q \<longrightarrow> readErr (strm (lk_b L) q) \<noteq> None) \<or>
        x = q \<and> strm b' q = (strm (lk_b L) q)\<lparr>chunks := chunks (strm (lk_b L) q) @ [p]\<rparr>) \<and>
      s_streams b' = s_streams (lk_b L) \<and> length (s_heap b') = length (s_heap (lk_b L))" by auto
  next
    case 2
    with x ok(2) show "(strm b' q = strm (lk_b L) q \<and> (x = q \<longrightarrow> readErr (strm (lk_b L) q) \<noteq> None) \<or>
        x = q \<and> strm b' q = (strm (lk_b L) q)\<lparr>chunks := chunks (strm (lk_b L) q) @ [p]\<rparr>) \<and>
      s_streams b' = s_streams (lk_b L) \<and> length (s_heap b') = length (s_heap (lk_b L))" by auto
  qed
  have c: "s_streams ?c = s_streams (lk_b L)" "length (s_heap ?c) = length (s_heap (lk_b L))" "sess_ok ?c"
    using same b' by (simp_all add: markRecv_def)
  have "st_id (strm b' q) = st_id (strm (lk_b L) q)" "st_over (strm b' q) = st_over (strm (lk_b L) q)" using q by (auto simp: st_over_def)
  then have rd': "reader_ok i q ?c"
    using c rd by (intro reader_keep [OF rd]) (simp_all add: st reader_ok_def getStream_def)
  from inv obtain ps where "content q L ps" by (rule link_okE)
  then have noeof: "readErr (strm (lk_b L) q) = Some EOF \<longrightarrow> pend q L = []" by (auto simp: content_def)
  have eof: "lk_eof L \<Longrightarrow> readErr (strm (lk_b L) q) = Some EOF \<and> cur (strm (lk_b L) q) = [] \<and> concat (chunks (strm (lk_b L) q)) = []"
    using inv by (rule link_okE) (rule ending_eof)
  show ?thesis
    by (rule link_read_ok [OF inv])
       (use rd' q noeof eof in \<open>auto simp: st held_def pend_def wait\<close>)
qed

lemma recv_read_ok:
  assumes inv: "link_ok i r q L" and r: "Read n q (lk_b L) = (res, b')"
  shows "link_ok i r q (L\<lparr>lk_b := b', lk_out := lk_out L @ (case res of RData d \<Rightarrow> d | _ \<Rightarrow> []), lk_eof := lk_eof L \<or> res = RErr EOF\<rparr>)"
    (is "link_ok i r q ?M")
proof -
  note rd = link_ok_parts(5) [OF inv]
  have ok: "sess_ok (lk_b L)" "q < length (s_heap (lk_b L))" "st_id (strm (lk_b L) q) = i" using rd by (simp_all add: reader_ok_def)
  obtain st' where s: "stRead n (s_done (lk_b L)) (strm (lk_b L) q) = (res, st')" and b': "b' = upd q (\<lambda>_. st') (lk_b L)"
    using r by (auto simp: Read_def split: prod.splits)
  note rest = stRead_rest [OF s]
  have "strm b' q = st'" using ok(2) by (simp add: b')
  moreover have "readErr st' = readErr (strm (lk_b L) q)" "readDone st' = readDone (strm (lk_b L) q)" "st_id st' = i"
    by (subst conjunct1 [OF stRead_flags [OF s]], simp add: ok(3))+
  ultimately have st: "strm b' q = st'" "readErr st' = readErr (strm (lk_b L) q)" "readDone st' = readDone (strm (lk_b L) q)" "st_id st' = i" .
  have okb: "sess_ok b'" using Read_ok [OF ok(1,2), of n] r by simp
  have "st_over st' = st_over (strm (lk_b L) q)" by (subst conjunct1 [OF stRead_flags [OF s]]) (simp add: st_over_def)
  then have rd': "reader_ok i q b'"
    by (intro reader_keep [OF rd okb]) (use ok st in \<open>simp_all add: b' getStream_def\<close>)
  have eof: "readErr (strm (lk_b L) q) = Some EOF" if "res = RErr EOF"
    using stRead_end [OF s] that reader_readErr [OF rd] by (auto simp: readEnd_def split: if_splits option.splits)
  have empty: "cur st' @ concat (chunks st') = []" if "lk_eof L \<or> res = RErr EOF"
  proof (cases "lk_eof L")
    case True
    from inv have "cur (strm (lk_b L) q) = [] \<and> concat (chunks (strm (lk_b L) q)) = []"
      by (rule link_okE) (use ending_eof True in blast)
    with rest show ?thesis by (auto split: read_res.splits)
  next
    case False
    with that have res: "res = RErr EOF" by simp
    then have "cur (strm (lk_b L) q) @ concat (chunks (strm (lk_b L) q)) = []" using stRead_end [OF s] by blast
    with rest show ?thesis unfolding res by simp
  qed
  have eofL: "lk_eof L \<Longrightarrow> readErr (strm (lk_b L) q) = Some EOF"
    using inv by (rule link_okE) (use ending_eof in blast)
  have len: "length (s_heap b') = length (s_heap (lk_b L))" by (simp add: b')
  show ?thesis
    by (rule link_read_ok [OF inv])
       (use rd' rest empty eof eofL link_ok_parts(6) [OF inv] in \<open>auto simp: st len held_def pend_def simp del: concat_eq_Nil_conv\<close>)
qed

lemma lk_recv_ok:
  assumes "lk_recv q L M" and inv: "link_ok i r q L"
  shows "link_ok i r q M"
  using assms(1)
proof cases
  case (recv_frame f rd now pick b')
  then show ?thesis using recv_frame_ok [OF inv] by blast
next
  case (recv_block t j p rd now pick b' x)
  then show ?thesis using recv_block_ok [OF inv] by blast
next
  case (recv_resume x p pick b' now)
  then show ?thesis using recv_resume_ok [OF inv] by blast
next
  case (recv_read n res b')
  then show ?thesis using recv_read_ok [OF inv] by blast
next
  case (recv_other x n)
  note rd = link_ok_parts(5) [OF inv]
  have ok: "sess_ok (lk_b L)" "q < length (s_heap (lk_b L))" using rd by (simp_all add: reader_ok_def)
  obtain res st' where "stRead n (s_done (lk_b L)) (strm (lk_b L) x) = (res, st')" by fastforce
  then have b': "snd (Read n x (lk_b L)) = upd x (\<lambda>_. st') (lk_b L)" by (simp add: Read_def)
  have "untouched i q (lk_b L) (upd x (\<lambda>_. st') (lk_b L))"
    by (rule untouched_other [OF ok(2) recv_other(2)]) (simp_all add: getStream_def)
  with untouched_reader [OF rd Read_ok [OF ok(1) recv_other(3), of n]] b'
  have "reader_ok i q (snd (Read n x (lk_b L))) \<and> fades (strm (lk_b L) q) (strm (snd (Read n x (lk_b L))) q)" by simp
  then show ?thesis using link_b [OF inv, of "snd (Read n x (lk_b L))" _ "lk_alive L"] b' recv_other(1) by simp
qed

lemma own_step:
  assumes inv: "link_ok i r q L" and op: "mux_op (lk_b L) b'" and rd: "reader_ok i q b' \<and> fades (strm (lk_b L) q) (strm b' q)"
  shows "link_ok i r q (L\<lparr>lk_b := b', lk_alive := al\<rparr>)"
proof (rule link_b [OF inv])
  have "sess_ok (lk_b L)" using link_ok_parts(5) [OF inv] by (simp add: reader_ok_def)
  then show "x < length (s_heap b')" if "x < length (s_heap (lk_b L))" for x using op_grown [OF op _ that] by (simp add: along_def)
qed (use rd in simp_all)

lemma lk_step_ok:
  assumes "lk_step i r q L M" and inv: "link_ok i r q L"
  shows "link_ok i r q M"
proof -
  note rd = link_ok_parts(5) [OF inv]
  have ok: "sess_ok (lk_b L)" "q < length (s_heap (lk_b L))" "st_id (strm (lk_b L) q) = i" using rd by (simp_all add: reader_ok_def)
  from assms(1) show ?thesis
  proof cases
    case step_send
    then show ?thesis using inv by (rule lk_send_ok)
  next
    case step_recv
    then show ?thesis using inv by (rule lk_recv_ok)
  next
    case (step_call b')
    have op: "mux_op (lk_b L) b'" using step_call(2) by (rule call_op)
    show ?thesis
      using own_step [OF inv op untouched_reader [OF rd mux_op_ok [OF op ok(1)] call_untouched [OF step_call(2) ok]], of "lk_alive L"]
      by (simp add: step_call(1))
  next
    case (step_write d)
    have op: "mux_op (lk_b L) (snd (Write q d (lk_b L)))" using ok(2) by (rule mux_op.op_write)
    have "untouched i q (lk_b L) (snd (Write q d (lk_b L)))"
      using conn_only_frame(1,2) [OF Write_conn_only [of "lk_b L" q d]] ok(2) by (intro untouched_same getStream_streams(1)) simp_all
    then show ?thesis using own_step [OF inv op untouched_reader [OF rd mux_op_ok [OF op ok(1)]], of "lk_alive L"] by (simp add: step_write)
  next
    case step_close
    then show ?thesis using own_step [OF inv mux_op.op_closeWrite [OF ok(2)] CloseWrite_reader [OF rd], of "lk_alive L"] by simp
  next
    case step_abort
    then show ?thesis using own_step [OF inv mux_op.op_abort [OF ok(2)] Abort_reader [OF rd], of "lk_alive L"] by simp
  next
    case (step_lost e)
    have op: "mux_op (lk_b L) (snd (finishRun e (lk_b L)))" by (rule mux_op.op_finish)
    have "untouched i q (lk_b L) (snd (finishRun e (lk_b L)))" using untouched_closing [OF ok(1,2)] by blast
    then show ?thesis using own_step [OF inv op untouched_reader [OF rd mux_op_ok [OF op ok(1)]], of False] by (simp add: step_lost)
  qed
qed

interpretation link: invariant_system "link_init i r q" "lk_step i r q" "link_ok i r q"
  by unfold_locales (blast intro: link_init_ok lk_step_ok)+

text \<open>A stream's flags only move one way, on both sides.\<close>

lemma st_grow_trans: "st_grow x y \<Longrightarrow> st_grow y z \<Longrightarrow> st_grow x z"
  by (auto simp: st_grow_def)

lemma along_grow_trans: "along st_grow x s t \<Longrightarrow> along st_grow x t u \<Longrightarrow> along st_grow x s u"
  by (auto simp: along_def intro: st_grow_trans)

lemma send_grown:
  assumes "lk_send i r L M" and ok: "sess_ok (lk_a L)" "r < length (s_heap (lk_a L))"
  shows "along st_grow r (lk_a L) (lk_a M) \<and> lk_b M = lk_b L"
proof -
  note g = op_grown [OF _ ok]
  from assms(1) show ?thesis
  proof cases
    case (send_write d n e a')
    with g [OF mux_op.op_write [OF ok(2), of d]] show ?thesis by (simp add: sends_def)
  next
    case (send_call a')
    with g [OF call_op] show ?thesis by (simp add: sends_def)
  next
    case (send_frame now pick f a')
    then have "mux_op (lk_a L) a'" using mux_op.op_frame mux_op.op_stall by blast
    with g send_frame show ?thesis by (simp add: sends_def)
  qed (use g [OF mux_op.op_closeWrite [OF ok(2)]] g [OF mux_op.op_abort [OF ok(2)]] g [OF mux_op.op_read [OF ok(2)]] g [OF mux_op.op_bytes]
      in \<open>simp_all add: sends_def\<close>)
qed

lemma recv_grown:
  assumes "lk_recv q L M" and inv: "link_ok i r q L"
  shows "along st_grow q (lk_b L) (lk_b M) \<and> lk_a M = lk_a L"
proof -
  have ok: "sess_ok (lk_b L)" "q < length (s_heap (lk_b L))" using link_ok_parts(5) [OF inv] by (simp_all add: reader_ok_def)
  have frame: "along st_grow q (lk_b L) b'"
    if "dispatch now pick f (liveRead now n (lk_b L)) = Next b' \<or> dispatch now pick f (liveRead now n (lk_b L)) = Block b'" for now pick f n b'
  proof (rule along_grow_trans)
    show g: "along st_grow q (lk_b L) (liveRead now n (lk_b L))" by (rule op_grown [OF mux_op.op_bytes ok])
    show "along st_grow q (liveRead now n (lk_b L)) b'"
      using dispatch_grown [OF mux_op_ok [OF mux_op.op_bytes ok(1)] _ that] g by (simp add: along_def)
  qed
  from assms(1) show ?thesis
  proof cases
    case (recv_resume x p pick b' now)
    have "along st_grow q (lk_b L) (upd x (\<lambda>st. st\<lparr>chunks := chunks st @ [p]\<rparr>) (lk_b L))"
      by (rule grown_upd [OF ok(2) link_ok_parts(6) [OF inv recv_resume(3)] _ refl]) (simp add: st_grow_def)
    with recv_resume(4) grown_same [OF ok(2) refl] have "along st_grow q (lk_b L) b'" by (auto elim: pushSelect_cases)
    with recv_resume(1) show ?thesis by (simp add: along_def strm_def markRecv_def)
  next
    case (recv_read n res b')
    with op_grown [OF mux_op.op_read [OF ok(2), of n] ok] show ?thesis by simp
  next
    case (recv_other x n)
    with op_grown [OF mux_op.op_read [of x, where n = n] ok] show ?thesis by simp
  next
    case (recv_frame f rd now pick b')
    with frame [OF disjI1 [OF recv_frame(5)]] show ?thesis by simp
  next
    case (recv_block t j p rd now pick b' x)
    with frame [OF disjI2 [OF recv_block(5)]] show ?thesis by simp
  qed
qed

lemma lk_step_grown:
  assumes "lk_step i r q L M" and inv: "link_ok i r q L"
  shows "along st_grow r (lk_a L) (lk_a M) \<and> along st_grow q (lk_b L) (lk_b M)"
proof -
  have ok: "sess_ok (lk_b L)" "q < length (s_heap (lk_b L))" using link_ok_parts(5) [OF inv] by (simp_all add: reader_ok_def)
  note a = link_ok_parts(1,3) [OF inv] and g = op_grown [OF _ ok]
  have same: "along st_grow r (lk_a L) (lk_a L)" "along st_grow q (lk_b L) (lk_b L)" using a ok by (simp_all add: along_def)
  from assms(1) show ?thesis
  proof cases
    case step_send
    with send_grown [OF _ a] same show ?thesis by simp
  next
    case step_recv
    with recv_grown [OF _ inv] same show ?thesis by simp
  next
    case (step_call b')
    with g [OF call_op] same show ?thesis by simp
  qed (use same g [OF mux_op.op_write [OF ok(2)]] g [OF mux_op.op_closeWrite [OF ok(2)]] g [OF mux_op.op_abort [OF ok(2)]] g [OF mux_op.op_finish]
      in simp_all)
qed

section \<open>Draining\<close>

text \<open>The steps of the reading side alone, from a state in which nothing went wrong: they bring every frame in flight to its stream.\<close>

definition clean :: "nat \<Rightarrow> link \<Rightarrow> bool" where
  "clean q L \<longleftrightarrow> readErr (strm (lk_b L) q) = None \<or> readErr (strm (lk_b L) q) = Some EOF"

definition drains :: "u32 \<Rightarrow> nat \<Rightarrow> nat \<Rightarrow> link \<Rightarrow> bool" where
  "drains i r q L \<longleftrightarrow> link_ok i r q L \<and> lk_alive L \<and> \<not> rst (strm (lk_a L) r) \<and> clean q L"

lemma lk_recv_same: "lk_recv q L M \<Longrightarrow> lk_a M = lk_a L \<and> lk_in M = lk_in L \<and> lk_fin M = lk_fin L \<and> lk_alive M = lk_alive L"
  by (induction rule: lk_recv.induct) simp_all

lemma Read_readErr:
  assumes "q < length (s_heap b)"
  shows "readErr (strm (snd (Read n x b)) q) = readErr (strm b q)"
proof (cases "x = q")
  case True
  obtain res st' where s: "stRead n (s_done b) (strm b q) = (res, st')" by fastforce
  have "readErr st' = readErr (strm b q)" by (subst conjunct1 [OF stRead_flags [OF s]]) simp
  with s True assms show ?thesis by (simp add: Read_def)
next
  case False
  then show ?thesis by (simp add: Read_def strm_def upd_def split: prod.splits)
qed

lemma recv_clean:
  assumes step: "lk_recv q L M" and d: "drains i r q L"
  shows "clean q M"
proof -
  have inv: "link_ok i r q L" and c: "clean q L" and rst: "\<not> rst (strm (lk_a L) r)" using d by (simp_all add: drains_def)
  have rd: "reader_ok i q (lk_b L)" and q: "q < length (s_heap (lk_b L))" using link_ok_parts(5) [OF inv] by (simp_all add: reader_ok_def)
  from step show ?thesis
  proof cases
    case (recv_frame f rd' now pick b')
    from inv obtain fs ps es where fs: "lk_wire L = concat (map frame_bytes fs)" "list_all known fs"
      "mine i fs = map (\<lambda>p. (FrameData, i, p)) ps @ es" "ending i r q L es" by (rule link_okE)
    from fs(1,2) recv_frame(4) obtain fs' where "fs = f # fs'" by (rule head_frame)
    with fs(3) have m: "mine i (f # fs') = map (\<lambda>p. (FrameData, i, p)) ps @ es" by simp
    note rdl = reader_liveRead [OF rd]
    from m ending_set [OF fs(4)] have "readErr (strm b' q) = readErr (strm (lk_b L) q) \<or> readErr (strm b' q) = Some EOF"
    proof (cases rule: mine_head)
      case other
      with dispatch_other [OF rdl recv_frame(5)] show ?thesis by (simp add: strm_liveRead)
    next
      case (data p ps')
      with dispatch_mine_data [OF rdl] recv_frame(5) show ?thesis by (fastforce simp: strm_liveRead)
    next
      case (close es')
      with dispatch_mine_end [OF rdl, where e = EOF] recv_frame(5) show ?thesis by (fastforce simp: strm_liveRead ended_def)
    next
      case (reset es')
      with fs(4) rst show ?thesis by (simp add: ending_def Let_def)
    qed
    with c recv_frame(1) show ?thesis by (auto simp: clean_def)
  next
    case (recv_block t j p rd' now pick b' x)
    from recv_block(5) have "b' = (liveRead now (length (lk_wire L) - length (r_bytes rd')) (lk_b L))\<lparr>s_stalled := True\<rparr>" by (rule dispatch_Block)
    then have "strm b' q = strm (lk_b L) q" by (simp add: strm_def)
    with c recv_block(1) show ?thesis by (simp add: clean_def)
  next
    case (recv_resume x p pick b' now)
    have "readErr (strm b' q) = readErr (strm (lk_b L) q)"
      using recv_resume(4) by (rule pushSelect_cases) (use link_ok_parts(6) [OF inv recv_resume(3)] q in simp_all)
    with c recv_resume(1) show ?thesis by (simp add: clean_def strm_def markRecv_def)
  next
    case (recv_read n res b')
    with c Read_readErr [OF q, of n q] show ?thesis by (simp add: clean_def)
  next
    case (recv_other x n)
    with c Read_readErr [OF q, of n x] show ?thesis by (simp add: clean_def)
  qed
qed

lemma drains_step: "lk_recv q L M \<Longrightarrow> drains i r q L \<Longrightarrow> drains i r q M"
  using recv_clean [of q L M i r] lk_recv_same [of q L M] lk_recv_ok [of q L M i r] by (simp add: drains_def)

lemma drains_steps: "(lk_recv q)\<^sup>*\<^sup>* L M \<Longrightarrow> drains i r q L \<Longrightarrow>
   drains i r q M \<and> lk_a M = lk_a L \<and> lk_in M = lk_in L \<and> lk_fin M = lk_fin L"
  by (induction rule: rtranclp_induct) (auto dest: drains_step lk_recv_same)

text \<open>The steps that move frames need less.\<close>

definition flows :: "u32 \<Rightarrow> nat \<Rightarrow> nat \<Rightarrow> link \<Rightarrow> bool" where
  "flows i r q L \<longleftrightarrow> link_ok i r q L \<and> lk_alive L"

lemma flows_steps: "(lk_recv q)\<^sup>*\<^sup>* L M \<Longrightarrow> flows i r q L \<Longrightarrow> flows i r q M"
  by (induction rule: rtranclp_induct) (auto simp: flows_def lk_recv_same intro: lk_recv_ok)

lemma drains_flows: "drains i r q L \<Longrightarrow> flows i r q L"
  by (simp add: drains_def flows_def)

lemma any_read:
  assumes "x < length (s_heap (lk_b L))" and "0 < n"
  obtains M where "lk_recv q L M" and "lk_b M = snd (Read n x (lk_b L))" and "lk_wait M = lk_wait L" and "lk_wire M = lk_wire L"
proof (cases "x = q")
  case True
  obtain res b' where "Read n q (lk_b L) = (res, b')" by fastforce
  from recv_read [OF assms(2) this] \<open>Read n q (lk_b L) = (res, b')\<close> that True show ?thesis by simp
next
  case False
  from recv_other [OF False assms(1), of n] that show ?thesis by simp
qed

lemma Read_strm: "x < length (s_heap b) \<Longrightarrow> strm (snd (Read n x b)) x = snd (stRead n (s_done b) (strm b x))"
  by (simp add: Read_def split: prod.splits)

text \<open>Reading a stream with a full buffer makes room in it, after at most two calls.\<close>

lemma make_room:
  assumes ok: "sess_ok (lk_b L)" and x: "x < length (s_heap (lk_b L))"
  obtains M where "(lk_recv q)\<^sup>*\<^sup>* L M" and "lk_wait M = lk_wait L" and "lk_wire M = lk_wire L" and "length (chunks (strm (lk_b M) x)) < chunksCap"
proof (cases "length (chunks (strm (lk_b L) x)) < chunksCap")
  case True
  then show ?thesis using that [of L] by simp
next
  case full: False
  have cap: "length (chunks (strm (lk_b L) x)) = chunksCap" using sess_okD_stream [OF ok x] full by (simp add: stream_ok_def)
  have "\<exists>K. (lk_recv q)\<^sup>*\<^sup>* L K \<and> lk_wait K = lk_wait L \<and> lk_wire K = lk_wire L \<and> x < length (s_heap (lk_b K)) \<and>
      chunks (strm (lk_b K) x) = chunks (strm (lk_b L) x) \<and> cur (strm (lk_b K) x) = []"
  proof (cases "cur (strm (lk_b L) x) = []")
    case True
    with x show ?thesis by (intro exI [of _ L]) simp
  next
    case False
    let ?n = "length (cur (strm (lk_b L) x))"
    from False have n: "0 < ?n" by simp
    from any_read [OF x n] obtain K where K: "lk_recv q L K" "lk_b K = snd (Read ?n x (lk_b L))" "lk_wait K = lk_wait L" "lk_wire K = lk_wire L" .
    have "strm (lk_b K) x = (strm (lk_b L) x)\<lparr>cur := []\<rparr>"
      using False x by (simp add: K(2) Read_strm stRead.simps [of ?n])
    moreover have "length (s_heap (lk_b K)) = length (s_heap (lk_b L))" by (simp add: K(2) Read_def split: prod.splits)
    ultimately show ?thesis using K x by (intro exI [of _ K]) auto
  qed
  then obtain K where K: "(lk_recv q)\<^sup>*\<^sup>* L K" "lk_wait K = lk_wait L" "lk_wire K = lk_wire L" "x < length (s_heap (lk_b K))"
    "chunks (strm (lk_b K) x) = chunks (strm (lk_b L) x)" "cur (strm (lk_b K) x) = []" by blast
  from any_read [OF K(4), of 1] obtain M where M: "lk_recv q K M" "lk_b M = snd (Read 1 x (lk_b K))" "lk_wait M = lk_wait K" "lk_wire M = lk_wire K"
    by auto
  have "chunks (strm (lk_b K) x) \<noteq> []" using K(5) cap by (auto simp: chunksCap_def)
  from stRead_frees [OF K(6) this] have "length (chunks (strm (lk_b M) x)) < chunksCap"
    using cap K(4,5) by (simp add: M(2) Read_strm) (metis prod.collapse)
  with K(1-3) M that show ?thesis by (metis rtranclp.rtrancl_into_rtrancl)
qed

lemma unblock:
  assumes d: "flows i r q L"
  obtains M where "(lk_recv q)\<^sup>*\<^sup>* L M" and "lk_wait M = None" and "lk_wire M = lk_wire L"
proof (cases "lk_wait L")
  case None
  then show ?thesis using that [of L] by simp
next
  case (Some w)
  obtain x p where w: "w = (x, p)" by (cases w)
  have inv: "link_ok i r q L" using d by (simp add: flows_def)
  have ok: "sess_ok (lk_b L)" using link_ok_parts(5) [OF inv] by (simp add: reader_ok_def)
  from make_room [OF ok link_ok_parts(6) [OF inv Some [unfolded w]]] obtain K where K: "(lk_recv q)\<^sup>*\<^sup>* L K" "lk_wait K = lk_wait L"
    "lk_wire K = lk_wire L" "length (chunks (strm (lk_b K) x)) < chunksCap" by blast
  have "lk_alive K" using flows_steps [OF K(1) d] by (simp add: flows_def)
  moreover have "pushSelect False x p (lk_b K) = Some (upd x (\<lambda>st. st\<lparr>chunks := chunks st @ [p]\<rparr>) (lk_b K))"
    using K(4) by (simp add: pushSelect_def Let_def)
  ultimately have "\<exists>M. lk_recv q K M \<and> lk_wait M = None \<and> lk_wire M = lk_wire K"
    using recv_resume [where L = K and x = x and p = p and pick = False] K(2) Some w by fastforce
  with K that show ?thesis by (metis rtranclp.rtrancl_into_rtrancl)
qed

lemma dispatch_known:
  assumes "known f"
  obtains t where "dispatch now pick f s = Next t" | t where "dispatch now pick f s = Block t"
proof -
  obtain t i p where f: "f = (t, i, p)" by (cases f)
  have "t = FrameOpen \<or> t = FrameData \<or> t = FramePing \<or> t = FramePong \<or> t = FrameClose \<or> t = FrameReset" using assms by (auto simp: known_def f)
  then have "\<exists>u. dispatch now pick f s = Next u \<or> dispatch now pick f s = Block u"
    by (elim disjE) (auto simp: f dispatch_data dispatch_close dispatch_reset dispatch_ping_pong dispatch_def alloc_def Let_def split: option.splits)
  with that show ?thesis by blast
qed

lemma next_frame:
  assumes d: "flows i r q L" and wait: "lk_wait L = None" and wire: "lk_wire L = concat (map frame_bytes (f # fs))" and k: "known f"
  obtains M where "lk_recv q L M" and "lk_wire M = concat (map frame_bytes fs)"
proof -
  obtain t j p where f: "f = (t, j, p)" by (cases f)
  let ?rd = "\<lparr>r_bytes = concat (map frame_bytes fs), r_end = EOF\<rparr>"
  let ?n = "length (lk_wire L) - length (r_bytes ?rd)"
  have rf: "readFrame \<lparr>r_bytes = lk_wire L, r_end = EOF\<rparr> = (Inr f, ?rd)"
    using readFrame_frame_bytes [of p "\<lparr>r_bytes = lk_wire L, r_end = EOF\<rparr>" t j "concat (map frame_bytes fs)"] wire k
    by (simp add: f known_def frame_ok_def)
  have alive: "lk_alive L" using d by (simp add: flows_def)
  from k show ?thesis
  proof (rule dispatch_known [where s = "liveRead 0 ?n (lk_b L)" and now = 0 and pick = False])
    fix b' assume "dispatch 0 False f (liveRead 0 ?n (lk_b L)) = Next b'"
    from recv_frame [OF alive wait rf this] show ?thesis by (rule that) simp
  next
    fix b' assume b: "dispatch 0 False f (liveRead 0 ?n (lk_b L)) = Block b'"
    then obtain x where x: "getStream j (lk_b L) = Some x" by (rule dispatch_Block) (auto simp: f getStream_def)
    from recv_block [OF alive wait rf [unfolded f] b [unfolded f] x] show ?thesis by (rule that) simp
  qed
qed

lemma drain_wire:
  assumes "flows i r q L" and "lk_wire L = concat (map frame_bytes (fs @ gs))" and "list_all known fs"
  shows "\<exists>M. (lk_recv q)\<^sup>*\<^sup>* L M \<and> lk_wire M = concat (map frame_bytes gs) \<and> lk_wait M = None"
  using assms
proof (induction fs arbitrary: L)
  case Nil
  from unblock [OF Nil.prems(1)] obtain M where "(lk_recv q)\<^sup>*\<^sup>* L M" "lk_wait M = None" "lk_wire M = lk_wire L" .
  with Nil.prems(2) show ?case by auto
next
  case (Cons f fs)
  from unblock [OF Cons.prems(1)] obtain K where K: "(lk_recv q)\<^sup>*\<^sup>* L K" "lk_wait K = None" "lk_wire K = lk_wire L" .
  have "flows i r q K" using flows_steps [OF K(1) Cons.prems(1)] .
  from next_frame [OF this K(2), of f "fs @ gs"] K(3) Cons.prems(2,3) obtain K' where K': "lk_recv q K K'" "lk_wire K' = concat (map frame_bytes (fs @ gs))"
    by auto
  have all: "(lk_recv q)\<^sup>*\<^sup>* L K'" using K(1) K'(1) by (rule rtranclp.rtrancl_into_rtrancl)
  from Cons.IH [OF flows_steps [OF all Cons.prems(1)] K'(2)] Cons.prems(3) obtain M where
    "(lk_recv q)\<^sup>*\<^sup>* K' M" "lk_wire M = concat (map frame_bytes gs) \<and> lk_wait M = None" by auto
  with all show ?case by (metis rtranclp_trans)
qed

text \<open>Once the end of the stream has arrived, reading until \<^verbatim>\<open>io.EOF\<close> gives all that is buffered.\<close>

lemma drain_buffer:
  assumes "drains i r q L" and "readErr (strm (lk_b L) q) = Some EOF"
  shows "\<exists>M. (lk_recv q)\<^sup>*\<^sup>* L M \<and> lk_eof M"
  using assms
proof (induction "length (cur (strm (lk_b L) q) @ concat (chunks (strm (lk_b L) q)))" arbitrary: L rule: less_induct)
  case less
  have inv: "link_ok i r q L" using less.prems(1) by (simp add: drains_def)
  have rd: "reader_ok i q (lk_b L)" using link_ok_parts(5) [OF inv] .
  have q: "q < length (s_heap (lk_b L))" using rd by (simp add: reader_ok_def)
  obtain res st' where s: "stRead 1 (s_done (lk_b L)) (strm (lk_b L) q) = (res, st')" by fastforce
  then have r: "Read 1 q (lk_b L) = (res, upd q (\<lambda>_. st') (lk_b L))" by (simp add: Read_def)
  obtain K where K: "lk_recv q L K" "lk_b K = upd q (\<lambda>_. st') (lk_b L)" "lk_eof K = (lk_eof L \<or> res = RErr EOF)"
    using recv_read [where n = 1, OF _ r] by fastforce
  show ?case
  proof (cases "\<exists>b. res = RData b")
    case True
    then obtain b where b: "res = RData b" ..
    from stRead_data [OF s [unfolded b]] have "b \<noteq> []" "b @ cur st' @ concat (chunks st') = cur (strm (lk_b L) q) @ concat (chunks (strm (lk_b L) q))" by simp_all
    then have "length (cur st' @ concat (chunks st')) < length (cur (strm (lk_b L) q) @ concat (chunks (strm (lk_b L) q)))"
      by (metis length_append length_greater_0_conv less_add_same_cancel2)
    moreover have st: "strm (lk_b K) q = st'" using q by (simp add: K(2))
    moreover have "readErr st' = Some EOF" using less.prems(2) by (subst conjunct1 [OF stRead_flags [OF s]]) simp
    ultimately obtain M where "(lk_recv q)\<^sup>*\<^sup>* K M" "lk_eof M" using less.hyps [of K] drains_step [OF K(1) less.prems(1)] by auto
    with K(1) show ?thesis by (meson converse_rtranclp_into_rtranclp)
  next
    case False
    then have "res = RErr (readEnd (strm (lk_b L) q))" using stRead_end [OF s] reader_readErr [OF rd] less.prems(2) by auto
    then have "lk_eof K" using less.prems(2) by (simp add: K(3) readEnd_def)
    with K(1) show ?thesis by blast
  qed
qed

lemma drain:
  assumes d: "drains i r q L" and fin: "lk_fin L" "\<not> w_closed (s_conn (lk_a L))"
  shows "\<exists>M. (lk_recv q)\<^sup>*\<^sup>* L M \<and> lk_eof M"
proof -
  have inv: "link_ok i r q L" using d by (simp add: drains_def)
  from inv obtain fs where "lk_wire L = concat (map frame_bytes fs)" "list_all known fs" by (rule link_okE)
  from drain_wire [OF drains_flows [OF d], of fs "[]"] this obtain K where K: "(lk_recv q)\<^sup>*\<^sup>* L K" "lk_wire K = []" by auto
  from drains_steps [OF K(1) d] fin have dK: "drains i r q K" and finK: "lk_fin K" "\<not> w_closed (s_conn (lk_a K))" by simp_all
  have inv': "link_ok i r q K" using dK by (simp add: drains_def)
  then obtain fs ps es where fs: "lk_wire K = concat (map frame_bytes fs)" "mine i fs = map (\<lambda>p. (FrameData, i, p)) ps @ es" "ending i r q K es"
    by (rule link_okE)
  have "fs = []" using fs(1) K(2) by (cases fs) (auto simp: frame_bytes_def putHeader_def)
  with fs(2) have "es = []" by simp
  with fs(3) finK dK have "readDone (strm (lk_b K) q)" by (simp add: ending_def Let_def drains_def)
  then have "readErr (strm (lk_b K) q) = Some EOF" using dK reader_readErr [OF link_ok_parts(5) [OF inv']] by (auto simp: drains_def clean_def)
  from drain_buffer [OF dK this] K(1) show ?thesis by (meson rtranclp_trans)
qed

lemma eof_complete:
  assumes inv: "link_ok i r q L" and "lk_eof L"
  shows "lk_fin L \<and> lk_out L = lk_in L"
proof -
  from inv obtain ps es where c: "content q L ps" "ending i r q L es" by (rule link_okE)
  from ending_eof [OF c(2) assms(2)] c show ?thesis by (simp add: content_def held_def ending_def Let_def)
qed

text \<open>A run: the server writes two bytes on stream 1 and closes it.\<close>

definition demo_link :: link where
  "demo_link = \<lparr>lk_a = demo_server, lk_b = demo_client, lk_wire = [], lk_wait = None, lk_alive = True, lk_in = [], lk_fin = False, lk_out = [], lk_eof = False\<rparr>"

lemma demo_link_run:
  obtains L where "reach (link_init 1 0 0) (lk_step 1 0 0) L" and "lk_alive L" and "lk_fin L" and "\<not> w_closed (s_conn (lk_a L))"
    and "\<not> rst (strm (lk_a L) 0)" and "readErr (strm (lk_b L) 0) = None" and "lk_in L = [104, 105]" and "\<not> readDone (strm (lk_a L) 0)"
proof -
  have "link_init 1 0 0 demo_link" by (simp add: link_init_def demo_link_def exI [of _ "[]"])
  then have 0: "reach (link_init 1 0 0) (lk_step 1 0 0) demo_link" by (rule reach.intros)
  let ?L1 = "(sends (snd (Write 0 [104, 105] demo_server)) demo_link)\<lparr>lk_in := [104, 105]\<rparr>"
  have "lk_send 1 0 demo_link ?L1"
    using send_write [of 0 "[104, 105]" demo_link 2 None "snd (Write 0 [104, 105] demo_server)" 1] by (simp add: demo_link_def demo_write)
  from reach.reach_step [OF 0 step_send [OF this]] have 1: "reach (link_init 1 0 0) (lk_step 1 0 0) ?L1" .
  let ?L2 = "(sends (snd (CloseWrite 0 (lk_a ?L1))) ?L1)\<lparr>lk_fin := True\<rparr>"
  have "reach (link_init 1 0 0) (lk_step 1 0 0) ?L2" by (rule reach.reach_step [OF 1 step_send [OF send_close]])
  then show ?thesis
    by (rule that) (simp_all add: sends_def demo_link_def demo_write demo_closeWrite strm_def newStream_def, simp add: demo_client_eq newStream_def)
qed

lemma reach_recv: "(lk_recv q)\<^sup>*\<^sup>* L M \<Longrightarrow> reach (link_init i r q) (lk_step i r q) L \<Longrightarrow> reach (link_init i r q) (lk_step i r q) M"
  by (induction rule: rtranclp_induct) (blast intro: reach.reach_step step_recv)+

section \<open>Properties\<close>

text \<open>
  Property C1. A stream is a FIFO of bytes. In every run of the two sessions - any interleaving of writes, reads, frames of this and other streams in
  both directions, full buffers, heartbeats, half-closes, aborts, the end of either session, loss of the connection - what \<^verbatim>\<open>Read\<close> has returned is a prefix of what \<^verbatim>\<open>Write\<close>
  has taken, and when \<^verbatim>\<open>Read\<close> has returned \<^verbatim>\<open>io.EOF\<close>, the writer has called \<^verbatim>\<open>CloseWrite\<close> and the reader has got everything: nothing is lost, repeated, reordered
  or mixed with another stream, and a stream that was cut off never looks finished.
\<close>

theorem stream_fifo:
  assumes "reach (link_init i r q) (lk_step i r q) L"
  shows "(\<exists>rest. lk_in L = lk_out L @ rest) \<and> (lk_eof L \<longrightarrow> lk_fin L \<and> lk_out L = lk_in L)"
proof -
  have inv: "link_ok i r q L" using assms by (rule link.reach_inv)
  then obtain ps where "content q L ps" by (rule link_okE)
  then have "\<exists>rest. lk_in L = lk_out L @ rest" by (auto simp: content_def held_def split: option.splits if_splits)
  with eof_complete [OF inv] show ?thesis by blast
qed

theorem stream_fifo_witness:
  "\<exists>M. reach (link_init 1 0 0) (lk_step 1 0 0) M \<and> lk_eof M \<and> lk_fin M \<and> lk_out M = [104, 105]"
proof -
  obtain L where L: "reach (link_init 1 0 0) (lk_step 1 0 0) L" "lk_alive L" "lk_fin L" "\<not> w_closed (s_conn (lk_a L))"
    "\<not> rst (strm (lk_a L) 0)" "readErr (strm (lk_b L) 0) = None" "lk_in L = [104, 105]" by (rule demo_link_run)
  have d: "drains 1 0 0 L" using link.reach_inv [OF L(1)] L by (simp add: drains_def clean_def)
  from drain [OF d L(3,4)] obtain M where M: "(lk_recv 0)\<^sup>*\<^sup>* L M" "lk_eof M" by blast
  have r: "reach (link_init 1 0 0) (lk_step 1 0 0) M" using M(1) L(1) by (rule reach_recv)
  from stream_fifo [OF r] M(2) drains_steps [OF M(1) d] L(7) r show ?thesis by auto
qed

text \<open>
  Property C5. No deadlock on the reading side: from every reachable state in which the writer has closed its half over a working connection and neither side
  has failed or aborted the stream, the reading side alone - its read loop and the readers of its streams - can go on until the stream's reader has received
  every byte that was written and then \<^verbatim>\<open>io.EOF\<close>, whatever else is in flight and whichever full buffer its read loop waits for.
\<close>

theorem stream_delivers:
  assumes "reach (link_init i r q) (lk_step i r q) L" and "lk_alive L" and "lk_fin L" and "\<not> w_closed (s_conn (lk_a L))"
    and "\<not> rst (strm (lk_a L) r)" and "readErr (strm (lk_b L) q) = None \<or> readErr (strm (lk_b L) q) = Some EOF"
  shows "\<exists>M. (lk_recv q)\<^sup>*\<^sup>* L M \<and> lk_eof M \<and> lk_out M = lk_in L"
proof -
  have d: "drains i r q L" using link.reach_inv [OF assms(1)] assms by (simp add: drains_def clean_def)
  from drain [OF d assms(3,4)] obtain M where M: "(lk_recv q)\<^sup>*\<^sup>* L M" "lk_eof M" by blast
  from drains_steps [OF M(1) d] have "link_ok i r q M" "lk_in M = lk_in L" by (simp_all add: drains_def)
  with M eof_complete show ?thesis by metis
qed

theorem stream_delivers_witness:
  "\<exists>L M. reach (link_init 1 0 0) (lk_step 1 0 0) L \<and> (lk_recv 0)\<^sup>*\<^sup>* L M \<and> lk_eof M \<and> lk_out M = [104, 105]"
proof -
  obtain L where L: "reach (link_init 1 0 0) (lk_step 1 0 0) L" "lk_alive L" "lk_fin L" "\<not> w_closed (s_conn (lk_a L))"
    "\<not> rst (strm (lk_a L) 0)" "readErr (strm (lk_b L) 0) = None" "lk_in L = [104, 105]" by (rule demo_link_run)
  from stream_delivers [OF L(1-5) disjI1 [OF L(6)]] L(1,7) show ?thesis by auto
qed

end
