(* ===== verification/Pipe.thy ===== *)
theory Pipe
  imports Link_Fifo
begin

text \<open>
  An upgraded connection (a WebSocket): two goroutines copy between a network connection and a stream, at the server between the viewer's connection
  and the stream (the end of \<^verbatim>\<open>proxyWebSocket\<close> in \<^verbatim>\<open>internal/server/proxy.go\<close>) and at the client between the stream and the local service (the end of
  \<^verbatim>\<open>serveWebSocket\<close> in \<^verbatim>\<open>internal/client/forwarder.go\<close>). Each is \<^verbatim>\<open>io.Copy\<close> followed by closing both ends; the two programs close
  them in a different order in one of the goroutines.
\<close>

section \<open>State\<close>

text \<open>Where a copying goroutine is: reading, writing what it has read, before its first or its second call of \<^verbatim>\<open>Close\<close>, returned.\<close>

datatype copier = Copying | Holding bytes | ClosingOne | ClosingTwo | Finished

text \<open>
  \<open>pp_in\<close> is what the network connection has received and the pipe has not read, \<open>pp_ended\<close> whether nothing will follow, \<open>pp_open\<close> whether the pipe has not
  closed the connection, \<open>pp_out\<close> what it has written to it. The last three fields are history: all bytes received, those \<^verbatim>\<open>Write\<close> of the stream took, those
  its \<^verbatim>\<open>Read\<close> returned.
\<close>

record pipe =
  pp_sess :: session
  pp_in :: bytes
  pp_ended :: bool
  pp_open :: bool
  pp_out :: bytes
  pp_up :: copier
  pp_down :: copier
  pp_arrived :: bytes
  pp_sent :: bytes
  pp_got :: bytes

definition copyBuf :: nat where "copyBuf = 32 * 1024"

section \<open>The two goroutines\<close>

text \<open>
  \<^verbatim>\<open>io.Copy(st, conn)\<close>: a read gives at least one byte (\<open>k\<close>, up to the buffer's size), waits, or fails; a write takes everything or ends the
  loop.
\<close>

definition upRead :: "nat \<Rightarrow> pipe \<Rightarrow> pipe option" where
  "upRead k P =
     (if \<not> pp_open P then Some (P\<lparr>pp_up := ClosingOne\<rparr>)
      else if pp_in P \<noteq> []
      then (let n = max 1 (min k copyBuf) in Some (P\<lparr>pp_in := drop n (pp_in P), pp_up := Holding (take n (pp_in P))\<rparr>))
      else if pp_ended P then Some (P\<lparr>pp_up := ClosingOne\<rparr>)
      else None)"

definition upWrite :: "nat \<Rightarrow> bytes \<Rightarrow> pipe \<Rightarrow> pipe" where
  "upWrite st b P =
     (case Write st b (pp_sess P) of ((n, e), s) \<Rightarrow>
        P\<lparr>pp_sess := s, pp_sent := pp_sent P @ take n b, pp_up := (if e = None then Copying else ClosingOne)\<rparr>)"

text \<open>
  \<^verbatim>\<open>io.Copy(conn, st)\<close>; of a write to the connection \<open>k\<close> bytes get through, fewer than all of them with an error.
\<close>

definition downRead :: "nat \<Rightarrow> pipe \<Rightarrow> pipe option" where
  "downRead st P =
     (case Read copyBuf st (pp_sess P) of
        (RData d, s) \<Rightarrow> Some (P\<lparr>pp_sess := s, pp_got := pp_got P @ d, pp_down := Holding d\<rparr>)
      | (RErr e, s) \<Rightarrow> Some (P\<lparr>pp_sess := s, pp_down := ClosingOne\<rparr>)
      | _ \<Rightarrow> None)"

definition downWrite :: "nat \<Rightarrow> bytes \<Rightarrow> pipe \<Rightarrow> pipe" where
  "downWrite k d P =
     (if \<not> pp_open P then P\<lparr>pp_down := ClosingOne\<rparr>
      else P\<lparr>pp_out := pp_out P @ take k d, pp_down := (if length d \<le> k then Copying else ClosingOne)\<rparr>)"

text \<open>The two closes of a goroutine, the stream's first or the connection's first.\<close>

definition closeEnd :: "bool \<Rightarrow> nat \<Rightarrow> pipe \<Rightarrow> pipe" where
  "closeEnd stream st P = (if stream then P\<lparr>pp_sess := snd (stream_Close st (pp_sess P))\<rparr> else P\<lparr>pp_open := False\<rparr>)"

inductive pipe_move :: "bool \<Rightarrow> nat \<Rightarrow> pipe \<Rightarrow> pipe \<Rightarrow> bool" for connFirst st where
  up_read: "pp_up P = Copying \<Longrightarrow> upRead k P = Some Q \<Longrightarrow> pipe_move connFirst st P Q"
| up_write: "pp_up P = Holding b \<Longrightarrow> pipe_move connFirst st P (upWrite st b P)"
| up_close1: "pp_up P = ClosingOne \<Longrightarrow> pipe_move connFirst st P ((closeEnd True st P)\<lparr>pp_up := ClosingTwo\<rparr>)"
| up_close2: "pp_up P = ClosingTwo \<Longrightarrow> pipe_move connFirst st P ((closeEnd False st P)\<lparr>pp_up := Finished\<rparr>)"
| down_read: "pp_down P = Copying \<Longrightarrow> downRead st P = Some Q \<Longrightarrow> pipe_move connFirst st P Q"
| down_write: "pp_down P = Holding d \<Longrightarrow> pipe_move connFirst st P (downWrite k d P)"
| down_close1: "pp_down P = ClosingOne \<Longrightarrow> pipe_move connFirst st P ((closeEnd (\<not> connFirst) st P)\<lparr>pp_down := ClosingTwo\<rparr>)"
| down_close2: "pp_down P = ClosingTwo \<Longrightarrow> pipe_move connFirst st P ((closeEnd connFirst st P)\<lparr>pp_down := Finished\<rparr>)"

text \<open>
  What happens around the pipe: bytes and the end of the stream of the connection arrive, the session's other users and its peer go on (\<open>call\<close> and frames, as in
  \<open>Link\<close>).
\<close>

inductive pipe_env :: "u32 \<Rightarrow> pipe \<Rightarrow> pipe \<Rightarrow> bool" for i where
  env_arrive: "\<not> pp_ended P \<Longrightarrow> pipe_env i P (P\<lparr>pp_in := pp_in P @ b, pp_arrived := pp_arrived P @ b\<rparr>)"
| env_end: "pipe_env i P (P\<lparr>pp_ended := True\<rparr>)"
| env_call: "call i (pp_sess P) s \<Longrightarrow> pipe_env i P (P\<lparr>pp_sess := s\<rparr>)"
| env_frame: "dispatch now pick f (pp_sess P) = Next s \<or> dispatch now pick f (pp_sess P) = Block s \<Longrightarrow> pipe_env i P (P\<lparr>pp_sess := s\<rparr>)"
| env_bytes: "pipe_env i P (P\<lparr>pp_sess := liveRead now n (pp_sess P)\<rparr>)"

definition pipe_step :: "bool \<Rightarrow> nat \<Rightarrow> u32 \<Rightarrow> pipe \<Rightarrow> pipe \<Rightarrow> bool" where
  "pipe_step connFirst st i P Q \<longleftrightarrow> pipe_move connFirst st P Q \<or> pipe_env i P Q"

text \<open>The start of both loops.\<close>

definition pipe_init :: "nat \<Rightarrow> pipe \<Rightarrow> bool" where
  "pipe_init st P \<longleftrightarrow> sess_ok (pp_sess P) \<and> st < length (s_heap (pp_sess P)) \<and> pp_open P \<and> pp_up P = Copying \<and> pp_down P = Copying \<and>
     pp_arrived P = pp_in P \<and> pp_out P = [] \<and> pp_sent P = [] \<and> pp_got P = []"

section \<open>What passes through\<close>

text \<open>How many of its closes a goroutine has behind it, and what it holds.\<close>

fun holds :: "copier \<Rightarrow> bytes" where
  "holds (Holding b) = b"
| "holds _ = []"

fun running :: "copier \<Rightarrow> bool" where
  "running Copying = True"
| "running (Holding b) = True"
| "running _ = False"

fun closes :: "copier \<Rightarrow> nat" where
  "closes ClosingTwo = 1"
| "closes Finished = 2"
| "closes _ = 0"

definition pipe_ok :: "bool \<Rightarrow> nat \<Rightarrow> pipe \<Rightarrow> bool" where
  "pipe_ok connFirst st P \<longleftrightarrow>
     sess_ok (pp_sess P) \<and> st < length (s_heap (pp_sess P)) \<and>
     (\<exists>lost. pp_arrived P = pp_sent P @ holds (pp_up P) @ lost @ pp_in P \<and> (running (pp_up P) \<longrightarrow> lost = [])) \<and>
     (\<exists>lost. pp_got P = pp_out P @ holds (pp_down P) @ lost \<and> (running (pp_down P) \<longrightarrow> lost = [])) \<and>
     (closes (pp_up P) = 2 \<or> closes (pp_down P) = 2 \<or> connFirst \<and> closes (pp_down P) = 1 \<longrightarrow> \<not> pp_open P) \<and>
     (1 \<le> closes (pp_up P) \<or> closes (pp_down P) = 2 \<or> \<not> connFirst \<and> closes (pp_down P) = 1 \<longrightarrow>
        checkWrite (strm (pp_sess P) st) \<noteq> None)"

lemma pipe_init_ok: "pipe_init st P \<Longrightarrow> pipe_ok connFirst st P"
  by (simp add: pipe_init_def pipe_ok_def)

text \<open>Operations on the session keep what the pipe knows of its stream.\<close>

lemma pipe_sess:
  assumes "mux_op s t" and "sess_ok s" and "st < length (s_heap s)"
  shows "sess_ok t" "st < length (s_heap t)" "checkWrite (strm s st) \<noteq> None \<longrightarrow> checkWrite (strm t st) \<noteq> None"
  using mux_op_ok [OF assms(1,2)] op_grown [OF assms] checkWrite_grows by (auto simp: along_def)

lemma upRead_cases:
  assumes "upRead k P = Some Q"
  obtains "Q = P\<lparr>pp_up := ClosingOne\<rparr>" and "\<not> pp_open P \<or> pp_in P = [] \<and> pp_ended P"
  | n where "0 < n" and "pp_in P \<noteq> []" and "Q = P\<lparr>pp_in := drop n (pp_in P), pp_up := Holding (take n (pp_in P))\<rparr>"
proof (cases "pp_open P \<and> pp_in P \<noteq> []")
  case True
  with assms show ?thesis by (intro that(2) [of "max 1 (min k copyBuf)"]) (simp_all add: upRead_def Let_def)
next
  case False
  with assms show ?thesis by (intro that(1)) (auto simp: upRead_def split: if_splits)
qed

lemma downRead_cases:
  assumes "downRead st P = Some Q"
  obtains d s where "Read copyBuf st (pp_sess P) = (RData d, s)" and "Q = P\<lparr>pp_sess := s, pp_got := pp_got P @ d, pp_down := Holding d\<rparr>"
  | e s where "Read copyBuf st (pp_sess P) = (RErr e, s)" and "Q = P\<lparr>pp_sess := s, pp_down := ClosingOne\<rparr>"
  using assms by (auto simp: downRead_def split: prod.splits read_res.splits)

lemma Write_full: "Write r b s = ((n, None), s') \<Longrightarrow> take n b = b"
  using Write_sent by fastforce

lemma pipe_move_ok:
  assumes "pipe_move connFirst st P Q" and inv: "pipe_ok connFirst st P"
  shows "pipe_ok connFirst st Q"
proof -
  have s: "sess_ok (pp_sess P)" "st < length (s_heap (pp_sess P))" using inv by (simp_all add: pipe_ok_def)
  note close = pipe_sess [OF mux_op.op_closeWrite [OF s(2)] s] CloseWrite_stops [OF s(2)]
  from assms(1) show ?thesis
  proof cases
    case (up_read k)
    from up_read(2) show ?thesis by (rule upRead_cases) (use inv up_read(1) in \<open>auto simp: pipe_ok_def\<close>)
  next
    case (up_write b)
    obtain n e t where w: "Write st b (pp_sess P) = ((n, e), t)" by (metis prod.exhaust)
    have "pp_sess (upWrite st b P) = snd (Write st b (pp_sess P))" by (simp add: upWrite_def w)
    with pipe_sess [OF mux_op.op_write [OF s(2), of b] s] have t: "sess_ok t" "st < length (s_heap t)"
      "checkWrite (strm (pp_sess P) st) \<noteq> None \<longrightarrow> checkWrite (strm t st) \<noteq> None" by (simp_all add: w)
    have "b = take n b @ drop n b" by simp
    then have "pp_arrived P = (pp_sent P @ take n b) @ drop n b @ pp_in P"
      using inv up_write(2) by (auto simp: pipe_ok_def)
    moreover have "e = None \<Longrightarrow> drop n b = []" using Write_full w by (metis append_take_drop_id append_self_conv)
    ultimately show ?thesis
      using inv t up_write by (cases e) (auto simp: pipe_ok_def upWrite_def w)
  next
    case up_close1
    with inv close show ?thesis by (auto simp: pipe_ok_def closeEnd_def stream_Close_def)
  next
    case up_close2
    with inv show ?thesis by (auto simp: pipe_ok_def closeEnd_def)
  next
    case down_read
    note r = pipe_sess [OF mux_op.op_read [OF s(2), of copyBuf] s]
    from down_read(2) show ?thesis by (rule downRead_cases) (use inv r down_read(1) in \<open>auto simp: pipe_ok_def\<close>)
  next
    case (down_write d k)
    have "\<exists>lost. d = take k d @ lost" by (rule exI [of _ "drop k d"]) simp
    with down_write inv show ?thesis by (auto simp: pipe_ok_def downWrite_def)
  next
    case down_close1
    with inv close show ?thesis by (auto simp: pipe_ok_def closeEnd_def stream_Close_def)
  next
    case down_close2
    with inv close show ?thesis by (auto simp: pipe_ok_def closeEnd_def stream_Close_def)
  qed
qed

lemma pipe_env_ok:
  assumes "pipe_env i P Q" and inv: "pipe_ok connFirst st P"
  shows "pipe_ok connFirst st Q"
proof -
  have s: "sess_ok (pp_sess P)" "st < length (s_heap (pp_sess P))" using inv by (simp_all add: pipe_ok_def)
  have sess: "pipe_ok connFirst st (P\<lparr>pp_sess := t\<rparr>)" if "mux_op (pp_sess P) t" for t
    using inv pipe_sess [OF that s] by (auto simp: pipe_ok_def)
  from assms(1) show ?thesis
  proof cases
    case (env_call t)
    then show ?thesis using sess [OF call_op] by simp
  next
    case (env_frame now pick f t)
    then show ?thesis using sess mux_op.op_frame mux_op.op_stall by metis
  next
    case (env_bytes now n)
    then show ?thesis using sess mux_op.op_bytes by metis
  qed (use inv in \<open>auto simp: pipe_ok_def\<close>)
qed

interpretation pipe: invariant_system "pipe_init st" "pipe_step connFirst st i" "pipe_ok connFirst st"
  by unfold_locales (auto simp: pipe_step_def intro: pipe_init_ok pipe_move_ok pipe_env_ok)

section \<open>The end\<close>

fun rank :: "copier \<Rightarrow> nat" where
  "rank Copying = 3"
| "rank (Holding b) = 4"
| "rank ClosingOne = 2"
| "rank ClosingTwo = 1"
| "rank Finished = 0"

definition unread :: "nat \<Rightarrow> pipe \<Rightarrow> nat" where
  "unread st P = length (cur (strm (pp_sess P) st) @ concat (chunks (strm (pp_sess P) st)))"

definition pipe_work :: "nat \<Rightarrow> pipe \<Rightarrow> nat" where
  "pipe_work st P = 3 * length (pp_in P) + rank (pp_up P) + 3 * unread st P + rank (pp_down P)"

text \<open>The stream has ended for its reader: the peer closed or reset it, or the session is over.\<close>

definition stream_ended :: "nat \<Rightarrow> pipe \<Rightarrow> bool" where
  "stream_ended st P \<longleftrightarrow> readDone (strm (pp_sess P) st)"

lemma stream_Close_unread:
  "st < length (s_heap (pp_sess P)) \<Longrightarrow> unread st (closeEnd b st P) = unread st P \<and> stream_ended st (closeEnd b st P) = stream_ended st P"
  by (simp add: unread_def stream_ended_def closeEnd_def stream_Close_def CloseWrite_strm)

lemma Read_unread:
  assumes "st < length (s_heap s)" and "Read copyBuf st s = (res, t)"
  shows "length (cur (strm t st) @ concat (chunks (strm t st))) + (case res of RData d \<Rightarrow> length d | _ \<Rightarrow> 0) =
      length (cur (strm s st) @ concat (chunks (strm s st)))"
    and "res = RData d \<Longrightarrow> d \<noteq> []" and "readDone (strm t st) = readDone (strm s st)"
proof -
  obtain st' where r: "stRead copyBuf (s_done s) (strm s st) = (res, st')" and t: "strm t st = st'"
    using assms by (auto simp: Read_def split: prod.splits)
  from stRead_rest [OF r] show "length (cur (strm t st) @ concat (chunks (strm t st))) + (case res of RData d \<Rightarrow> length d | _ \<Rightarrow> 0) =
      length (cur (strm s st) @ concat (chunks (strm s st)))"
    unfolding t by (cases res) (auto dest!: arg_cong [where f = length])
  show "d \<noteq> []" if "res = RData d" using stRead_data r that by (auto simp: copyBuf_def)
  show "readDone (strm t st) = readDone (strm s st)" unfolding t by (subst conjunct1 [OF stRead_flags [OF r]]) simp
qed

lemma pipe_move_work:
  assumes "pipe_move connFirst st P Q" and inv: "pipe_ok connFirst st P"
  shows "pipe_work st Q < pipe_work st P \<and> (stream_ended st P \<longrightarrow> stream_ended st Q)"
proof -
  have st: "st < length (s_heap (pp_sess P))" using inv by (simp add: pipe_ok_def)
  note close = stream_Close_unread [OF st]
  from assms(1) show ?thesis
  proof cases
    case (up_read k)
    from up_read(2) show ?thesis
    proof (rule upRead_cases)
      fix n assume n: "0 < n" "pp_in P \<noteq> []" and Q: "Q = P\<lparr>pp_in := drop n (pp_in P), pp_up := Holding (take n (pp_in P))\<rparr>"
      have "length (pp_in P) - n < length (pp_in P)" using n by simp
      then show ?thesis using up_read(1) by (simp add: Q pipe_work_def unread_def stream_ended_def)
    qed (use up_read(1) in \<open>simp add: pipe_work_def unread_def stream_ended_def\<close>)
  next
    case (up_write b)
    have "pp_sess (upWrite st b P) = snd (Write st b (pp_sess P))" by (simp add: upWrite_def split: prod.splits)
    then have "strm (pp_sess (upWrite st b P)) st = strm (pp_sess P) st" by (simp add: conn_only_frame(7) [OF Write_conn_only])
    with up_write show ?thesis
      by (auto simp: pipe_work_def unread_def stream_ended_def upWrite_def split: prod.splits)
  next
    case up_close1
    with close [of True] show ?thesis by (auto simp: pipe_work_def unread_def stream_ended_def closeEnd_def)
  next
    case up_close2
    with close [of False] show ?thesis by (auto simp: pipe_work_def unread_def stream_ended_def closeEnd_def)
  next
    case down_read
    from down_read(2) show ?thesis
    proof (rule downRead_cases)
      fix d s assume r: "Read copyBuf st (pp_sess P) = (RData d, s)" and Q: "Q = P\<lparr>pp_sess := s, pp_got := pp_got P @ d, pp_down := Holding d\<rparr>"
      from Read_unread [OF st r] down_read(1) Q show ?thesis
        by (cases d) (simp_all add: pipe_work_def unread_def stream_ended_def)
    next
      fix e s assume r: "Read copyBuf st (pp_sess P) = (RErr e, s)" and Q: "Q = P\<lparr>pp_sess := s, pp_down := ClosingOne\<rparr>"
      from Read_unread [OF st r] down_read(1) Q show ?thesis by (simp add: pipe_work_def unread_def stream_ended_def)
    qed
  next
    case (down_write d k)
    then show ?thesis by (simp add: pipe_work_def unread_def stream_ended_def downWrite_def)
  next
    case down_close1
    with close [of "\<not> connFirst"] show ?thesis by (auto simp: pipe_work_def unread_def stream_ended_def closeEnd_def)
  next
    case down_close2
    with close [of connFirst] show ?thesis by (auto simp: pipe_work_def unread_def stream_ended_def closeEnd_def)
  qed
qed

lemma ended_read:
  assumes "stream_ended st P" and "st < length (s_heap (pp_sess P))"
  shows "\<exists>Q. downRead st P = Some Q"
proof -
  obtain res t where r: "Read copyBuf st (pp_sess P) = (res, t)" by fastforce
  obtain st' where s: "stRead copyBuf (s_done (pp_sess P)) (strm (pp_sess P) st) = (res, st')" using r by (auto simp: Read_def split: prod.splits)
  have "(\<exists>d. res = RData d) \<or> (\<exists>e. res = RErr e)"
    using stRead_end [OF s] assms(1) by (auto simp: stream_ended_def)
  with r show ?thesis by (auto simp: downRead_def)
qed

lemma pipe_progress:
  assumes inv: "pipe_ok connFirst st P" and e: "stream_ended st P" and run: "\<not> (pp_up P = Finished \<and> pp_down P = Finished)"
  shows "\<exists>Q. pipe_move connFirst st P Q"
proof (cases "pp_down P")
  case Copying
  with ended_read [OF e] inv show ?thesis by (auto simp: pipe_ok_def intro: down_read)
next
  case Finished
  with inv have "\<not> pp_open P" by (simp add: pipe_ok_def)
  then have "upRead 1 P = Some (P\<lparr>pp_up := ClosingOne\<rparr>)" by (simp add: upRead_def)
  with run Finished show ?thesis by (cases "pp_up P") (auto intro: pipe_move.intros)
qed (auto intro: pipe_move.intros)

interpretation settle: settling_system "pipe_move connFirst st" "\<lambda>P. pipe_ok connFirst st P \<and> stream_ended st P" "pipe_work st"
  "\<lambda>P. pp_up P = Finished \<and> pp_down P = Finished"
  using pipe_move_ok pipe_move_work pipe_progress by unfold_locales blast+

text \<open>
  The comment over the pipe says that closing both ends unblocks the other direction. For the connection that is so; \<^verbatim>\<open>Close\<close> of a stream only closes its
  writing half, so a goroutine that waits in \<^verbatim>\<open>Read\<close> of the stream goes on waiting until the peer closes.
\<close>

lemma half_close_keeps_waiting:
  assumes "st < length (s_heap s)" and "fst (Read n st s) = RBlock"
  shows "fst (Read n st (snd (stream_Close st s))) = RBlock"
proof -
  have same: "stRead n d (x\<lparr>sentClose := a, removed := b\<rparr>) = (let (res, y) = stRead n d x in (res, y\<lparr>sentClose := a, removed := b\<rparr>))" for d x a b
  proof (induction n d x rule: stRead.induct)
    case (1 n d x)
    show ?case
    proof (cases "cur x = [] \<and> chunks x \<noteq> []")
      case True
      then obtain c cs where c: "chunks x = c # cs" by (cases "chunks x") auto
      have eq: "x\<lparr>sentClose := a, removed := b, cur := c, chunks := cs\<rparr> = x\<lparr>cur := c, chunks := cs, sentClose := a, removed := b\<rparr>" by (cases x) simp
      have "stRead n d (x\<lparr>sentClose := a, removed := b\<rparr>) = stRead n d (x\<lparr>cur := c, chunks := cs, sentClose := a, removed := b\<rparr>)"
        unfolding eq [symmetric] using True c by (simp add: stRead.simps [of n d "x\<lparr>sentClose := a, removed := b\<rparr>"])
      moreover have "stRead n d x = stRead n d (x\<lparr>cur := c, chunks := cs\<rparr>)" using True c by (simp add: stRead.simps [of n d x])
      ultimately show ?thesis using True "1.IH" [OF _ c] by simp
    next
      case False
      then show ?thesis
        by (auto simp: stRead.simps [of n d x] stRead.simps [of n d "x\<lparr>sentClose := a, removed := b\<rparr>"] readEnd_def split: list.splits)
    qed
  qed
  have "s_done (snd (CloseWrite st s)) = s_done s"
    using CloseWrite_net [OF assms(1) _ _ refl] by (cases "sentClose (strm s st) \<or> rst (strm s st)") (auto simp: CloseWrite_def remove_def)
  with assms show ?thesis
    by (auto simp: Read_def stream_Close_def CloseWrite_strm same split: prod.splits if_splits)
qed

section \<open>Properties\<close>



end
