(* ===== verification/Upgrade.thy ===== *)
theory Upgrade
  imports Pipe
begin

text \<open>
  An upgraded connection from end to end: a pipe on each side of a connection's two sessions (\<open>Pipe\<close>), and the stream between them (\<open>Link\<close>). The pipe \<open>ug_near\<close> copies what
  arrives on its network connection into the stream, the pipe \<open>ug_far\<close> what it reads from the stream to its own network connection: viewer to local service with
  the server's pipe near and the client's far, and the answers the other way round.
\<close>

section \<open>The composition\<close>

record upgrade =
  ug_near :: pipe
  ug_far :: pipe
  ug_link :: link

text \<open>
  A pipe's step is a call on its session, so it is a step of the connection too, or none; the other steps are those of \<open>Link\<close> that do not touch the stream's data, and
  what happens on the network connections.
\<close>

definition near_link :: "pipe \<Rightarrow> link \<Rightarrow> link \<Rightarrow> bool" where
  "near_link Q L M \<longleftrightarrow> lk_a M = pp_sess Q \<and> lk_in M = pp_sent Q \<and> lk_b M = lk_b L \<and> lk_out M = lk_out L"

definition far_link :: "pipe \<Rightarrow> link \<Rightarrow> link \<Rightarrow> bool" where
  "far_link Q L M \<longleftrightarrow> lk_b M = pp_sess Q \<and> lk_out M = pp_got Q \<and> lk_a M = lk_a L \<and> lk_in M = lk_in L"

inductive ug_step :: "bool \<Rightarrow> bool \<Rightarrow> u32 \<Rightarrow> nat \<Rightarrow> nat \<Rightarrow> upgrade \<Rightarrow> upgrade \<Rightarrow> bool" for c c' i r q where
  ug_near_move: "pipe_move c r (ug_near U) Q \<Longrightarrow> (lk_step i r q)\<^sup>=\<^sup>= (ug_link U) M \<Longrightarrow> near_link Q (ug_link U) M \<Longrightarrow>
     ug_step c c' i r q U (U\<lparr>ug_near := Q, ug_link := M\<rparr>)"
| ug_far_move: "pipe_move c' q (ug_far U) Q \<Longrightarrow> (lk_step i r q)\<^sup>=\<^sup>= (ug_link U) M \<Longrightarrow> far_link Q (ug_link U) M \<Longrightarrow>
     ug_step c c' i r q U (U\<lparr>ug_far := Q, ug_link := M\<rparr>)"
| ug_between: "lk_step i r q (ug_link U) M \<Longrightarrow> lk_in M = lk_in (ug_link U) \<Longrightarrow> lk_out M = lk_out (ug_link U) \<Longrightarrow>
     ug_step c c' i r q U (U\<lparr>ug_near := (ug_near U)\<lparr>pp_sess := lk_a M\<rparr>, ug_far := (ug_far U)\<lparr>pp_sess := lk_b M\<rparr>, ug_link := M\<rparr>)"
| ug_near_arrive: "\<not> pp_ended (ug_near U) \<Longrightarrow>
     ug_step c c' i r q U (U\<lparr>ug_near := (ug_near U)\<lparr>pp_in := pp_in (ug_near U) @ b, pp_arrived := pp_arrived (ug_near U) @ b\<rparr>\<rparr>)"
| ug_near_end: "ug_step c c' i r q U (U\<lparr>ug_near := (ug_near U)\<lparr>pp_ended := True\<rparr>\<rparr>)"
| ug_far_arrive: "\<not> pp_ended (ug_far U) \<Longrightarrow>
     ug_step c c' i r q U (U\<lparr>ug_far := (ug_far U)\<lparr>pp_in := pp_in (ug_far U) @ b, pp_arrived := pp_arrived (ug_far U) @ b\<rparr>\<rparr>)"
| ug_far_end: "ug_step c c' i r q U (U\<lparr>ug_far := (ug_far U)\<lparr>pp_ended := True\<rparr>\<rparr>)"

definition ug_init :: "u32 \<Rightarrow> nat \<Rightarrow> nat \<Rightarrow> upgrade \<Rightarrow> bool" where
  "ug_init i r q U \<longleftrightarrow> pipe_init r (ug_near U) \<and> pipe_init q (ug_far U) \<and> link_init i r q (ug_link U) \<and>
     pp_sess (ug_near U) = lk_a (ug_link U) \<and> pp_sess (ug_far U) = lk_b (ug_link U)"

definition ug_ok :: "bool \<Rightarrow> bool \<Rightarrow> u32 \<Rightarrow> nat \<Rightarrow> nat \<Rightarrow> upgrade \<Rightarrow> bool" where
  "ug_ok c c' i r q U \<longleftrightarrow> pipe_ok c r (ug_near U) \<and> pipe_ok c' q (ug_far U) \<and> link_ok i r q (ug_link U) \<and>
     pp_sess (ug_near U) = lk_a (ug_link U) \<and> pp_sess (ug_far U) = lk_b (ug_link U) \<and>
     pp_sent (ug_near U) = lk_in (ug_link U) \<and> pp_got (ug_far U) = lk_out (ug_link U)"

section \<open>Every step of a pipe is one of the connection\<close>

lemma near_close:
  assumes "pp_sess P = lk_a L" and "pp_sent P = lk_in L"
  shows "\<exists>M. (lk_step i r q)\<^sup>=\<^sup>= L M \<and> near_link (closeEnd b r P) L M"
proof (cases b)
  case True
  have "lk_step i r q L ((sends (snd (CloseWrite r (lk_a L))) L)\<lparr>lk_fin := True\<rparr>)" by (intro step_send send_close)
  moreover have "near_link (closeEnd b r P) L ((sends (snd (CloseWrite r (lk_a L))) L)\<lparr>lk_fin := True\<rparr>)"
    using True assms by (simp add: near_link_def sends_def closeEnd_def stream_Close_def)
  ultimately show ?thesis by blast
next
  case False
  with assms show ?thesis by (intro exI [of _ L]) (simp add: near_link_def closeEnd_def)
qed

lemma near_matches:
  assumes "pipe_move c r P Q" and "pp_sess P = lk_a L" and "pp_sent P = lk_in L"
  shows "\<exists>M. (lk_step i r q)\<^sup>=\<^sup>= L M \<and> near_link Q L M"
  using assms(1)
proof cases
  case (up_read k)
  from up_read(2) show ?thesis
    by (rule upRead_cases) (use assms(2,3) in \<open>auto simp: near_link_def\<close>)
next
  case (up_write b)
  obtain n e a' where w: "Write r b (lk_a L) = ((n, e), a')" by (metis prod.exhaust)
  from step_send [OF send_write [OF w]] have "lk_step i r q L ((sends a' L)\<lparr>lk_in := lk_in L @ take n b\<rparr>)" .
  moreover have "near_link Q L ((sends a' L)\<lparr>lk_in := lk_in L @ take n b\<rparr>)" using w assms(2,3) up_write(1) by (simp add: near_link_def sends_def upWrite_def)
  ultimately show ?thesis by blast
next
  case down_read
  have "lk_step i r q L (sends (snd (Read copyBuf r (lk_a L))) L)" by (intro step_send send_read)
  moreover have "near_link Q L (sends (snd (Read copyBuf r (lk_a L))) L)"
    using down_read(2) by (rule downRead_cases) (use assms(2,3) in \<open>simp_all add: near_link_def sends_def\<close>)
  ultimately show ?thesis by blast
next
  case up_close1
  then show ?thesis using near_close [OF assms(2,3)] by (simp add: near_link_def)
next
  case down_close1
  then show ?thesis using near_close [OF assms(2,3)] by (simp add: near_link_def)
next
  case down_close2
  then show ?thesis using near_close [OF assms(2,3)] by (simp add: near_link_def)
qed (use assms(2,3) in \<open>auto simp: near_link_def closeEnd_def downWrite_def\<close>)

lemma far_close:
  assumes "pp_sess P = lk_b L" and "pp_got P = lk_out L"
  shows "\<exists>M. (lk_step i r q)\<^sup>=\<^sup>= L M \<and> far_link (closeEnd b q P) L M"
proof (cases b)
  case True
  have "lk_step i r q L (L\<lparr>lk_b := snd (CloseWrite q (lk_b L))\<rparr>)" by (rule step_close)
  moreover have "far_link (closeEnd b q P) L (L\<lparr>lk_b := snd (CloseWrite q (lk_b L))\<rparr>)"
    using True assms by (simp add: far_link_def closeEnd_def stream_Close_def)
  ultimately show ?thesis by blast
next
  case False
  with assms show ?thesis by (intro exI [of _ L]) (simp add: far_link_def closeEnd_def)
qed

lemma far_matches:
  assumes "pipe_move c q P Q" and "pp_sess P = lk_b L" and "pp_got P = lk_out L"
  shows "\<exists>M. (lk_step i r q)\<^sup>=\<^sup>= L M \<and> far_link Q L M"
  using assms(1)
proof cases
  case (up_read k)
  from up_read(2) show ?thesis
    by (rule upRead_cases) (use assms(2,3) in \<open>auto simp: far_link_def\<close>)
next
  case (up_write b)
  have "lk_step i r q L (L\<lparr>lk_b := snd (Write q b (lk_b L))\<rparr>)" by (rule step_write)
  moreover have "far_link Q L (L\<lparr>lk_b := snd (Write q b (lk_b L))\<rparr>)"
    using assms(2,3) up_write(1) by (simp add: far_link_def upWrite_def split: prod.splits)
  ultimately show ?thesis by blast
next
  case down_read
  obtain res b' where rd: "Read copyBuf q (lk_b L) = (res, b')" by fastforce
  let ?M = "L\<lparr>lk_b := b', lk_out := lk_out L @ (case res of RData d \<Rightarrow> d | _ \<Rightarrow> []), lk_eof := lk_eof L \<or> res = RErr EOF\<rparr>"
  have "lk_step i r q L ?M" using rd by (intro step_recv recv_read [of copyBuf]) (simp_all add: copyBuf_def)
  moreover have "far_link Q L ?M"
    using down_read(2) by (rule downRead_cases) (use assms(2,3) rd in \<open>simp_all add: far_link_def\<close>)
  ultimately show ?thesis by blast
next
  case up_close1
  then show ?thesis using far_close [OF assms(2,3)] by (simp add: far_link_def)
next
  case down_close1
  then show ?thesis using far_close [OF assms(2,3)] by (simp add: far_link_def)
next
  case down_close2
  then show ?thesis using far_close [OF assms(2,3)] by (simp add: far_link_def)
qed (use assms(2,3) in \<open>auto simp: far_link_def closeEnd_def downWrite_def\<close>)

section \<open>The invariant\<close>

text \<open>A step of the connection keeps what each pipe knows of its stream.\<close>

lemma pipe_ok_grown: "pipe_ok c st P \<Longrightarrow> sess_ok s \<Longrightarrow> along st_grow st (pp_sess P) s \<Longrightarrow> pipe_ok c st (P\<lparr>pp_sess := s\<rparr>)"
  using checkWrite_grows by (auto simp: pipe_ok_def along_def)

lemma ug_init_ok: "ug_init i r q U \<Longrightarrow> ug_ok c c' i r q U"
  by (simp add: ug_init_def ug_ok_def pipe_init_ok link_init_ok) (simp add: link_init_def pipe_init_def)

lemma ug_step_ok:
  assumes "ug_step c c' i r q U V" and inv: "ug_ok c c' i r q U"
  shows "ug_ok c c' i r q V"
proof -
  have link: "link_ok i r q M" if "(lk_step i r q)\<^sup>=\<^sup>= (ug_link U) M" for M
    using that inv lk_step_ok by (auto simp: ug_ok_def)
  from assms(1) show ?thesis
  proof cases
    case (ug_near_move Q M)
    with link pipe_move_ok inv show ?thesis by (auto simp: ug_ok_def near_link_def)
  next
    case (ug_far_move Q M)
    with link pipe_move_ok inv show ?thesis by (auto simp: ug_ok_def far_link_def)
  next
    case (ug_between M)
    have l: "link_ok i r q (ug_link U)" "link_ok i r q M" using inv link ug_between(2) by (simp_all add: ug_ok_def)
    with lk_step_grown [OF ug_between(2)] link_ok_parts(1,5) [OF l(2)] ug_between inv show ?thesis
      by (auto simp: ug_ok_def reader_ok_def intro!: pipe_ok_grown)
  next
    case (ug_near_arrive b)
    with inv pipe_env_ok [OF env_arrive] show ?thesis by (simp add: ug_ok_def)
  next
    case ug_near_end
    with inv pipe_env_ok [OF env_end] show ?thesis by (simp add: ug_ok_def)
  next
    case (ug_far_arrive b)
    with inv pipe_env_ok [OF env_arrive] show ?thesis by (simp add: ug_ok_def)
  next
    case ug_far_end
    with inv pipe_env_ok [OF env_end] show ?thesis by (simp add: ug_ok_def)
  qed
qed

interpretation upg: invariant_system "ug_init i r q" "ug_step c c' i r q" "ug_ok c c' i r q"
  by unfold_locales (blast intro: ug_init_ok ug_step_ok)+

text \<open>The composition takes no step away from its pipes.\<close>

lemma ug_moves:
  assumes inv: "ug_ok c c' i r q U"
  shows "pipe_move c r (ug_near U) Q \<Longrightarrow> \<exists>V. ug_step c c' i r q U V \<and> ug_near V = Q"
    and "pipe_move c' q (ug_far U) Q \<Longrightarrow> \<exists>V. ug_step c c' i r q U V \<and> ug_far V = Q"
proof -
  assume m: "pipe_move c r (ug_near U) Q"
  from near_matches [OF m] inv obtain M where "(lk_step i r q)\<^sup>=\<^sup>= (ug_link U) M" "near_link Q (ug_link U) M" unfolding ug_ok_def by blast
  from ug_near_move [OF m this] show "\<exists>V. ug_step c c' i r q U V \<and> ug_near V = Q" by fastforce
next
  assume m: "pipe_move c' q (ug_far U) Q"
  from far_matches [OF m] inv obtain M where "(lk_step i r q)\<^sup>=\<^sup>= (ug_link U) M" "far_link Q (ug_link U) M" unfolding ug_ok_def by blast
  from ug_far_move [OF m this] show "\<exists>V. ug_step c c' i r q U V \<and> ug_far V = Q" by fastforce
qed

section \<open>Properties\<close>

text \<open>
  Property C17. An upgraded connection is transparent: whatever both pipes, both sessions and the two network connections do, in any order, the bytes written to one network
  connection are a prefix of those that arrived on the other, in order and unaltered. Nothing is missing in the middle: while both loops run, what has arrived is what
  was written out, what the far loop holds, what is in the stream, what the near loop holds and what it has not read, in this order; and when the far
  loop has read the stream to a clean end, it has got everything the near loop wrote. Every step the two pipes can take by themselves they can take here.
\<close>

theorem upgrade_transparent:
  assumes "reach (ug_init i r q) (ug_step c c' i r q) U"
  shows "(\<exists>rest. pp_arrived (ug_near U) = pp_out (ug_far U) @ rest) \<and>
     (running (pp_up (ug_near U)) \<and> running (pp_down (ug_far U)) \<longrightarrow>
        (\<exists>flight. pp_arrived (ug_near U) =
           pp_out (ug_far U) @ holds (pp_down (ug_far U)) @ flight @ holds (pp_up (ug_near U)) @ pp_in (ug_near U))) \<and>
     (readErr (strm (pp_sess (ug_far U)) q) = Some EOF \<and> cur (strm (pp_sess (ug_far U)) q) = [] \<and> concat (chunks (strm (pp_sess (ug_far U)) q)) = [] \<longrightarrow>
        pp_got (ug_far U) = pp_sent (ug_near U)) \<and>
     (\<forall>Q. pipe_move c r (ug_near U) Q \<longrightarrow> (\<exists>V. ug_step c c' i r q U V \<and> ug_near V = Q)) \<and>
     (\<forall>Q. pipe_move c' q (ug_far U) Q \<longrightarrow> (\<exists>V. ug_step c c' i r q U V \<and> ug_far V = Q))"
proof -
  have inv: "ug_ok c c' i r q U" using assms by (rule upg.reach_inv)
  then obtain l l' where n: "pp_arrived (ug_near U) = pp_sent (ug_near U) @ holds (pp_up (ug_near U)) @ l @ pp_in (ug_near U)"
      "running (pp_up (ug_near U)) \<longrightarrow> l = []"
    and f: "pp_got (ug_far U) = pp_out (ug_far U) @ holds (pp_down (ug_far U)) @ l'" "running (pp_down (ug_far U)) \<longrightarrow> l' = []"
    unfolding ug_ok_def pipe_ok_def by blast
  have same: "pp_sess (ug_far U) = lk_b (ug_link U)" "pp_sent (ug_near U) = lk_in (ug_link U)" "pp_got (ug_far U) = lk_out (ug_link U)"
    and "link_ok i r q (ug_link U)" using inv by (simp_all add: ug_ok_def)
  then obtain ps where "content q (ug_link U) ps" by (elim link_okE)
  then have "\<exists>flight. pp_sent (ug_near U) = pp_got (ug_far U) @ flight"
    and "readErr (strm (pp_sess (ug_far U)) q) = Some EOF \<Longrightarrow> cur (strm (pp_sess (ug_far U)) q) = [] \<Longrightarrow>
      concat (chunks (strm (pp_sess (ug_far U)) q)) = [] \<Longrightarrow> pp_got (ug_far U) = pp_sent (ug_near U)"
    by (auto simp: same content_def held_def split: option.splits if_splits)
  with n f ug_moves [OF inv] show ?thesis by auto
qed

text \<open>Two bytes arrive at the server and reach the local service.\<close>

definition demo_pipe :: "session \<Rightarrow> bytes \<Rightarrow> pipe" where
  "demo_pipe s b = \<lparr>pp_sess = s, pp_in = b, pp_ended = False, pp_open = True, pp_out = [], pp_up = Copying, pp_down = Copying,
     pp_arrived = b, pp_sent = [], pp_got = []\<rparr>"

lemma demo_dispatch:
  "dispatch 0 False (FrameData, 1, b) (liveRead 0 n demo_client) =
     Next ((markRecv 0 (upd 0 (\<lambda>st. st\<lparr>chunks := [b]\<rparr>) (liveRead 0 n demo_client)))\<lparr>s_stalled := False\<rparr>)"
  by (simp add: dispatch_data pushData_def Let_def demo_client_eq NewClientSession_def newSession_def strm_def upd_def newStream_def chunksCap_def
      liveRead_def markRecv_def getStream_def)

lemma demo_read:
  assumes "b \<noteq> []" and "length b \<le> copyBuf"
  shows "fst (Read copyBuf 0 ((markRecv 0 (upd 0 (\<lambda>st. st\<lparr>chunks := [b]\<rparr>) (liveRead 0 n demo_client)))\<lparr>s_stalled := False\<rparr>)) = RData b"
    (is "fst (Read copyBuf 0 ?c) = _")
proof -
  have "strm ?c 0 = (newStream 1)\<lparr>chunks := [b]\<rparr>"
    by (simp add: demo_client_eq NewClientSession_def newSession_def strm_def upd_def liveRead_def markRecv_def)
  moreover have "fst (stRead copyBuf d ((newStream 1)\<lparr>chunks := [b]\<rparr>)) = RData b" for d
    using assms unfolding newStream_def by (subst stRead.simps, simp, subst stRead.simps, simp)
  ultimately show ?thesis by (simp add: Read_def case_prod_beta)
qed

lemma demo_upgrade_run:
  obtains U where "reach (ug_init 1 0 0) (ug_step False True 1 0 0) U" and "pp_out (ug_far U) = [104, 105]" and "pp_arrived (ug_near U) = [104, 105]"
proof -
  let ?b = "[104, 105] :: bytes"
  let ?a = "snd (Write 0 ?b demo_server)"
  let ?N0 = "demo_pipe demo_server ?b" and ?F0 = "demo_pipe demo_client []"
  let ?N1 = "?N0\<lparr>pp_in := [], pp_up := Holding ?b\<rparr>"
  let ?N2 = "?N1\<lparr>pp_sess := ?a, pp_sent := ?b, pp_up := Copying\<rparr>"
  let ?L2 = "(sends ?a demo_link)\<lparr>lk_in := ?b\<rparr>"
  let ?c = "(markRecv 0 (upd 0 (\<lambda>st. st\<lparr>chunks := [?b]\<rparr>) (liveRead 0 (length (lk_wire ?L2)) demo_client)))\<lparr>s_stalled := False\<rparr>"
  let ?L3 = "?L2\<lparr>lk_b := ?c, lk_wire := []\<rparr>" and ?F3 = "?F0\<lparr>pp_sess := ?c\<rparr>"
  let ?U = "\<lambda>N F L. \<lparr>ug_near = N, ug_far = F, ug_link = L\<rparr>"
  let ?reach = "reach (ug_init 1 0 0) (ug_step False True 1 0 0)"
  have "link_init 1 0 0 demo_link" by (simp add: link_init_def demo_link_def exI [of _ "[]"])
  then have "ug_init 1 0 0 (?U ?N0 ?F0 demo_link)" by (simp add: ug_init_def pipe_init_def demo_pipe_def, simp add: demo_link_def)
  then have r0: "?reach (?U ?N0 ?F0 demo_link)" by (rule reach.intros)
  have "pipe_move False 0 ?N0 ?N1" by (rule up_read [where k = 2]) (simp_all add: demo_pipe_def upRead_def copyBuf_def)
  from ug_near_move [OF _ _, of False 0 "?U ?N0 ?F0 demo_link" ?N1 1 0 demo_link True] this
  have "ug_step False True 1 0 0 (?U ?N0 ?F0 demo_link) (?U ?N1 ?F0 demo_link)" by (simp add: near_link_def demo_pipe_def demo_link_def)
  with r0 have r1: "?reach (?U ?N1 ?F0 demo_link)" by (rule reach.reach_step)
  have "upWrite 0 ?b ?N1 = ?N2" by (simp add: demo_pipe_def upWrite_def demo_write)
  then have m: "pipe_move False 0 ?N1 ?N2" using up_write [of ?N1 ?b False 0] by simp
  have "lk_step 1 0 0 demo_link ?L2" using step_send [OF send_write [of 0 ?b demo_link 2 None ?a 1]] by (simp add: demo_link_def demo_write)
  with m have "ug_step False True 1 0 0 (?U ?N1 ?F0 demo_link) (?U ?N2 ?F0 ?L2)"
    using ug_near_move [of False 0 "?U ?N1 ?F0 demo_link" ?N2 1 0 ?L2 True] by (simp add: near_link_def demo_pipe_def sends_def)
  with r1 have r2: "?reach (?U ?N2 ?F0 ?L2)" by (rule reach.reach_step)
  have open_sent: "concat (w_calls (s_conn demo_server)) = frame_bytes (FrameOpen, 1, [])" by (simp add: demo_server_eq)
  have wire: "lk_wire ?L2 = frame_bytes (FrameData, 1, ?b)" "lk_b ?L2 = demo_client" "lk_alive ?L2" "lk_wait ?L2 = None"
    using open_sent by (simp_all add: sends_def sent_def demo_link_def demo_write w_bytes_def)
  have rf: "readFrame \<lparr>r_bytes = lk_wire ?L2, r_end = EOF\<rparr> = (Inr (FrameData, 1, ?b), \<lparr>r_bytes = [], r_end = EOF\<rparr>)"
    using readFrame_frame_bytes [of ?b "\<lparr>r_bytes = lk_wire ?L2, r_end = EOF\<rparr>" FrameData 1 "[]"] by (simp add: wire(1) MaxPayload_def)
  have "dispatch 0 False (FrameData, 1, ?b) (liveRead 0 (length (lk_wire ?L2)) demo_client) = Next ?c"
    by (rule demo_dispatch)
  then have "lk_recv 0 ?L2 ?L3" using recv_frame [OF wire(3,4) rf] by (simp add: wire)
  then have "lk_step 1 0 0 ?L2 ?L3" by (rule step_recv)
  then have "ug_step False True 1 0 0 (?U ?N2 ?F0 ?L2) (?U ?N2 ?F3 ?L3)"
    using ug_between [of 1 0 0 "?U ?N2 ?F0 ?L2" ?L3 False True] by (simp add: sends_def demo_pipe_def)
  with r2 have r3: "?reach (?U ?N2 ?F3 ?L3)" by (rule reach.reach_step)
  have "fst (Read copyBuf 0 ?c) = RData ?b" using demo_read [of ?b] by (simp add: copyBuf_def)
  then obtain d where rd: "Read copyBuf 0 ?c = (RData ?b, d)" by (metis prod.collapse)
  let ?L4 = "?L3\<lparr>lk_b := d, lk_out := ?b\<rparr>" and ?F4 = "?F3\<lparr>pp_sess := d, pp_got := ?b, pp_down := Holding ?b\<rparr>"
  from rd have "pipe_move True 0 ?F3 ?F4" by (intro down_read) (simp_all add: demo_pipe_def downRead_def)
  moreover have "lk_step 1 0 0 ?L3 ?L4" using step_recv [OF recv_read [of copyBuf 0 ?L3 "RData ?b" d]] rd
    by (simp add: copyBuf_def sends_def demo_link_def)
  ultimately have "ug_step False True 1 0 0 (?U ?N2 ?F3 ?L3) (?U ?N2 ?F4 ?L4)"
    using ug_far_move [of True 0 "?U ?N2 ?F3 ?L3" ?F4 1 0 ?L4 False] by (simp add: far_link_def)
  with r3 have r4: "?reach (?U ?N2 ?F4 ?L4)" by (rule reach.reach_step)
  have "pipe_move True 0 ?F4 (downWrite 2 ?b ?F4)" by (rule down_write) simp
  then have "ug_step False True 1 0 0 (?U ?N2 ?F4 ?L4) (?U ?N2 (downWrite 2 ?b ?F4) ?L4)"
    using ug_far_move [of True 0 "?U ?N2 ?F4 ?L4" "downWrite 2 ?b ?F4" 1 0 ?L4 False] by (simp add: far_link_def downWrite_def demo_pipe_def)
  with r4 have "?reach (?U ?N2 (downWrite 2 ?b ?F4) ?L4)" by (rule reach.reach_step)
  then show ?thesis by (rule that) (simp_all add: downWrite_def demo_pipe_def)
qed

theorem upgrade_transparent_witness:
  "\<exists>U. reach (ug_init 1 0 0) (ug_step False True 1 0 0) U \<and> pp_out (ug_far U) = [104, 105] \<and> (\<exists>rest. pp_arrived (ug_near U) = pp_out (ug_far U) @ rest)"
proof -
  obtain U where "reach (ug_init 1 0 0) (ug_step False True 1 0 0) U" "pp_out (ug_far U) = [104, 105]" by (rule demo_upgrade_run)
  with upgrade_transparent show ?thesis by blast
qed

end
