(* ===== verification/Session_Run.thy ===== *)
theory Session_Run
  imports Link_Fifo
begin

text \<open>
  A running session, \<^verbatim>\<open>Run\<close> in \<^verbatim>\<open>internal/mux/session.go\<close> with the two goroutines of \<^verbatim>\<open>startHeartbeat\<close>: the read loop, the pinger and the watchdog, which share the session and
  the channels \<^verbatim>\<open>stop\<close> and \<^verbatim>\<open>done\<close>, under every interleaving of them with the users of the session and with the connection.
\<close>

section \<open>State\<close>

text \<open>Where \<^verbatim>\<open>Run\<close> is: reading a frame, waiting in \<^verbatim>\<open>pushData\<close>, behind the read loop with its error, returned.\<close>

datatype runner = Reading | Pushing nat bytes | Failed err | RunReturned "err option"

text \<open>
  \<open>rs_in\<close> is what has arrived on the connection and was not read, \<open>rs_cut\<close> whether nothing more will arrive; \<open>rs_stop\<close> is the closed channel \<^verbatim>\<open>stop\<close>, \<open>rs_pinger\<close>
  and \<open>rs_watchdog\<close> tell whether the two goroutines run.
\<close>

record sess_run =
  rs_sess :: session
  rs_in :: bytes
  rs_cut :: bool
  rs_run :: runner
  rs_idle :: int
  rs_stop :: bool
  rs_pinger :: bool
  rs_watchdog :: bool

definition startRun :: "int \<Rightarrow> session \<Rightarrow> sess_run" where
  "startRun now s =
     \<lparr>rs_sess = markRecv now s, rs_in = [], rs_cut = False, rs_run = Reading, rs_idle = idleTimeout s, rs_stop = False,
      rs_pinger = True, rs_watchdog = True\<rparr>"

section \<open>The read loop, one round at a time\<close>

text \<open>Whether \<^verbatim>\<open>readFrame\<close> needs more bytes than there are, and whether the connection will not deliver them.\<close>

definition needsMore :: "bytes \<Rightarrow> bool" where
  "needsMore b \<longleftrightarrow> length b < HeaderSize \<or>
     (let n = Uint32 (take 4 (drop 5 b)) in n \<le> of_nat MaxPayload \<and> length b < HeaderSize + unat n)"

definition conn_over :: "sess_run \<Rightarrow> bool" where
  "conn_over R \<longleftrightarrow> rs_cut R \<or> w_closed (s_conn (rs_sess R))"

text \<open>\<open>None\<close> while the goroutine needsMore, or has returned; \<open>e\<close> is the error with which the connection ends.\<close>

definition loopRound :: "err \<Rightarrow> int \<Rightarrow> bool \<Rightarrow> sess_run \<Rightarrow> sess_run option" where
  "loopRound e now pick R =
     (case rs_run R of
        Reading \<Rightarrow>
          if needsMore (rs_in R) \<and> \<not> conn_over R then None
          else (case readFrame \<lparr>r_bytes = rs_in R, r_end = e\<rparr> of (x, rd) \<Rightarrow>
             let s = liveRead now (length (rs_in R) - length (r_bytes rd)) (rs_sess R);
                 R1 = R\<lparr>rs_sess := s, rs_in := r_bytes rd\<rparr>
             in Some (case x of
                  Inl e1 \<Rightarrow> R1\<lparr>rs_run := Failed (if e1 = EOF then ErrUnexpectedEOF else e1)\<rparr>
                | Inr f \<Rightarrow>
                    (case dispatch now pick f s of
                       Next s1 \<Rightarrow> R1\<lparr>rs_sess := s1\<rparr>
                     | Block s1 \<Rightarrow> R1\<lparr>rs_sess := s1, rs_run := Pushing (the (getStream (fst (snd f)) s)) (snd (snd f))\<rparr>
                     | Fail e1 \<Rightarrow> R1\<lparr>rs_run := Failed e1\<rparr>)))
      | Pushing r p \<Rightarrow>
          (case pushSelect pick r p (rs_sess R) of
             None \<Rightarrow> None
           | Some s1 \<Rightarrow> Some (R\<lparr>rs_sess := (markRecv now s1)\<lparr>s_stalled := False\<rparr>, rs_run := Reading\<rparr>))
      | Failed e1 \<Rightarrow>
          (case finishRun e1 (rs_sess R) of (res, s1) \<Rightarrow> Some (R\<lparr>rs_sess := s1, rs_run := RunReturned res, rs_stop := True\<rparr>))
      | RunReturned res \<Rightarrow> None)"

section \<open>The heartbeat\<close>

text \<open>The cases of the pinger's \<^verbatim>\<open>select\<close>; a write that fails ends the goroutine.\<close>

definition pingerPing :: "64 word \<Rightarrow> sess_run \<Rightarrow> sess_run" where
  "pingerPing t R = (case pingTick t (rs_sess R) of (e, s) \<Rightarrow> R\<lparr>rs_sess := s, rs_pinger := e = None\<rparr>)"

definition pingerPong :: "sess_run \<Rightarrow> sess_run option" where
  "pingerPong R = (case pongTick (rs_sess R) of None \<Rightarrow> None | Some (e, s) \<Rightarrow> Some (R\<lparr>rs_sess := s, rs_pinger := e = None\<rparr>))"

text \<open>The cases \<^verbatim>\<open>stop\<close> and \<^verbatim>\<open>done\<close>, of both goroutines.\<close>

definition told :: "sess_run \<Rightarrow> bool" where
  "told R \<longleftrightarrow> rs_stop R \<or> s_done (rs_sess R)"

text \<open>A tick of the watchdog; without effect it goes round its loop.\<close>

definition watchdogRound :: "int \<Rightarrow> sess_run \<Rightarrow> sess_run" where
  "watchdogRound now R =
     (if s_stalled (rs_sess R) then R
      else if rs_idle R < silence now (rs_sess R)
      then R\<lparr>rs_sess := CloseWithError ErrIdleTimeout (rs_sess R), rs_watchdog := False\<rparr>
      else R)"

section \<open>Steps\<close>

text \<open>
  \<open>sr_move\<close>: a goroutine gets on; \<open>sr_env\<close>: the users of the session, the connection, and ticks that change nothing for the goroutines. The connection may also be closed under
  the session: that is how \<^verbatim>\<open>connectOnce\<close> (\<^verbatim>\<open>internal/client/tunnel.go\<close>) ends it when its context is cancelled.
\<close>

inductive sr_move :: "sess_run \<Rightarrow> sess_run \<Rightarrow> bool" where
  mv_loop: "loopRound e now pick R = Some S \<Longrightarrow> sr_move R S"
| mv_pinger: "rs_pinger R \<Longrightarrow> told R \<Longrightarrow> sr_move R (R\<lparr>rs_pinger := False\<rparr>)"
| mv_watchdog: "rs_watchdog R \<Longrightarrow> told R \<Longrightarrow> sr_move R (R\<lparr>rs_watchdog := False\<rparr>)"
| mv_fire: "rs_watchdog R \<Longrightarrow> \<not> s_stalled (rs_sess R) \<Longrightarrow> rs_idle R < silence now (rs_sess R) \<Longrightarrow> sr_move R (watchdogRound now R)"

inductive user_op :: "session \<Rightarrow> session \<Rightarrow> bool" where
  user_open: "user_op s (snd (OpenStream meta s))"
| user_read: "r < length (s_heap s) \<Longrightarrow> user_op s (snd (Read n r s))"
| user_write: "r < length (s_heap s) \<Longrightarrow> user_op s (snd (Write r b s))"
| user_closeWrite: "r < length (s_heap s) \<Longrightarrow> user_op s (snd (CloseWrite r s))"
| user_abort: "r < length (s_heap s) \<Longrightarrow> user_op s (Abort r s)"
| user_close: "user_op s (CloseWithError e s)"

inductive sr_env :: "sess_run \<Rightarrow> sess_run \<Rightarrow> bool" where
  env_user: "user_op (rs_sess R) s \<Longrightarrow> sr_env R (R\<lparr>rs_sess := s\<rparr>)"
| env_ping: "rs_pinger R \<Longrightarrow> sr_env R (pingerPing t R)"
| env_pong: "rs_pinger R \<Longrightarrow> pingerPong R = Some S \<Longrightarrow> sr_env R S"
| env_arrive: "\<not> conn_over R \<Longrightarrow> sr_env R (R\<lparr>rs_in := rs_in R @ b\<rparr>)"
| env_cut: "sr_env R (R\<lparr>rs_cut := True\<rparr>)"
| env_closeConn: "sr_env R (R\<lparr>rs_sess := (rs_sess R)\<lparr>s_conn := (s_conn (rs_sess R))\<lparr>w_closed := True\<rparr>\<rparr>\<rparr>)"
| env_lose: "conn_over R \<Longrightarrow> sr_env R (R\<lparr>rs_in := take k (rs_in R)\<rparr>)"

definition sr_step :: "sess_run \<Rightarrow> sess_run \<Rightarrow> bool" where
  "sr_step R S \<longleftrightarrow> sr_move R S \<or> sr_env R S"

definition sr_init :: "sess_run \<Rightarrow> bool" where
  "sr_init R \<longleftrightarrow> (\<exists>now s. mux_init s \<and> R = startRun now s)"

section \<open>The invariant\<close>

definition run_ok :: "sess_run \<Rightarrow> bool" where
  "run_ok R \<longleftrightarrow>
     sess_ok (rs_sess R) \<and> (rs_stop R \<longleftrightarrow> (\<exists>e. rs_run R = RunReturned e)) \<and>
     (\<forall>e. rs_run R = RunReturned e \<longrightarrow> s_done (rs_sess R) \<and> e = s_closeErr (rs_sess R)) \<and>
     (s_stalled (rs_sess R) \<longleftrightarrow> (\<exists>r p. rs_run R = Pushing r p)) \<and>
     (\<forall>r p. rs_run R = Pushing r p \<longrightarrow> r < length (s_heap (rs_sess R))) \<and>
     (\<not> rs_watchdog R \<longrightarrow> s_done (rs_sess R))"

lemma done_closed: "sess_ok s \<Longrightarrow> s_done s = s_closed s"
  by (simp add: sess_ok_def close_ok_def)

lemma done_stays:
  assumes "mux_op s t" and "sess_ok s"
  shows "sess_ok t" and "s_done s \<Longrightarrow> s_done t \<and> s_closeErr t = s_closeErr s"
proof -
  show t: "sess_ok t" using assms by (rule mux_op_ok)
  show "s_done s \<Longrightarrow> s_done t \<and> s_closeErr t = s_closeErr s"
    using mux_op_closed [OF assms] done_closed [OF t] done_closed [OF assms(2)] by blast
qed

text \<open>Only the read loop touches \<^verbatim>\<open>stalled\<close>.\<close>

lemma shutdown_stalled: "sess_ok s \<Longrightarrow> s_stalled (shutdown e s) = s_stalled s"
proof (cases "s_closeOnce s")
  case False
  assume "sess_ok s"
  from shutdown_open [OF this False, of e] obtain h where "shutdown e s = s\<lparr>s_closeOnce := True, s_closed := True, s_closeErr := Some e,
      s_heap := h, s_done := True, s_conn := (s_conn s)\<lparr>w_closed := True\<rparr>\<rparr>" by metis
  then show ?thesis by simp
qed (simp add: shutdown_def)

lemma closing_stalled:
  "sess_ok s \<Longrightarrow> s_stalled (CloseWithError e s) = s_stalled s" "sess_ok s \<Longrightarrow> s_stalled (snd (finishRun e s)) = s_stalled s"
  by (simp_all add: CloseWithError_def finishRun_def Let_def fireOnClose_def shutdown_stalled)

lemma writeFrame_stalled [simp]: "s_stalled (snd (sess_writeFrame t i p s)) = s_stalled s"
  by (simp add: sess_writeFrame_def split: prod.splits)

lemma user_op_mux: "user_op s t \<Longrightarrow> mux_op s t"
  by (induction rule: user_op.induct) (auto intro: mux_op.intros)

lemma user_op_stalled: "user_op s t \<Longrightarrow> sess_ok s \<Longrightarrow> s_stalled t = s_stalled s"
proof (induction rule: user_op.induct)
  case (user_open s meta)
  let ?s3 = "s\<lparr>s_nextID := s_nextID s + 2, s_heap := s_heap s @ [newStream (s_nextID s)],
      s_streams := AList.update (s_nextID s) (length (s_heap s)) (s_streams s)\<rparr>"
  obtain e s4 where s4: "sess_writeFrame FrameOpen (s_nextID s) meta ?s3 = (e, s4)" by fastforce
  with writeFrame_stalled [of FrameOpen "s_nextID s" meta ?s3] have "s_stalled s4 = s_stalled s" by simp
  with s4 show ?case by (cases e) (simp_all add: OpenStream_def alloc_def Let_def removeStream_def)
next
  case (user_write r s b)
  then show ?case using Write_conn_only [of s r b] by (auto simp: conn_only_def)
next
  case (user_closeWrite r s)
  then show ?case
    using CloseWrite_net [OF user_closeWrite(1) _ _ refl]
    by (cases "sentClose (strm s r) \<or> rst (strm s r)") (auto simp: CloseWrite_def remove_def removeStream_def upd_def)
next
  case (user_abort r s)
  then show ?case using Abort_net [OF user_abort(2,1) _ refl] by (cases "rst (strm s r)") (auto simp: Abort_def upd_def removeStream_def)
qed (simp_all add: Read_def upd_def closing_stalled split: prod.splits)

lemma dispatch_stalled: "dispatch now pick f s = Next t \<Longrightarrow> \<not> s_stalled s \<Longrightarrow> \<not> s_stalled t"
  by (cases f)
     (auto simp: dispatch_def alloc_def markRecv_def remoteClose_def remoteReset_def remove_def removeStream_def upd_def
        signalAbort_def markReadDone_def closeEof_def Let_def split: if_splits option.splits)

lemma liveRead_fields [simp]: "s_stalled (liveRead now n s) = s_stalled s"
  by (simp add: liveRead_def markRecv_def)

lemma loopRound_ok:
  assumes step: "loopRound e now pick R = Some S" and inv: "run_ok R"
  shows "run_ok S \<and> (s_done (rs_sess R) \<longrightarrow> s_closeErr (rs_sess S) = s_closeErr (rs_sess R) \<and> s_done (rs_sess S))"
proof (cases "rs_run R")
  case Reading
  obtain x rd where rf: "readFrame \<lparr>r_bytes = rs_in R, r_end = e\<rparr> = (x, rd)" by fastforce
  let ?s = "liveRead now (length (rs_in R) - length (r_bytes rd)) (rs_sess R)"
  have ok: "sess_ok ?s" "s_done ?s = s_done (rs_sess R)" "\<not> s_stalled ?s" "s_closeErr ?s = s_closeErr (rs_sess R)"
    using inv Reading by (auto simp: run_ok_def liveRead_def markRecv_def)
  from inv Reading have base: "\<not> rs_stop R" "\<not> rs_watchdog R \<longrightarrow> s_done (rs_sess R)" by (auto simp: run_ok_def)
  show ?thesis
  proof (cases x)
    case (Inl e1)
    with step Reading rf ok base show ?thesis by (auto simp: loopRound_def Let_def run_ok_def split: if_splits)
  next
    case (Inr f)
    show ?thesis
    proof (cases "dispatch now pick f ?s")
      case (Next s1)
      note d = done_stays [OF mux_op.op_frame [OF Next] ok(1)] dispatch_stalled [OF Next ok(3)]
      from step Reading rf Inr Next have "S = R\<lparr>rs_in := r_bytes rd, rs_sess := s1\<rparr>" by (simp add: loopRound_def Let_def split: if_splits)
      with d ok(2,4) base Reading show ?thesis by (simp add: run_ok_def)
    next
      case (Block s1)
      from dispatch_Block [OF Block] obtain i r p where f: "f = (FrameData, i, p)" "getStream i ?s = Some r" "s1 = ?s\<lparr>s_stalled := True\<rparr>" .
      from step Reading rf Inr Block f have "S = R\<lparr>rs_in := r_bytes rd, rs_sess := s1, rs_run := Pushing r p\<rparr>"
        by (simp add: loopRound_def Let_def split: if_splits)
      moreover have "r < length (s_heap s1)" using getStream_ok [OF ok(1) f(2)] f(3) by simp
      ultimately show ?thesis using done_stays [OF mux_op.op_stall [OF Block] ok(1)] f(3) ok(2,4) base by (simp add: run_ok_def)
    next
      case (Fail e1)
      with step Reading rf Inr ok base show ?thesis by (auto simp: loopRound_def Let_def run_ok_def split: if_splits)
    qed
  qed
next
  case (Pushing r p)
  from step Pushing obtain s1 where s1: "pushSelect pick r p (rs_sess R) = Some s1"
    and S: "S = R\<lparr>rs_sess := (markRecv now s1)\<lparr>s_stalled := False\<rparr>, rs_run := Reading\<rparr>"
    by (auto simp: loopRound_def split: option.splits)
  have r: "sess_ok (rs_sess R)" "r < length (s_heap (rs_sess R))" using inv Pushing by (auto simp: run_ok_def)
  have "sess_ok s1" "s_done s1 = s_done (rs_sess R)" "s_closeErr s1 = s_closeErr (rs_sess R)"
    using pushSelect_ok [OF r s1] s1 by (auto elim: pushSelect_cases)
  with inv Pushing show ?thesis by (auto simp: run_ok_def S markRecv_def)
next
  case (Failed e1)
  obtain res s1 where f: "finishRun e1 (rs_sess R) = (res, s1)" by fastforce
  have ok: "sess_ok (rs_sess R)" "\<not> s_stalled (rs_sess R)" using inv Failed by (auto simp: run_ok_def)
  have "sess_ok s1" using finishRun_ok [OF ok(1), of e1] f by simp
  moreover have "s_closed s1" "s_closeErr s1 = res" "\<not> s_stalled s1"
    using f shutdown_fields [OF ok(1), of e1] closing_stalled(2) [OF ok(1), of e1] ok(2) by (auto simp: finishRun_def Let_def fireOnClose_def)
  ultimately show ?thesis using step Failed f done_closed done_stays(2) [OF mux_op.op_finish ok(1), of e1]
    by (auto simp: loopRound_def run_ok_def)
qed (use step in \<open>simp add: loopRound_def\<close>)

lemma stop_done: "run_ok R \<Longrightarrow> told R \<Longrightarrow> s_done (rs_sess R)"
  by (auto simp: run_ok_def told_def)

lemma sr_move_ok:
  assumes "sr_move R S" and inv: "run_ok R"
  shows "run_ok S"
  using assms(1)
proof cases
  case (mv_fire now)
  have ok: "sess_ok (rs_sess R)" using inv by (simp add: run_ok_def)
  note d = done_stays [OF mux_op.op_close ok, of ErrIdleTimeout] CloseWithError_done [OF ok, of ErrIdleTimeout] closing_stalled(1) [OF ok, of ErrIdleTimeout]
  have "rs_run R \<noteq> Pushing r p" for r p using inv mv_fire(3) by (auto simp: run_ok_def)
  with d inv mv_fire show ?thesis by (auto simp: run_ok_def watchdogRound_def)
next
  case mv_watchdog
  with inv stop_done [OF inv] show ?thesis by (simp add: run_ok_def)
qed (use inv loopRound_ok in \<open>auto simp: run_ok_def\<close>)

text \<open>Operations that do not stall the session or shrink its heap.\<close>

lemma run_ok_op:
  assumes inv: "run_ok R" and op: "mux_op (rs_sess R) s" and "s_stalled s = s_stalled (rs_sess R)"
  shows "run_ok (R\<lparr>rs_sess := s, rs_pinger := b\<rparr>)"
proof -
  have ok: "sess_ok (rs_sess R)" using inv by (simp add: run_ok_def)
  have "r < length (s_heap s)" if "r < length (s_heap (rs_sess R))" for r using op_grown [OF op ok that] by (simp add: along_def)
  with done_stays [OF op ok] inv assms(3) show ?thesis by (auto simp: run_ok_def)
qed

lemma sess_ok_closeConn: "sess_ok s \<Longrightarrow> sess_ok (s\<lparr>s_conn := (s_conn s)\<lparr>w_closed := True\<rparr>\<rparr>)"
  by (auto simp: sess_ok_def map_ok_def close_ok_def strm_def)

lemma sr_env_ok:
  assumes "sr_env R S" and inv: "run_ok R"
  shows "run_ok S"
proof -
  have ok: "sess_ok (rs_sess R)" using inv by (simp add: run_ok_def)
  from assms(1) show ?thesis
  proof cases
    case (env_user s)
    with run_ok_op [OF inv user_op_mux user_op_stalled [OF _ ok], of s "rs_pinger R"] show ?thesis by simp
  next
    case (env_ping t)
    obtain e s where p: "pingTick t (rs_sess R) = (e, s)" by fastforce
    have "s_stalled (snd (pingTick t (rs_sess R))) = s_stalled (rs_sess R)" by (simp add: pingTick_def)
    with run_ok_op [OF inv, of s "e = None"] mux_op.op_ping [of "rs_sess R" t] p env_ping show ?thesis by (simp add: pingerPing_def)
  next
    case env_pong
    then obtain e s where p: "pongTick (rs_sess R) = Some (e, s)" and S: "S = R\<lparr>rs_sess := s, rs_pinger := e = None\<rparr>"
      by (auto simp: pingerPong_def split: option.splits)
    from p obtain b where "sess_writeFrame FramePong 0 b ((rs_sess R)\<lparr>s_pongs := None\<rparr>) = (e, s)" by (auto simp: pongTick_def split: option.splits)
    with writeFrame_stalled [of FramePong 0 b "(rs_sess R)\<lparr>s_pongs := None\<rparr>"] have "s_stalled s = s_stalled (rs_sess R)" by simp
    with run_ok_op [OF inv mux_op.op_pong [OF p]] show ?thesis by (simp add: S)
  qed (use inv sess_ok_closeConn [OF ok] in \<open>simp_all add: run_ok_def\<close>)
qed

lemma sr_init_ok: "sr_init R \<Longrightarrow> run_ok R"
proof -
  assume "sr_init R"
  then obtain now s where s: "mux_init s" "R = startRun now s" by (auto simp: sr_init_def)
  have "\<not> s_stalled s" using s(1) by (auto simp: mux_init_def NewServerSession_def NewClientSession_def newSession_def)
  with mux_init_ok [OF s(1)] s(2) show ?thesis by (simp add: run_ok_def startRun_def markRecv_def)
qed

interpretation runs: invariant_system sr_init sr_step run_ok
  by unfold_locales (auto simp: sr_step_def intro: sr_init_ok sr_move_ok sr_env_ok)

section \<open>The end of a session\<close>

fun run_rank :: "runner \<Rightarrow> nat" where
  "run_rank Reading = 3"
| "run_rank (Pushing r p) = 4"
| "run_rank (Failed e) = 2"
| "run_rank (RunReturned e) = 0"

definition run_work :: "sess_run \<Rightarrow> nat" where
  "run_work R = 3 * length (rs_in R) + run_rank (rs_run R) + of_bool (rs_pinger R) + of_bool (rs_watchdog R)"

definition run_over :: "sess_run \<Rightarrow> bool" where
  "run_over R \<longleftrightarrow> (\<exists>e. rs_run R = RunReturned e) \<and> \<not> rs_pinger R \<and> \<not> rs_watchdog R"

lemma readFrame_le: "readFrame r = (x, r') \<Longrightarrow> length (r_bytes r') \<le> length (r_bytes r)"
  by (auto simp: readFrame_def ReadFull_def Let_def split: if_splits prod.splits sum.splits)

lemma loopRound_work:
  assumes "loopRound e now pick R = Some S"
  shows "run_work S < run_work R \<and> rs_pinger S = rs_pinger R \<and> rs_watchdog S = rs_watchdog R"
proof (cases "rs_run R")
  case Reading
  obtain x rd where rf: "readFrame \<lparr>r_bytes = rs_in R, r_end = e\<rparr> = (x, rd)" by fastforce
  have le: "length (r_bytes rd) \<le> length (rs_in R)" using readFrame_le [OF rf] by simp
  show ?thesis
  proof (cases x)
    case (Inl e1)
    with assms Reading rf le show ?thesis by (auto simp: loopRound_def Let_def run_work_def split: if_splits)
  next
    case (Inr f)
    then have "length (r_bytes rd) < length (rs_in R)" using readFrame_shrinks [OF sym [OF rf [unfolded Inr]]] by simp
    with assms Reading rf Inr show ?thesis by (auto simp: loopRound_def Let_def run_work_def split: if_splits outcome.splits)
  qed
qed (use assms in \<open>auto simp: loopRound_def run_work_def split: option.splits prod.splits\<close>)

lemma sr_move_work:
  assumes "sr_move R S"
  shows "run_work S < run_work R"
  using assms
proof cases
  case mv_loop
  then show ?thesis using loopRound_work by blast
qed (auto simp: run_work_def watchdogRound_def)

lemma sr_move_done:
  assumes "sr_move R S" and inv: "run_ok R" and d: "s_done (rs_sess R)"
  shows "s_done (rs_sess S) \<and> s_closeErr (rs_sess S) = s_closeErr (rs_sess R)"
  using assms(1)
proof cases
  case (mv_fire now)
  have "sess_ok (rs_sess R)" using inv by (simp add: run_ok_def)
  with done_stays(2) [OF mux_op.op_close] d mv_fire show ?thesis by (simp add: watchdogRound_def)
qed (use d loopRound_ok [OF _ inv] in auto)

lemma sr_progress:
  assumes inv: "run_ok R" and d: "s_done (rs_sess R)" and n: "\<not> run_over R"
  shows "\<exists>S. sr_move R S"
proof -
  have ok: "sess_ok (rs_sess R)" using inv by (simp add: run_ok_def)
  then have c: "conn_over R" using d by (simp add: conn_over_def sess_ok_def close_ok_def)
  consider "rs_pinger R" | "rs_watchdog R" | "\<not> (\<exists>e. rs_run R = RunReturned e)" using n by (auto simp: run_over_def)
  then show ?thesis
  proof cases
    case 1
    with d mv_pinger [of R] show ?thesis by (auto simp: told_def)
  next
    case 2
    with d mv_watchdog [of R] show ?thesis by (auto simp: told_def)
  next
    case 3
    have "\<exists>S. loopRound EOF 0 True R = Some S"
    proof (cases "rs_run R")
      case (Pushing r p)
      have "pushSelect True r p (rs_sess R) \<noteq> None" using d by (simp add: pushSelect_def Let_def)
      with Pushing show ?thesis by (auto simp: loopRound_def)
    qed (use 3 c in \<open>auto simp: loopRound_def Let_def split: prod.splits\<close>)
    then show ?thesis using mv_loop by blast
  qed
qed

interpretation winddown: settling_system sr_move "\<lambda>R. run_ok R \<and> s_done (rs_sess R)" run_work run_over
  using sr_move_ok sr_move_work sr_move_done sr_progress by unfold_locales blast+

lemma moves_closeErr: "sr_move\<^sup>*\<^sup>* R S \<Longrightarrow> run_ok R \<Longrightarrow> s_done (rs_sess R) \<Longrightarrow> s_closeErr (rs_sess S) = s_closeErr (rs_sess R)"
proof (induction rule: rtranclp_induct)
  case (step S T)
  with winddown.steps_keep [OF step.hyps(1)] sr_move_done [OF step.hyps(2)] show ?case by simp
qed simp

text \<open>
  The price of the back-pressure: while the read loop waits for room, it does not see that the connection is gone, and the watchdog does not look.
\<close>

lemma stalled_deaf:
  assumes inv: "run_ok R" and run: "rs_run R = Pushing r p" and full: "chunksCap \<le> length (chunks (strm (rs_sess R) r))"
    and open_: "\<not> eofCh (strm (rs_sess R) r)" "\<not> s_done (rs_sess R)"
  shows "\<not> sr_move R S"
proof
  have t: "\<not> told R" "s_stalled (rs_sess R)" using inv run open_(2) by (auto simp: run_ok_def told_def)
  assume "sr_move R S"
  then show False
    by cases (use t run full open_ in \<open>auto simp: loopRound_def pushSelect_def Let_def\<close>)
qed

section \<open>The model of one goroutine at a time is a special case\<close>

text \<open>\<open>needsMore\<close> is what it should be: otherwise \<^verbatim>\<open>readFrame\<close> does not get to the end of the input, and what it returns does not depend on it.\<close>

lemma ReadFull_enough: "n \<le> length b \<Longrightarrow> ReadFull n \<lparr>r_bytes = b, r_end = e\<rparr> = (Inr (take n b), \<lparr>r_bytes = drop n b, r_end = e\<rparr>)"
  by (simp add: ReadFull_def)

lemma needsMore_ready:
  assumes "\<not> needsMore b"
  shows "\<exists>x rest. \<forall>e. readFrame \<lparr>r_bytes = b, r_end = e\<rparr> = (x, \<lparr>r_bytes = rest, r_end = e\<rparr>)"
proof -
  let ?n = "Uint32 (take 4 (drop 5 b))"
  have h: "HeaderSize \<le> length b" and p: "\<not> of_nat MaxPayload < ?n \<Longrightarrow> unat ?n \<le> length (drop HeaderSize b)"
    using assms by (auto simp: needsMore_def Let_def not_less)
  have n: "take 4 (drop 5 (take HeaderSize b)) = take 4 (drop 5 b)" by (simp add: HeaderSize_def drop_take)
  show ?thesis
  proof (cases "of_nat MaxPayload < ?n \<or> ?n = 0")
    case True
    then show ?thesis by (auto simp: readFrame_def ReadFull_enough [OF h] n Let_def)
  next
    case False
    with p show ?thesis by (simp add: readFrame_def ReadFull_enough [OF h] ReadFull_enough n Let_def)
  qed
qed

text \<open>\<open>readLoop\<close> on an input that ends is a sequence of rounds with nothing in between, and so \<open>Run\<close> is a run.\<close>

lemma loop_rounds:
  assumes "readLoop clk pick k rd s = Stopped e s1" and "rs_run R = Reading" and "rs_cut R" and "rs_in R = r_bytes rd" and "rs_sess R = s"
  shows "\<exists>S. sr_move\<^sup>*\<^sup>* R S \<and> rs_run S = Failed e \<and> rs_sess S = s1"
  using assms
proof (induction clk pick k rd s arbitrary: R rule: readLoop.induct)
  case (1 clk pick k rd s)
  obtain x rd1 where rf: "readFrame rd = (x, rd1)" by fastforce
  let ?s = "liveRead (clk k) (length (r_bytes rd) - length (r_bytes rd1)) s"
  have rd: "readFrame \<lparr>r_bytes = rs_in R, r_end = r_end rd\<rparr> = (x, rd1)" using rf "1.prems"(4) by (cases rd) simp
  have c: "conn_over R" using "1.prems"(3) by (simp add: conn_over_def)
  note loop = readLoop.simps [of clk pick k rd s]
  show ?case
  proof (cases x)
    case (Inl e1)
    with "1.prems" rf rd c
    have "loopRound (r_end rd) (clk k) (pick k) R = Some (R\<lparr>rs_sess := s1, rs_in := r_bytes rd1, rs_run := Failed e\<rparr>)"
      by (auto simp: loopRound_def Let_def loop)
    then show ?thesis by (intro exI [of _ "R\<lparr>rs_sess := s1, rs_in := r_bytes rd1, rs_run := Failed e\<rparr>"]) (auto intro: mv_loop)
  next
    case (Inr f)
    show ?thesis
    proof (cases "dispatch (clk k) (pick k) f ?s")
      case (Next s2)
      let ?R = "R\<lparr>rs_in := r_bytes rd1, rs_sess := s2\<rparr>"
      have "loopRound (r_end rd) (clk k) (pick k) R = Some ?R"
        using "1.prems"(2-) rd c Inr Next by (simp add: loopRound_def Let_def)
      then have "sr_move R ?R" by (rule mv_loop)
      moreover have "\<exists>S. sr_move\<^sup>*\<^sup>* ?R S \<and> rs_run S = Failed e \<and> rs_sess S = s1"
        by (rule "1.IH" [OF sym [OF rf] Inr Next]) (use "1.prems" rf Inr Next in \<open>simp_all add: loop\<close>)
      ultimately show ?thesis by (blast intro: converse_rtranclp_into_rtranclp)
    next
      case (Block s2)
      with "1.prems"(1) rf Inr show ?thesis by (simp add: loop)
    next
      case (Fail e1)
      with "1.prems" rf rd c Inr
      have "loopRound (r_end rd) (clk k) (pick k) R = Some (R\<lparr>rs_sess := s1, rs_in := r_bytes rd1, rs_run := Failed e\<rparr>)"
        by (auto simp: loopRound_def Let_def loop)
      then show ?thesis by (intro exI [of _ "R\<lparr>rs_sess := s1, rs_in := r_bytes rd1, rs_run := Failed e\<rparr>"]) (auto intro: mv_loop)
    qed
  qed
qed

lemma reach_moves: "sr_move\<^sup>*\<^sup>* R S \<Longrightarrow> reach sr_init sr_step R \<Longrightarrow> reach sr_init sr_step S"
  by (induction rule: rtranclp_induct) (auto simp: sr_step_def intro: reach.reach_step)

lemma sequential_run:
  assumes "mux_init s" and "Run now clk pick rd s = Some (e, s')"
  shows "\<exists>R. reach sr_init sr_step R \<and> rs_run R = RunReturned e \<and> rs_sess R = s'"
proof -
  let ?R = "(startRun now s)\<lparr>rs_in := r_bytes rd\<rparr>"
  obtain e1 s1 where l: "readLoop clk pick 0 rd (markRecv now s) = Stopped e1 s1" and f: "finishRun e1 s1 = (e, s')"
    using assms(2) by (auto simp: Run_def split: loop_res.splits)
  have "\<not> conn_over (startRun now s)"
    using assms(1) by (auto simp: conn_over_def startRun_def markRecv_def mux_init_def NewServerSession_def NewClientSession_def newSession_def)
  then have "sr_env (startRun now s) ?R" using env_arrive [of "startRun now s" "r_bytes rd"] by (simp add: startRun_def)
  moreover have "reach sr_init sr_step (startRun now s)" using assms(1) by (intro reach.intros) (auto simp: sr_init_def)
  ultimately have "reach sr_init sr_step ?R" unfolding sr_step_def by (blast intro: reach.reach_step)
  then have r: "reach sr_init sr_step (?R\<lparr>rs_cut := True\<rparr>)" using env_cut [of ?R] by (auto simp: sr_step_def intro: reach.reach_step)
  obtain S where S: "sr_move\<^sup>*\<^sup>* (?R\<lparr>rs_cut := True\<rparr>) S" "rs_run S = Failed e1" "rs_sess S = s1"
    using loop_rounds [OF l, of "?R\<lparr>rs_cut := True\<rparr>"] by (auto simp: startRun_def)
  have "sr_move S (S\<lparr>rs_sess := s', rs_run := RunReturned e, rs_stop := True\<rparr>)"
    by (rule mv_loop [of EOF 0 True]) (simp add: loopRound_def S f)
  with reach_moves [OF S(1) r] show ?thesis by (intro exI [of _ "S\<lparr>rs_sess := s', rs_run := RunReturned e, rs_stop := True\<rparr>"]) (auto simp: sr_step_def intro: reach.reach_step)
qed

section \<open>Properties\<close>

text \<open>
  Property C12. A running session and its goroutines, whatever they, the session's users and the connection do. While the session is not over its watchdog runs, and the
  watchdog is suspended only while the read loop itself needsMore for a slow reader of a stream; so a peer that has been silent for the idle time is noticed, and the next tick ends the session with
  \<^verbatim>\<open>ErrIdleTimeout\<close>. Once a session is over, for whatever reason, its three goroutines need a bounded number of steps and none of them stays behind: \<^verbatim>\<open>Run\<close> returns the
  error with which the session was closed first, the channel \<^verbatim>\<open>stop\<close> and the connection are closed, and nothing was closed twice. But while the read loop waits for room in the full buffer of a
  stream, no goroutine of the session can get on, not even when the connection has been lost or closed under it: only a reader of that stream, its end or the closing of the session helps.
\<close>

theorem session_winds_down:
  assumes "reach sr_init sr_step R"
  shows "(\<not> s_done (rs_sess R) \<longrightarrow> rs_watchdog R) \<and> (s_stalled (rs_sess R) \<longleftrightarrow> (\<exists>r p. rs_run R = Pushing r p)) \<and>
     (\<forall>now. \<not> s_done (rs_sess R) \<and> \<not> s_stalled (rs_sess R) \<and> rs_idle R < silence now (rs_sess R) \<longrightarrow>
        (\<exists>S. sr_move R S \<and> S = watchdogRound now R \<and> s_done (rs_sess S) \<and> s_closeErr (rs_sess S) = Some ErrIdleTimeout)) \<and>
     (s_done (rs_sess R) \<longrightarrow>
        (\<forall>n S. (sr_move ^^ n) R S \<longrightarrow> n \<le> run_work R) \<and>
        (\<forall>S. sr_move\<^sup>*\<^sup>* R S \<and> (\<forall>T. \<not> sr_move S T) \<longrightarrow>
           rs_run S = RunReturned (s_closeErr (rs_sess R)) \<and> \<not> rs_pinger S \<and> \<not> rs_watchdog S \<and> rs_stop S \<and>
           w_closed (s_conn (rs_sess S)) \<and> \<not> s_panicked (rs_sess S))) \<and>
     (\<forall>r p. rs_run R = Pushing r p \<and> chunksCap \<le> length (chunks (strm (rs_sess R) r)) \<and> \<not> eofCh (strm (rs_sess R) r) \<and> \<not> s_done (rs_sess R) \<longrightarrow>
        (\<forall>S. \<not> sr_move R S))"
proof -
  have inv: "run_ok R" using assms by (rule runs.reach_inv)
  then have ok: "sess_ok (rs_sess R)" by (simp add: run_ok_def)
  have fire: "\<exists>S. sr_move R S \<and> S = watchdogRound now R \<and> s_done (rs_sess S) \<and> s_closeErr (rs_sess S) = Some ErrIdleTimeout"
    if "\<not> s_done (rs_sess R)" "\<not> s_stalled (rs_sess R)" "rs_idle R < silence now (rs_sess R)" for now
    using mv_fire [OF _ that(2,3)] CloseWithError_fresh [OF ok that(1)] CloseWithError_done [OF ok] inv that by (auto simp: watchdogRound_def run_ok_def)
  have bound: "n \<le> run_work R" if "s_done (rs_sess R)" "(sr_move ^^ n) R S" for n S using winddown.bounded [OF that(2)] inv that(1) by blast
  have last: "rs_run S = RunReturned (s_closeErr (rs_sess R)) \<and> \<not> rs_pinger S \<and> \<not> rs_watchdog S \<and> rs_stop S \<and>
      w_closed (s_conn (rs_sess S)) \<and> \<not> s_panicked (rs_sess S)"
    if "s_done (rs_sess R)" "sr_move\<^sup>*\<^sup>* R S" "\<forall>T. \<not> sr_move S T" for S
  proof -
    have "run_over S" "run_ok S \<and> s_done (rs_sess S)" using winddown.stuck_final [OF _ that(2,3)] winddown.steps_keep [OF that(2)] inv that(1) by blast+
    with moves_closeErr [OF that(2) inv that(1)] show ?thesis by (auto simp: run_over_def run_ok_def sess_ok_def close_ok_def)
  qed
  from inv have "\<not> s_done (rs_sess R) \<longrightarrow> rs_watchdog R" "s_stalled (rs_sess R) \<longleftrightarrow> (\<exists>r p. rs_run R = Pushing r p)" by (auto simp: run_ok_def)
  with fire bound last stalled_deaf [OF inv] show ?thesis by blast
qed

text \<open>A server session whose peer stays silent for 46 seconds: the watchdog ends it, and everything returns.\<close>

theorem session_winds_down_witness:
  "\<exists>R S. reach sr_init sr_step R \<and> s_done (rs_sess R) \<and> sr_move\<^sup>*\<^sup>* R S \<and> rs_run S = RunReturned (Some ErrIdleTimeout) \<and> \<not> rs_pinger S \<and> \<not> rs_watchdog S"
proof -
  let ?s = "NewServerSession fresh_conn" and ?now = "46000000000 :: int"
  let ?R = "startRun 0 ?s"
  have "mux_init ?s" unfolding mux_init_def
    by (rule exI [of _ fresh_conn], rule exI [of _ False], rule exI [of _ False], rule exI [of _ 0], rule exI [of _ 0])
       (simp add: fresh_conn_def NewServerSession_def newSession_def)
  then have r: "reach sr_init sr_step ?R" by (intro reach.intros) (auto simp: sr_init_def)
  have "\<not> s_done (rs_sess ?R)" "\<not> s_stalled (rs_sess ?R)" "rs_idle ?R < silence ?now (rs_sess ?R)"
    by (simp_all add: startRun_def NewServerSession_def newSession_def markRecv_def silence_def idleTimeout_def DefaultIdleTimeout_def)
  with session_winds_down [OF r] obtain Q where Q: "sr_move ?R Q" "s_done (rs_sess Q)" "s_closeErr (rs_sess Q) = Some ErrIdleTimeout" by blast
  have q: "reach sr_init sr_step Q" using r Q(1) by (auto simp: sr_step_def intro: reach.reach_step)
  with Q(2) obtain S where S: "sr_move\<^sup>*\<^sup>* Q S" "run_over S" using winddown.settles [of Q] runs.reach_inv by blast
  have "\<forall>T. \<not> sr_move S T"
    using S(2) by (auto simp: run_over_def loopRound_def elim!: sr_move.cases)
  with session_winds_down [OF q] Q S q show ?thesis by metis
qed

end
