(* ===== verification/Cancel.thy ===== *)
theory Cancel
  imports Link_Fifo
begin

text \<open>
  A viewer who leaves: between sending a request and the end of its response the server watches the viewer's request and the time
  (\<^verbatim>\<open>proxyTo\<close> in \<^verbatim>\<open>internal/server/proxy.go\<close>) and aborts the stream; at the client, a goroutine beside the call of the local service waits for the abort and cancels
  that call (\<^verbatim>\<open>servePlain\<close> in \<^verbatim>\<open>internal/client/forwarder.go\<close>). Both, with the stream between them (\<open>Link\<close>), in every interleaving.
\<close>

section \<open>State\<close>

text \<open>The server's handler: before \<^verbatim>\<open>CloseWrite\<close>, waiting for the response's headers, relaying the body, returned. The client's: before the local call, in it, returned.\<close>

datatype asking = AskSending | AskWaiting | AskRelaying | AskLeft

datatype serving_local = Receiving | Calling | Served

text \<open>
  \<open>vs_gone\<close>: the viewer's request is over; \<open>vs_watch\<close> and \<open>vs_timer\<close>: the functions of \<^verbatim>\<open>context.AfterFunc\<close> and \<^verbatim>\<open>time.AfterFunc\<close> are registered and have neither run nor been
  stopped; \<open>vs_ctx\<close>: the context of the local call is cancelled; \<open>vs_guard\<close>: the goroutine beside it runs.
\<close>

record visit =
  vs_link :: link
  vs_ask :: asking
  vs_gone :: bool
  vs_watch :: bool
  vs_timer :: bool
  vs_local :: serving_local
  vs_ctx :: bool
  vs_guard :: bool

section \<open>Steps\<close>

definition armWatch :: "visit \<Rightarrow> visit" where
  "armWatch V = V\<lparr>vs_ask := AskWaiting, vs_watch := True, vs_timer := True\<rparr>"

definition abortLink :: "nat \<Rightarrow> link \<Rightarrow> link" where
  "abortLink r L = sends (Abort r (lk_a L)) L"

definition watchFires :: "nat \<Rightarrow> visit \<Rightarrow> visit" where
  "watchFires r V = V\<lparr>vs_link := abortLink r (vs_link V), vs_watch := False\<rparr>"

definition timerFires :: "nat \<Rightarrow> visit \<Rightarrow> visit" where
  "timerFires r V = V\<lparr>vs_link := abortLink r (vs_link V), vs_timer := False\<rparr>"

text \<open>\<^verbatim>\<open>headerTimer.Stop\<close> after the headers; the deferred \<^verbatim>\<open>stopWatch\<close> when the handler returns.\<close>

definition headersArrive :: "visit \<Rightarrow> visit" where
  "headersArrive V = V\<lparr>vs_ask := AskRelaying, vs_timer := False\<rparr>"

definition leave :: "visit \<Rightarrow> visit" where
  "leave V = V\<lparr>vs_ask := AskLeft, vs_watch := False, vs_timer := False\<rparr>"

definition startCall :: "visit \<Rightarrow> visit" where
  "startCall V = V\<lparr>vs_local := Calling, vs_guard := True\<rparr>"

text \<open>The two cases of the goroutine's \<^verbatim>\<open>select\<close>, and the deferred \<^verbatim>\<open>cancel\<close>.\<close>

definition guardAborted :: "visit \<Rightarrow> visit" where
  "guardAborted V = V\<lparr>vs_ctx := True, vs_guard := False\<rparr>"

definition guardDone :: "visit \<Rightarrow> visit" where
  "guardDone V = V\<lparr>vs_guard := False\<rparr>"

definition serveReturns :: "visit \<Rightarrow> visit" where
  "serveReturns V = V\<lparr>vs_local := Served, vs_ctx := True\<rparr>"

text \<open>\<open>vs_go\<close>: what follows by itself once the viewer has left. \<open>vs_step\<close>: everything.\<close>

inductive vs_go :: "nat \<Rightarrow> nat \<Rightarrow> visit \<Rightarrow> visit \<Rightarrow> bool" for r q where
  go_watch: "vs_gone V \<Longrightarrow> vs_watch V \<Longrightarrow> vs_go r q V (watchFires r V)"
| go_read: "lk_recv q (vs_link V) M \<Longrightarrow> vs_go r q V (V\<lparr>vs_link := M\<rparr>)"
| go_guard: "vs_guard V \<Longrightarrow> aborted (strm (lk_b (vs_link V)) q) \<Longrightarrow> vs_go r q V (guardAborted V)"
| go_done: "vs_guard V \<Longrightarrow> vs_ctx V \<Longrightarrow> vs_go r q V (guardDone V)"

inductive vs_step :: "u32 \<Rightarrow> nat \<Rightarrow> nat \<Rightarrow> visit \<Rightarrow> visit \<Rightarrow> bool" for i r q where
  vs_goes: "vs_go r q V W \<Longrightarrow> vs_step i r q V W"
| vs_arm: "vs_ask V = AskSending \<Longrightarrow> lk_fin (vs_link V) \<Longrightarrow> vs_step i r q V (armWatch V)"
| vs_leaves: "vs_step i r q V (V\<lparr>vs_gone := True\<rparr>)"
| vs_timeout: "vs_timer V \<Longrightarrow> vs_step i r q V (timerFires r V)"
| vs_headers: "vs_ask V = AskWaiting \<Longrightarrow> vs_timer V \<Longrightarrow> vs_step i r q V (headersArrive V)"
| vs_return: "vs_step i r q V (leave V)"
| vs_start: "vs_local V = Receiving \<Longrightarrow> vs_step i r q V (startCall V)"
| vs_served: "vs_local V = Calling \<Longrightarrow> vs_step i r q V (serveReturns V)"
| vs_conn: "lk_step i r q (vs_link V) M \<Longrightarrow> vs_step i r q V (V\<lparr>vs_link := M\<rparr>)"

definition vs_init :: "u32 \<Rightarrow> nat \<Rightarrow> nat \<Rightarrow> visit \<Rightarrow> bool" where
  "vs_init i r q V \<longleftrightarrow> link_init i r q (vs_link V) \<and> vs_ask V = AskSending \<and> \<not> vs_gone V \<and> \<not> vs_watch V \<and> \<not> vs_timer V \<and>
     vs_local V = Receiving \<and> \<not> vs_ctx V \<and> \<not> vs_guard V"

section \<open>The invariant\<close>

text \<open>A watch exists only while its handler waits or relays; a local call is cancelled only by its own end or by the end of its stream.\<close>

definition visit_ok :: "u32 \<Rightarrow> nat \<Rightarrow> nat \<Rightarrow> visit \<Rightarrow> bool" where
  "visit_ok i r q V \<longleftrightarrow> link_ok i r q (vs_link V) \<and>
     (vs_watch V \<or> vs_timer V \<longrightarrow> vs_ask V = AskWaiting \<or> vs_ask V = AskRelaying) \<and>
     (vs_ctx V \<longrightarrow> vs_local V = Served \<or> aborted (strm (lk_b (vs_link V)) q)) \<and>
     (vs_local V = Served \<longrightarrow> vs_ctx V) \<and> (vs_local V = Calling \<longrightarrow> vs_guard V \<or> vs_ctx V)"

lemma visit_link:
  assumes "visit_ok i r q V" and "lk_step i r q (vs_link V) M"
  shows "visit_ok i r q (V\<lparr>vs_link := M\<rparr>)"
  using assms lk_step_ok [OF assms(2)] lk_step_grown [OF assms(2)] by (auto simp: visit_ok_def along_def st_grow_def)

lemma abort_step: "lk_step i r q L (abortLink r L)"
  unfolding abortLink_def by (intro step_send send_abort)

lemma visit_abort: "visit_ok i r q V \<Longrightarrow> visit_ok i r q (V\<lparr>vs_link := abortLink r (vs_link V)\<rparr>)"
  using visit_link abort_step by blast

lemma vs_go_ok:
  assumes "vs_go r q V W" and inv: "visit_ok i r q V"
  shows "visit_ok i r q W"
  using assms(1)
proof cases
  case go_watch
  with visit_abort [OF inv] show ?thesis by (simp add: visit_ok_def watchFires_def)
next
  case (go_read M)
  with visit_link [OF inv] show ?thesis by (blast intro: step_recv)
qed (use inv in \<open>auto simp: visit_ok_def guardAborted_def guardDone_def\<close>)

lemma vs_step_ok:
  assumes "vs_step i r q V W" and inv: "visit_ok i r q V"
  shows "visit_ok i r q W"
  using assms(1)
proof cases
  case vs_goes
  then show ?thesis using inv by (rule vs_go_ok)
next
  case vs_timeout
  with visit_abort [OF inv] show ?thesis by (simp add: visit_ok_def timerFires_def)
next
  case (vs_conn M)
  with visit_link [OF inv] show ?thesis by blast
qed (use inv in \<open>auto simp: visit_ok_def armWatch_def headersArrive_def leave_def startCall_def serveReturns_def\<close>)

lemma vs_init_ok: "vs_init i r q V \<Longrightarrow> visit_ok i r q V"
  by (simp add: vs_init_def visit_ok_def link_init_ok)

interpretation visits: invariant_system "vs_init i r q" "vs_step i r q" "visit_ok i r q"
  by unfold_locales (blast intro: vs_init_ok vs_step_ok)+

section \<open>The abort arrives\<close>

lemma emits_reset:
  assumes ok: "sess_ok s" "r < length (s_heap s)" and h: "healthy s" and live: "\<not> rst (strm s r)" "\<not> fully_finished (strm s r)"
  shows "emits s [(FrameReset, st_id (strm s r), [])] (Abort r s)"
proof -
  have "w_plan (s_conn s) = []" using h by (simp add: healthy_def)
  from emits_frame [OF this, of FrameReset "st_id (strm s r)" "[]"] h
  have "emits s [(FrameReset, st_id (strm s r), [])] (snd (sess_writeFrame FrameReset (st_id (strm s r)) [] s))" by simp
  then show ?thesis
    unfolding Abort_net [OF ok live(1) refl] if_not_P [OF live(2)] by (simp add: emits_upd if_distrib [of "emits s _"])
qed

text \<open>At the head of what is in flight, the reset aborts its stream, unless that was over.\<close>

lemma reset_arrives:
  assumes f: "flows i r q L" and wait: "lk_wait L = None" and wire: "lk_wire L = frame_bytes (FrameReset, i, [])"
  shows "\<exists>M. lk_recv q L M \<and> (aborted (strm (lk_b M) q) \<or> st_over (strm (lk_b M) q))"
proof -
  have rd: "reader_ok i q (lk_b L)" and alive: "lk_alive L" using f link_ok_parts(5) by (auto simp: flows_def)
  let ?n = "length (lk_wire L) - length (r_bytes \<lparr>r_bytes = [], r_end = EOF\<rparr>)"
  let ?b = "liveRead 0 ?n (lk_b L)"
  have rdb: "reader_ok i q ?b" using rd by (rule reader_liveRead)
  then have q: "q < length (s_heap ?b)" "sess_ok ?b" "st_id (strm ?b q) = i" by (simp_all add: reader_ok_def)
  have rf: "readFrame \<lparr>r_bytes = lk_wire L, r_end = EOF\<rparr> = (Inr (FrameReset, i, []), \<lparr>r_bytes = [], r_end = EOF\<rparr>)"
    using readFrame_frame_bytes [of "[]" "\<lparr>r_bytes = lk_wire L, r_end = EOF\<rparr>" FrameReset i "[]"] wire by simp
  have "\<exists>b'. dispatch 0 False (FrameReset, i, []) ?b = Next b' \<and> (aborted (strm b' q) \<or> st_over (strm b' q))"
  proof (cases "getStream i ?b")
    case None
    with rdb show ?thesis by (auto simp: dispatch_reset reader_ok_def)
  next
    case (Some x)
    with rdb have x: "x = q" by (simp add: reader_ok_def)
    have "stream_ok (strm ?b q)" "\<not> removed (strm ?b q)" using getStream_ok [OF q(2) Some] sess_okD_stream [OF q(2,1)] x by simp_all
    with q Some x show ?thesis by (simp add: dispatch_reset remoteReset_net)
  qed
  then obtain b' where b': "dispatch 0 False (FrameReset, i, []) ?b = Next b'" "aborted (strm b' q) \<or> st_over (strm b' q)" by blast
  from recv_frame [OF alive wait rf b'(1)] b'(2) show ?thesis by fastforce
qed

lemma abort_delivered:
  assumes inv: "link_ok i r q L" and alive: "lk_alive L" and h: "healthy (lk_a L)"
    and live: "\<not> rst (strm (lk_a L) r)" "\<not> fully_finished (strm (lk_a L) r)"
  shows "\<exists>M. (lk_recv q)\<^sup>*\<^sup>* (abortLink r L) M \<and> (aborted (strm (lk_b M) q) \<or> st_over (strm (lk_b M) q))"
proof -
  from inv obtain fs where fs: "lk_wire L = concat (map frame_bytes fs)" "list_all known fs" by (rule link_okE)
  have wire: "lk_wire (abortLink r L) = concat (map frame_bytes (fs @ [(FrameReset, i, [])]))"
    using emits_sent [OF emits_reset [OF link_ok_parts(1,3) [OF inv] h live]] fs(1) link_ok_parts(4) [OF inv] by (simp add: abortLink_def sends_def)
  have "flows i r q (abortLink r L)" using lk_step_ok [OF abort_step inv] alive by (simp add: flows_def abortLink_def sends_def)
  note fl = this and drain = drain_wire [OF this wire fs(2)]
  from drain obtain K where K: "(lk_recv q)\<^sup>*\<^sup>* (abortLink r L) K" "lk_wire K = frame_bytes (FrameReset, i, [])" "lk_wait K = None" by auto
  from reset_arrives [OF flows_steps [OF K(1) fl] K(3,2)] K(1) show ?thesis by (blast intro: rtranclp.rtrancl_into_rtrancl)
qed

lemma go_reads: "(lk_recv q)\<^sup>*\<^sup>* L M \<Longrightarrow> vs_link V = L \<Longrightarrow> (vs_go r q)\<^sup>*\<^sup>* V (V\<lparr>vs_link := M\<rparr>)"
proof (induction rule: rtranclp_induct)
  case base
  then show ?case by (cases V) simp
next
  case (step K M)
  from go_read [of q "V\<lparr>vs_link := K\<rparr>" M r] step have "vs_go r q (V\<lparr>vs_link := K\<rparr>) (V\<lparr>vs_link := M\<rparr>)" by simp
  with step show ?case by (meson rtranclp.rtrancl_into_rtrancl)
qed

section \<open>Properties\<close>


text \<open>A run: a request on stream 1 has been sent, the client calls its service, the viewer leaves.\<close>

lemma reach_visit:
  assumes "reach (link_init i r q) (lk_step i r q) L"
  shows "reach (vs_init i r q) (vs_step i r q) \<lparr>vs_link = L, vs_ask = AskSending, vs_gone = False, vs_watch = False, vs_timer = False,
     vs_local = Receiving, vs_ctx = False, vs_guard = False\<rparr>" (is "reach _ _ (?V L)")
  using assms
proof (induction rule: reach.induct)
  case (reach_init L)
  then show ?case by (intro reach.reach_init) (simp add: vs_init_def)
next
  case (reach_step L M)
  from reach_step(2) have "vs_step i r q (?V L) (?V M)" using vs_conn [of i r q "?V L" M] by simp
  with reach_step(3) show ?case by (rule reach.reach_step)
qed


end
