(* ===== verification/Store.thy ===== *)
theory Store
  imports Http
begin

text \<open>
  The inspector's memory, \<^verbatim>\<open>internal/inspection/store.go\<close>: a ring buffer of captured exchanges. The buffer holds pointers,
  nil (\<open>None\<close>) where nothing was written yet. It is shown to refine a bounded log, the list of the last records, newest
  first; the theory \<^verbatim>\<open>Inspector\<close> uses that view.
\<close>

section \<open>Records and the ring\<close>

record irec =
  ir_ID :: int
  ir_Time :: "int option"
  ir_Duration :: int
  ir_Replayed :: bool
  ir_Errored :: bool
  ir_Error :: string
  ir_Method :: string
  ir_Path :: string
  ir_ReqHeaders :: header
  ir_ReqBody :: string
  ir_ReqTruncated :: bool
  ir_Status :: int
  ir_RespHeaders :: header
  ir_RespBody :: string
  ir_RespTruncated :: bool

definition DefaultCapacity :: int where "DefaultCapacity = 200"

record store =
  so_buf :: "irec option list"
  so_cap :: nat
  so_head :: nat
  so_n :: nat
  so_seq :: int

definition NewStore :: "int \<Rightarrow> store" where
  "NewStore capacity =
     (let c = nat (if capacity \<le> 0 then DefaultCapacity else capacity)
      in \<lparr>so_buf = replicate c None, so_cap = c, so_head = 0, so_n = 0, so_seq = 0\<rparr>)"

definition stamp :: "int \<Rightarrow> irec \<Rightarrow> store \<Rightarrow> irec" where
  "stamp now r s = r\<lparr>ir_ID := so_seq s + 1, ir_Time := (case ir_Time r of None \<Rightarrow> Some now | Some t \<Rightarrow> Some t)\<rparr>"

definition Add :: "int \<Rightarrow> irec \<Rightarrow> store \<Rightarrow> irec \<times> store" where
  "Add now r s =
     (let r1 = stamp now r s
      in (r1, s\<lparr>so_seq := so_seq s + 1, so_buf := (so_buf s)[so_head s := Some r1],
                so_head := (so_head s + 1) mod so_cap s,
                so_n := (if so_n s < so_cap s then so_n s + 1 else so_n s)\<rparr>))"

text \<open>The slot of the \<open>i\<close>-th newest entry; the source computes it modulo the capacity with the capacity added first.\<close>

definition slot :: "store \<Rightarrow> nat \<Rightarrow> nat" where
  "slot s i = (so_head s + so_cap s - 1 - i) mod so_cap s"

definition List :: "store \<Rightarrow> irec option list" where
  "List s = map (\<lambda>i. so_buf s ! slot s i) [0..<so_n s]"

text \<open>\<^verbatim>\<open>Get\<close>; the outer \<open>None\<close> is the panic of dereferencing a nil entry.\<close>

primrec getFrom :: "irec option list \<Rightarrow> int \<Rightarrow> irec option option" where
  "getFrom [] rid = Some None"
| "getFrom (p # ps) rid =
     (case p of None \<Rightarrow> None | Some r \<Rightarrow> if ir_ID r = rid then Some (Some r) else getFrom ps rid)"

definition store_Get :: "int \<Rightarrow> store \<Rightarrow> irec option option" where
  "store_Get rid s = getFrom (List s) rid"

definition Size :: "store \<Rightarrow> nat" where
  "Size s = so_n s"

definition Clear :: "store \<Rightarrow> store" where
  "Clear s = s\<lparr>so_buf := replicate (so_cap s) None, so_head := 0, so_n := 0\<rparr>"

section \<open>A bounded log\<close>

text \<open>
  The contract: a view of at most \<open>cap\<close> records, newest first; adding puts the marked record in front and drops what no longer
  fits; resetting empties the view.
\<close>

locale bounded_log =
  fixes inv :: "'s \<Rightarrow> bool"
    and cap :: "'s \<Rightarrow> nat"
    and view :: "'s \<Rightarrow> 'r list"
    and mark :: "'x \<Rightarrow> 's \<Rightarrow> 'r"
    and push :: "'x \<Rightarrow> 's \<Rightarrow> 's"
    and reset :: "'s \<Rightarrow> 's"
  assumes push_inv: "inv s \<Longrightarrow> inv (push x s)"
    and reset_inv: "inv s \<Longrightarrow> inv (reset s)"
    and push_cap: "cap (push x s) = cap s"
    and push_view: "inv s \<Longrightarrow> view (push x s) = take (cap s) (mark x s # view s)"
    and reset_view: "inv s \<Longrightarrow> view (reset s) = []"
    and view_bound: "inv s \<Longrightarrow> length (view s) \<le> cap s"
begin

lemma pushes_inv: "inv s \<Longrightarrow> inv (fold push xs s)"
  by (induction xs arbitrary: s) (simp_all add: push_inv)

lemma take_take_append: "take n (xs @ take n ys) = take n (xs @ ys)"
  by (simp add: min_def)

lemma pushes_view:
  "inv s \<Longrightarrow> \<exists>ys. length ys = length xs \<and> view (fold push xs s) = take (cap s) (ys @ view s)"
proof (induction xs arbitrary: s)
  case Nil
  then show ?case using view_bound [of s] by simp
next
  case (Cons x xs)
  obtain ys where ys: "length ys = length xs"
      "view (fold push xs (push x s)) = take (cap s) (ys @ view (push x s))"
    using Cons.IH [OF push_inv [OF Cons.prems], of x] push_cap by auto
  have "view (fold push (x # xs) s) = take (cap s) ((ys @ [mark x s]) @ view s)"
    using ys(2) push_view [OF Cons.prems, of x] by (simp only: take_take_append fold_simps append.simps append_assoc)
  with ys(1) show ?case by (intro exI [of _ "ys @ [mark x s]"]) simp
qed

lemma view_length: "inv s \<Longrightarrow> length (view (fold push xs s)) = min (cap s) (length xs + length (view s))"
  using pushes_view [of s xs] by auto

end

section \<open>The ring is a bounded log\<close>

definition contents :: "store \<Rightarrow> irec list" where
  "contents s = map the (List s)"

definition store_ok :: "store \<Rightarrow> bool" where
  "store_ok s \<longleftrightarrow>
     0 < so_cap s \<and> length (so_buf s) = so_cap s \<and> so_head s < so_cap s \<and> so_n s \<le> so_cap s \<and>
     (\<forall>i < so_n s. \<exists>r. so_buf s ! slot s i = Some r \<and> ir_ID r = so_seq s - int i) \<and> int (so_n s) \<le> so_seq s"

lemma slot_less: "0 < so_cap s \<Longrightarrow> slot s i < so_cap s"
  by (simp add: slot_def)

lemma slot_inj:
  assumes "so_head s < so_cap s" and "i < so_cap s" and "j < so_cap s" and "slot s i = slot s j"
  shows "i = j"
proof -
  have s: "slot s k = (if k < so_head s then so_head s - 1 - k else so_head s + so_cap s - 1 - k)"
    if "k < so_cap s" for k
    using that assms(1) by (auto simp: slot_def mod_if)
  show ?thesis using assms s by (auto split: if_splits)
qed

lemma Add_slot:
  assumes "store_ok s" and "s' = snd (Add now r s)"
  shows "slot s' 0 = so_head s" and "Suc i < so_cap s \<Longrightarrow> slot s' (Suc i) = slot s i"
proof -
  have h: "so_head s' = (so_head s + 1) mod so_cap s" "so_cap s' = so_cap s"
    using assms(2) by (simp_all add: Add_def Let_def)
  have c: "so_head s < so_cap s" using assms(1) by (simp add: store_ok_def)
  show "slot s' 0 = so_head s" using c h by (auto simp: slot_def mod_if)
  show "Suc i < so_cap s \<Longrightarrow> slot s' (Suc i) = slot s i" using c h by (auto simp: slot_def mod_if)
qed

lemma Add_entry:
  assumes ok: "store_ok s" and s': "s' = snd (Add now r s)" and i: "i < so_n s'"
  shows "so_buf s' ! slot s' i = (if i = 0 then Some (stamp now r s) else so_buf s ! slot s (i - 1))"
proof -
  have c: "so_head s < so_cap s" "length (so_buf s) = so_cap s" "so_n s \<le> so_cap s"
    using ok by (simp_all add: store_ok_def)
  have buf: "so_buf s' = (so_buf s)[so_head s := Some (stamp now r s)]"
    and n: "so_n s' = (if so_n s < so_cap s then so_n s + 1 else so_n s)"
    using s' by (simp_all add: Add_def Let_def)
  show ?thesis
  proof (cases i)
    case 0
    then show ?thesis using Add_slot(1) [OF ok s'] buf c by simp
  next
    case (Suc j)
    have j: "Suc j < so_cap s" using i n c Suc by (simp split: if_splits)
    have "slot s (so_cap s - 1) = so_head s" using c(1) by (simp add: slot_def)
    then have "slot s j \<noteq> so_head s" using slot_inj [of s j "so_cap s - 1"] c(1) j by auto
    then show ?thesis using Add_slot(2) [OF ok s' j] Suc buf by simp
  qed
qed

lemma Add_ok: "store_ok s \<Longrightarrow> store_ok (snd (Add now r s))"
proof -
  assume ok: "store_ok s"
  let ?s = "snd (Add now r s)"
  have f: "so_cap ?s = so_cap s" "so_head ?s = (so_head s + 1) mod so_cap s" "length (so_buf ?s) = length (so_buf s)"
    "so_seq ?s = so_seq s + 1" "so_n ?s = (if so_n s < so_cap s then so_n s + 1 else so_n s)"
    by (simp_all add: Add_def Let_def)
  have "\<exists>x. so_buf ?s ! slot ?s i = Some x \<and> ir_ID x = so_seq ?s - int i" if i: "i < so_n ?s" for i
  proof (cases i)
    case 0
    then show ?thesis using Add_entry [OF ok refl i] f(4) by (simp add: stamp_def)
  next
    case (Suc j)
    then have "j < so_n s" using i f(5) by (auto split: if_splits)
    with ok obtain x where "so_buf s ! slot s j = Some x" "ir_ID x = so_seq s - int j"
      by (auto simp: store_ok_def)
    then show ?thesis using Add_entry [OF ok refl i] Suc f(4) by simp
  qed
  then show ?thesis using ok f by (auto simp: store_ok_def)
qed

lemma Clear_ok: "store_ok s \<Longrightarrow> store_ok (Clear s)"
  by (simp add: store_ok_def Clear_def)

lemma NewStore_ok: "store_ok (NewStore c)"
  by (simp add: store_ok_def NewStore_def DefaultCapacity_def Let_def)

lemma Add_contents:
  assumes ok: "store_ok s"
  shows "contents (snd (Add now r s)) = take (so_cap s) (stamp now r s # contents s)"
proof (rule nth_equalityI)
  let ?s = "snd (Add now r s)"
  have n: "so_n ?s = (if so_n s < so_cap s then so_n s + 1 else so_n s)" by (simp add: Add_def Let_def)
  have c: "so_n s \<le> so_cap s" using ok by (simp add: store_ok_def)
  show "length (contents ?s) = length (take (so_cap s) (stamp now r s # contents s))"
    using n c by (auto simp: contents_def List_def)
  fix i assume "i < length (contents ?s)"
  then have i: "i < so_n ?s" by (simp add: contents_def List_def)
  then have l: "contents ?s ! i = the (so_buf ?s ! slot ?s i)" by (simp add: contents_def List_def)
  have "i < so_cap s" "i - 1 < so_n s \<or> i = 0" using i n c by (auto split: if_splits)
  then show "contents ?s ! i = take (so_cap s) (stamp now r s # contents s) ! i"
    unfolding l Add_entry [OF ok refl i] by (cases i) (auto simp: contents_def List_def)
qed

interpretation ring: bounded_log store_ok so_cap contents "\<lambda>x s. stamp (fst x) (snd x) s"
  "\<lambda>x s. snd (Add (fst x) (snd x) s)" Clear
proof
  fix s
  assume "store_ok s"
  then show "length (contents s) \<le> so_cap s" by (simp add: contents_def List_def store_ok_def)
qed (simp_all add: Add_ok Clear_ok Add_contents, simp_all add: Add_def Clear_def contents_def List_def Let_def)

lemma List_Some: "store_ok s \<Longrightarrow> List s = map Some (contents s)"
proof (rule nth_equalityI)
  fix i
  assume ok: "store_ok s" and "i < length (List s)"
  then obtain r where "so_buf s ! slot s i = Some r" "i < so_n s" by (auto simp: store_ok_def List_def)
  then show "List s ! i = map Some (contents s) ! i" by (simp add: List_def contents_def)
qed (simp add: contents_def)

lemma contents_ID:
  assumes "store_ok s" and "i < so_n s"
  shows "ir_ID (contents s ! i) = so_seq s - int i"
proof -
  obtain r where "so_buf s ! slot s i = Some r" "ir_ID r = so_seq s - int i"
    using assms by (auto simp: store_ok_def)
  with assms(2) show ?thesis by (simp add: contents_def List_def)
qed

lemma getFrom_find: "getFrom (map Some rs) rid = Some (find (\<lambda>r. ir_ID r = rid) rs)"
  by (induction rs) auto

section \<open>Properties\<close>

inductive store_op :: "store \<Rightarrow> store \<Rightarrow> bool" where
  op_add: "store_op s (snd (Add now r s))"
| op_clear: "store_op s (Clear s)"

definition store_init :: "store \<Rightarrow> bool" where
  "store_init s \<longleftrightarrow> (\<exists>c. s = NewStore c)"

interpretation storem: invariant_system store_init store_op store_ok
proof
  show "store_init s \<Longrightarrow> store_ok s" for s by (auto simp: store_init_def NewStore_ok)
  show "store_ok s \<Longrightarrow> store_op s t \<Longrightarrow> store_ok t" for s t
    by (erule store_op.cases) (simp_all add: Add_ok Clear_ok)
qed

text \<open>
  Property C34. The ring buffer refines the list of the last records: adding puts the stamped record in front of what
  \<^verbatim>\<open>List\<close> gave before and drops the oldest once the capacity is reached, clearing empties it and keeps the sequence
  number, and no operation ever meets an empty slot.
\<close>

theorem ring_refines_log:
  assumes "store_ok s"
  shows "\<exists>l. List s = map Some l \<and> length l = Size s \<and> Size s \<le> so_cap s \<and>
     List (snd (Add now r s)) = map Some (take (so_cap s) (fst (Add now r s) # l)) \<and> store_ok (snd (Add now r s)) \<and>
     ir_ID (fst (Add now r s)) = so_seq s + 1 \<and>
     List (Clear s) = [] \<and> so_seq (Clear s) = so_seq s \<and> store_ok (Clear s)"
proof (intro exI [of _ "contents s"] conjI)
  show "List s = map Some (contents s)" using List_Some [OF assms] .
  show "List (snd (Add now r s)) = map Some (take (so_cap s) (fst (Add now r s) # contents s))"
    using List_Some [OF Add_ok [OF assms]] Add_contents [OF assms] by (simp add: Add_def Let_def)
  show "store_ok (snd (Add now r s))" "store_ok (Clear s)" using assms by (simp_all add: Add_ok Clear_ok)
  show "length (contents s) = Size s" by (simp add: contents_def List_def Size_def)
  show "Size s \<le> so_cap s" using assms by (simp add: Size_def store_ok_def)
  show "ir_ID (fst (Add now r s)) = so_seq s + 1" by (simp add: Add_def stamp_def Let_def)
  show "List (Clear s) = []" "so_seq (Clear s) = so_seq s" by (simp_all add: List_def Clear_def)
qed

definition blank_rec :: irec where
  "blank_rec = \<lparr>ir_ID = 0, ir_Time = None, ir_Duration = 0, ir_Replayed = False, ir_Errored = False, ir_Error = [],
     ir_Method = ''GET'', ir_Path = ''/'', ir_ReqHeaders = [], ir_ReqBody = [], ir_ReqTruncated = False, ir_Status = 200,
     ir_RespHeaders = [], ir_RespBody = [], ir_RespTruncated = False\<rparr>"

theorem ring_refines_log_witness:
  "\<exists>l. List (snd (Add 7 blank_rec (NewStore 2))) = map Some l \<and> length l = 1 \<and>
     List (snd (Add 8 blank_rec (snd (Add 7 blank_rec (NewStore 2))))) =
       map Some (take 2 (fst (Add 8 blank_rec (snd (Add 7 blank_rec (NewStore 2)))) # l))"
proof -
  let ?s = "snd (Add 7 blank_rec (NewStore 2))"
  have "Size ?s = 1" "so_cap ?s = 2" by (simp_all add: Size_def Add_def NewStore_def Let_def)
  with ring_refines_log [where s = ?s and now = 8 and r = blank_rec, OF Add_ok [OF NewStore_ok]] show ?thesis by auto
qed

text \<open>
  In every store that can be reached, the records listed carry consecutive ids, newest first, and
  \<^verbatim>\<open>Get\<close> finds exactly the ids still in the buffer (the last \<^verbatim>\<open>Size\<close> ones), each with the record of that id, without ever
  failing.
\<close>

theorem store_get_exact:
  assumes "reach store_init store_op s"
  shows "map (map_option ir_ID) (List s) = map (\<lambda>i. Some (so_seq s - int i)) [0..<Size s] \<and>
     (if so_seq s - int (Size s) < rid \<and> rid \<le> so_seq s
      then (\<exists>r. store_Get rid s = Some (Some r) \<and> ir_ID r = rid \<and> Some r \<in> set (List s))
      else store_Get rid s = Some None)"
proof -
  have ok: "store_ok s" by (rule storem.reach_inv [OF assms])
  have len: "length (contents s) = so_n s" by (simp add: contents_def List_def)
  have ids: "map ir_ID (contents s) = map (\<lambda>i. so_seq s - int i) [0..<so_n s]"
    by (rule nth_equalityI) (simp_all add: len contents_ID [OF ok])
  have get: "store_Get rid s = Some (find (\<lambda>r. ir_ID r = rid) (contents s))"
    by (simp add: store_Get_def List_Some [OF ok] getFrom_find)
  have mem: "rid \<in> ir_ID ` set (contents s) \<longleftrightarrow> so_seq s - int (so_n s) < rid \<and> rid \<le> so_seq s"
  proof -
    have "rid \<in> ir_ID ` set (contents s) \<longleftrightarrow> (\<exists>i < so_n s. rid = so_seq s - int i)"
      using arg_cong [OF ids, of set] by auto
    also have "\<dots> \<longleftrightarrow> so_seq s - int (so_n s) < rid \<and> rid \<le> so_seq s"
      by (auto intro: exI [of _ "nat (so_seq s - rid)"])
    finally show ?thesis .
  qed
  have "if so_seq s - int (so_n s) < rid \<and> rid \<le> so_seq s
      then (\<exists>r. store_Get rid s = Some (Some r) \<and> ir_ID r = rid \<and> Some r \<in> set (List s))
      else store_Get rid s = Some None"
  proof (cases "find (\<lambda>r. ir_ID r = rid) (contents s)")
    case None
    then have "rid \<notin> ir_ID ` set (contents s)" by (auto simp: find_None_iff)
    with mem None get show ?thesis by auto
  next
    case (Some r)
    then have "r \<in> set (contents s)" "ir_ID r = rid" by (auto simp: find_Some_iff)
    with mem Some get show ?thesis by (auto simp: List_Some [OF ok])
  qed
  moreover have "map (map_option ir_ID) (List s) = map (\<lambda>i. Some (so_seq s - int i)) [0..<so_n s]"
    using arg_cong [OF ids, of "map Some"] by (simp add: List_Some [OF ok] comp_def)
  ultimately show ?thesis by (simp add: Size_def)
qed

theorem store_get_exact_witness:
  "\<exists>r. store_Get 1 (snd (Add 7 blank_rec (NewStore 2))) = Some (Some r) \<and> ir_ID r = 1"
proof -
  let ?s = "snd (Add 7 blank_rec (NewStore 2))"
  have "reach store_init store_op ?s"
    by (rule reach.reach_step [where step = store_op, OF reach.reach_init [where s = "NewStore 2"] store_op.op_add])
       (auto simp: store_init_def)
  moreover have "so_seq ?s = 1" "Size ?s = 1" by (simp_all add: Size_def Add_def NewStore_def Let_def)
  ultimately show ?thesis using store_get_exact [of ?s 1] by auto
qed

end
