(* ===== verification/Forwarder.thy ===== *)
theory Forwarder
  imports Store Wire
begin

text \<open>
  The client's dispatcher, \<^verbatim>\<open>internal/client/forwarder.go\<close>: it takes a request off a tunnel stream, sends it to the local
  service, relays the response and keeps a record of the exchange. The library's part is in \<open>fwlib\<close>: what the local service answers, and the
  writes with which \<^verbatim>\<open>Response.Write\<close> puts a response on the stream. What \<^verbatim>\<open>http.ReadRequest\<close> made of the stream is an argument. The
  session goes on meanwhile; \<open>evo\<close> is what other goroutines do to it, before the \<open>k\<close>-th step of the handler.
\<close>

section \<open>Requests, responses, errors\<close>

text \<open>
  A body reader: the bytes still to come, the error that ends them, and whether it is returned together with the
  last bytes (as \<^verbatim>\<open>net/http\<close> does for a body of known length) or by a read of its own.
\<close>

record breader =
  br_bytes :: string
  br_end :: err
  br_eager :: bool

definition bodyRead :: "nat \<Rightarrow> breader \<Rightarrow> (string \<times> err option) \<times> breader" where
  "bodyRead n b =
     (if br_bytes b = [] then (([], Some (br_end b)), b)
      else ((take n (br_bytes b),
             if br_eager b \<and> length (br_bytes b) \<le> n then Some (br_end b) else None),
            b\<lparr>br_bytes := drop n (br_bytes b)\<rparr>))"

record creq =
  cr_Method :: string
  cr_Path :: string
  cr_RawPath :: string
  cr_RawQuery :: string
  cr_URI :: string
  cr_Host :: string
  cr_Header :: header
  cr_Body :: breader

record lreq =
  lq_Method :: string
  lq_URLHost :: string
  lq_Path :: string
  lq_RawPath :: string
  lq_RawQuery :: string
  lq_Header :: header
  lq_Body :: string
  lq_ContentLength :: int
  lq_Host :: string

record lresp =
  ls_Status :: nat
  ls_Header :: header
  ls_Body :: string

text \<open>Go errors with their messages, as far as \<^verbatim>\<open>Unwrap\<close> shows their structure.\<close>

datatype gerr = GErr string | GWrap string "gerr option" | GJoin string "gerr list"

record fwlib =
  fw_roundTrip :: "lreq \<Rightarrow> gerr + lresp"
  fw_respWrite :: "lresp \<Rightarrow> (string \<times> bytes) list"
  fw_errText :: "err \<Rightarrow> string"

record forwarder =
  fd_LocalHost :: string
  fd_LocalPort :: int
  fd_MaxBody :: int

definition captureLimit :: nat where "captureLimit = 256 * 1024"

definition fw_hopByHop :: "string list" where
  "fw_hopByHop = [''Connection'', ''Keep-Alive'', ''Te'', ''Trailer'', ''Transfer-Encoding'', ''Upgrade'', ''Content-Length'']"

definition NewForwarder :: "string \<Rightarrow> int \<Rightarrow> int \<Rightarrow> forwarder" where
  "NewForwarder host port maxBody = \<lparr>fd_LocalHost = host, fd_LocalPort = port, fd_MaxBody = maxBody\<rparr>"

definition LocalAddr :: "forwarder \<Rightarrow> string" where
  "LocalAddr f = JoinHostPort (fd_LocalHost f) (Itoa (fd_LocalPort f))"

section \<open>Helpers\<close>

lemma size_last: "es \<noteq> [] \<Longrightarrow> size (last es) < Suc (size_list size es)"
  using size_list_estimation' [of "last es" es "size (last es)" size] by (simp add: less_Suc_eq_le)

function rootCause :: "gerr \<Rightarrow> gerr option" where
  "rootCause e =
     (case e of
        GJoin m es \<Rightarrow> if es = [] then Some e else rootCause (last es)
      | GWrap m u \<Rightarrow> (case u of None \<Rightarrow> None | Some e1 \<Rightarrow> rootCause e1)
      | GErr m \<Rightarrow> Some e)"
  by pat_completeness auto
termination
  by (relation "measure size") (auto intro: size_last)

declare rootCause.simps [simp del]

definition errMsg :: "gerr option \<Rightarrow> string" where
  "errMsg e = (case e of None \<Rightarrow> ''<nil>'' | Some (GErr m) \<Rightarrow> m | Some (GWrap m u) \<Rightarrow> m | Some (GJoin m es) \<Rightarrow> m)"

definition fw_isUpgrade :: "creq \<Rightarrow> bool" where
  "fw_isUpgrade r \<longleftrightarrow>
     map lowerByte (hdr_Get (cr_Header r) ''Connection'') = ''upgrade'' \<or> hdr_Get (cr_Header r) ''Upgrade'' \<noteq> []"

definition methodMayHaveBody :: "string \<Rightarrow> bool" where
  "methodMayHaveBody m \<longleftrightarrow> m = ''POST'' \<or> m = ''PUT'' \<or> m = ''PATCH''"

text \<open>
  \<^verbatim>\<open>io.Copy\<close> from a \<^verbatim>\<open>LimitReader\<close> with \<open>n\<close> bytes left, with a buffer of \<open>sz\<close> bytes: the error if it is not the end of
  the input, what was copied, and the reader after it. Then the loop that counts the bytes beyond the limit.
\<close>

function limitCopy :: "nat \<Rightarrow> nat \<Rightarrow> breader \<Rightarrow> (err option \<times> string) \<times> breader" where
  "limitCopy sz n b =
     (if n = 0 \<or> sz = 0 then ((None, []), b)
      else case bodyRead (min sz n) b of
        ((p, Some e), b1) \<Rightarrow> ((if e = EOF then None else Some e, p), b1)
      | ((p, None), b1) \<Rightarrow>
          (case limitCopy sz (n - length p) b1 of ((e, q), b2) \<Rightarrow> ((e, p @ q), b2)))"
  by pat_completeness auto
termination
proof (relation "measure (\<lambda>(sz, n, b). n)", goal_cases)
  case (2 sz n b pe b1 p)
  then have "p \<noteq> []" by (auto simp: bodyRead_def split: if_splits)
  with 2 show ?case by simp
qed simp

declare limitCopy.simps [simp del]

function countExtra :: "nat \<Rightarrow> breader \<Rightarrow> nat \<times> err option" where
  "countExtra over b =
     (case bodyRead 1 b of
        ((p, e), b1) \<Rightarrow> if e = None \<and> p \<noteq> [] then countExtra (over + length p) b1 else (over, e))"
  by pat_completeness auto
termination
  by (relation "measure (\<lambda>(over, b). length (br_bytes b))") (auto simp: bodyRead_def split: if_splits)

declare countExtra.simps [simp del]

definition readAllLimited :: "nat \<Rightarrow> breader \<Rightarrow> nat \<Rightarrow> err + string \<times> nat" where
  "readAllLimited sz b limit =
     (case limitCopy sz limit b of
        ((Some e, p), b1) \<Rightarrow> Inl e
      | ((None, p), b1) \<Rightarrow>
          (case countExtra 0 b1 of (over, e) \<Rightarrow>
             (case e of Some e1 \<Rightarrow> if e1 \<noteq> EOF then Inl e1 else Inr (p, over) | None \<Rightarrow> Inr (p, over))))"

definition truncateForDisplay :: "string \<Rightarrow> string \<times> bool" where
  "truncateForDisplay b = (if length b \<le> captureLimit then (b, False) else (take captureLimit b, True))"

record limitedBuffer =
  lb_limit :: nat
  lb_buf :: string
  lb_truncated :: bool

definition lb_Write :: "string \<Rightarrow> limitedBuffer \<Rightarrow> limitedBuffer" where
  "lb_Write p l =
     (let remaining = int (lb_limit l) - int (length (lb_buf l))
      in if 0 < remaining
         then if remaining < int (length p)
              then l\<lparr>lb_buf := lb_buf l @ take (nat remaining) p, lb_truncated := True\<rparr>
              else l\<lparr>lb_buf := lb_buf l @ p\<rparr>
         else l\<lparr>lb_truncated := True\<rparr>)"

definition capBuf :: limitedBuffer where
  "capBuf = \<lparr>lb_limit = captureLimit, lb_buf = [], lb_truncated = False\<rparr>"

definition urlPath :: "string \<Rightarrow> string" where
  "urlPath p = (case IndexByte p CHR ''?'' of Some i \<Rightarrow> take i p | None \<Rightarrow> p)"

definition urlQuery :: "string \<Rightarrow> string" where
  "urlQuery p = (case IndexByte p CHR ''?'' of Some i \<Rightarrow> drop (Suc i) p | None \<Rightarrow> [])"

definition buildLocalRequest :: "forwarder \<Rightarrow> creq \<Rightarrow> string \<Rightarrow> lreq" where
  "buildLocalRequest f orig body =
     (let hdr = filter (\<lambda>kv. CanonicalHeaderKey (fst kv) \<notin> set fw_hopByHop) (cr_Header orig);
          h1 = hdr_Set ''Content-Length'' (Itoa (int (length body))) hdr;
          bare = body = [] \<and> \<not> methodMayHaveBody (cr_Method orig)
      in \<lparr>lq_Method = cr_Method orig, lq_URLHost = LocalAddr f, lq_Path = cr_Path orig, lq_RawPath = cr_RawPath orig,
          lq_RawQuery = cr_RawQuery orig, lq_Header = (if bare then hdr_Del ''Content-Length'' h1 else h1), lq_Body = body,
          lq_ContentLength = (if bare then 0 else int (length body)), lq_Host = LocalAddr f\<rparr>)"

definition rawError :: "nat \<Rightarrow> string \<Rightarrow> lresp" where
  "rawError status msg =
     \<lparr>ls_Status = status, ls_Header = [(''Content-Type'', [''text/plain; charset=utf-8''])], ls_Body = msg @ [newline]\<rparr>"

definition writeRawError :: "fwlib \<Rightarrow> nat \<Rightarrow> nat \<Rightarrow> string \<Rightarrow> session \<Rightarrow> session" where
  "writeRawError L st status msg s = snd (writeParts st (map snd (fw_respWrite L (rawError status msg))) s)"

text \<open>
  \<^verbatim>\<open>resp.Write\<close> onto the stream, the body read through a tee into the capture buffer; the first failing write ends it.
\<close>

primrec writeResp ::
  "(nat \<Rightarrow> session \<Rightarrow> session) \<Rightarrow> nat \<Rightarrow> (string \<times> bytes) list \<Rightarrow> nat \<Rightarrow> limitedBuffer \<Rightarrow> session \<Rightarrow>
     (err option \<times> limitedBuffer) \<times> session" where
  "writeResp evo st [] k l s = ((None, l), s)"
| "writeResp evo st (p # ps) k l s =
     (let l1 = (if fst p = [] then l else lb_Write (fst p) l)
      in case Write st (snd p) (evo k s) of
           ((n, Some e), s1) \<Rightarrow> ((Some e, l1), s1)
         | ((n, None), s1) \<Rightarrow> writeResp evo st ps (Suc k) l1 s1)"

definition errAbortedMsg :: string where
  "errAbortedMsg = ''aborted: the viewer disconnected or the tunnel closed''"

section \<open>Serving a stream\<close>

definition newRec :: "int \<Rightarrow> irec" where
  "newRec start = \<lparr>ir_ID = 0, ir_Time = Some start, ir_Duration = 0, ir_Replayed = False, ir_Errored = False, ir_Error = [],
     ir_Method = [], ir_Path = [], ir_ReqHeaders = [], ir_ReqBody = [], ir_ReqTruncated = False, ir_Status = 0,
     ir_RespHeaders = [], ir_RespBody = [], ir_RespTruncated = False\<rparr>"

definition errored :: "string \<Rightarrow> irec \<Rightarrow> irec" where
  "errored m r = r\<lparr>ir_Errored := True, ir_Error := m\<rparr>"

definition unreachable :: "forwarder \<Rightarrow> gerr \<Rightarrow> string" where
  "unreachable f e = ''local service unreachable ('' @ LocalAddr f @ ''): '' @ errMsg (rootCause e)"

definition goneMsg :: "forwarder \<Rightarrow> string" where
  "goneMsg f = ''munnel: local service '' @ LocalAddr f @ '' unreachable''"

text \<open>
  An upgrade: \<open>dial\<close> is the failure of connecting to the local service, if any, \<open>flush\<close> that of sending it the request, \<open>pre\<close> what
  the buffered reader holds beyond the request's head. The second component is what the local service has been sent when the pipe starts. The
  pipe is the session's evolution \<open>evo 0\<close>; when it ends each of the two goroutines closes the stream.
\<close>

definition wsRequest :: "forwarder \<Rightarrow> creq \<Rightarrow> string" where
  "wsRequest f r =
     cr_Method r @ '' '' @ cr_URI r @ '' HTTP/1.1'' @ crlf @
     concat (map hdrLine
       ([(''Host'', LocalAddr f)] @ filter (\<lambda>kv. map lowerByte (fst kv) \<noteq> ''host'') (hdr_lines (cr_Header r)) @
        [(''X-Forwarded-Host'', cr_Host r), (''X-Forwarded-Proto'', ''http'')])) @ crlf"

definition serveWebSocket ::
  "fwlib \<Rightarrow> forwarder \<Rightarrow> (nat \<Rightarrow> session \<Rightarrow> session) \<Rightarrow> int \<Rightarrow> nat \<Rightarrow> gerr option \<Rightarrow> string option \<Rightarrow> string \<Rightarrow> creq \<Rightarrow>
     irec \<Rightarrow> session \<Rightarrow> irec \<times> string \<times> session" where
  "serveWebSocket L f evo dur st dial flush pre req rec s =
     (case dial of
        Some e \<Rightarrow>
          ((errored (unreachable f e) rec)\<lparr>ir_Duration := dur\<rparr>, [], snd (CloseWrite st (writeRawError L st 502 (goneMsg f) s)))
      | None \<Rightarrow>
          (case flush of
             Some e \<Rightarrow> ((errored (''local write failed: '' @ e) rec)\<lparr>ir_Duration := dur\<rparr>, [], snd (CloseWrite st s))
           | None \<Rightarrow>
               (rec\<lparr>ir_Status := 101, ir_Duration := dur\<rparr>, wsRequest f req @ pre, snd (stream_Close st (snd (stream_Close st (evo 0 s)))))))"

text \<open>The plain path, without the deferred \<^verbatim>\<open>CloseWrite\<close>.\<close>

definition servePlain ::
  "fwlib \<Rightarrow> forwarder \<Rightarrow> (nat \<Rightarrow> session \<Rightarrow> session) \<Rightarrow> nat \<Rightarrow> int \<Rightarrow> nat \<Rightarrow> creq \<Rightarrow> irec \<Rightarrow> session \<Rightarrow> irec \<times> session" where
  "servePlain L f evo sz dur st req rec s =
     (case readAllLimited sz (cr_Body req) (nat (fd_MaxBody f)) of
        Inl e \<Rightarrow>
          (errored (''failed reading request body: '' @ fw_errText L e) rec,
           writeRawError L st 400 ''failed reading request body'' s)
      | Inr (body, over) \<Rightarrow>
          let rec1 = rec\<lparr>ir_ReqBody := fst (truncateForDisplay body), ir_ReqTruncated := snd (truncateForDisplay body)\<rparr>
          in if 0 < over
             then (errored ''request body exceeds limit'' rec1, writeRawError L st 413 ''request body too large'' s)
             else case fw_roundTrip L (buildLocalRequest f req body) of
               Inl e \<Rightarrow>
                 let s1 = evo 0 s
                 in ((errored (if aborted (strm s1 st) then errAbortedMsg else unreachable f e) rec1)\<lparr>ir_Duration := dur\<rparr>,
                     writeRawError L st 502 (goneMsg f) s1)
             | Inr resp \<Rightarrow>
                 let rec2 = rec1\<lparr>ir_Status := int (ls_Status resp), ir_RespHeaders := ls_Header resp\<rparr>
                 in case writeResp evo st (fw_respWrite L resp) 0 capBuf s of ((werr, cap), s1) \<Rightarrow>
                      let rec3 = (case werr of
                            None \<Rightarrow> rec2
                          | Some e \<Rightarrow>
                              errored (if aborted (strm s1 st) then errAbortedMsg
                                       else ''tunnel write failed: '' @ fw_errText L e) rec2)
                      in (rec3\<lparr>ir_RespBody := lb_buf cap, ir_RespTruncated := lb_truncated cap, ir_Duration := dur\<rparr>, s1))"

definition Serve ::
  "fwlib \<Rightarrow> forwarder \<Rightarrow> (nat \<Rightarrow> session \<Rightarrow> session) \<Rightarrow> nat \<Rightarrow> int \<Rightarrow> int \<Rightarrow> nat \<Rightarrow> gerr option \<Rightarrow> string option \<Rightarrow> string \<Rightarrow>
     string + creq \<Rightarrow> session \<Rightarrow> irec \<times> session" where
  "Serve L f evo sz start dur st dial flush pre rq s =
     (case rq of
        Inl e \<Rightarrow>
          (errored (''malformed request from tunnel: '' @ e) (newRec start),
           snd (CloseWrite st (writeRawError L st 400 ''malformed request'' s)))
      | Inr req \<Rightarrow>
          let rec = (newRec start)\<lparr>ir_Method := cr_Method req, ir_Path := cr_URI req, ir_ReqHeaders := cr_Header req\<rparr>
          in if fw_isUpgrade req then (case serveWebSocket L f evo dur st dial flush pre req rec s of (r, sent, s1) \<Rightarrow> (r, s1))
             else case servePlain L f evo sz dur st req rec s of (r, s1) \<Rightarrow> (r, snd (CloseWrite st s1)))"

section \<open>Replay\<close>

definition replayRequest :: "forwarder \<Rightarrow> irec \<Rightarrow> lreq" where
  "replayRequest f src =
     \<lparr>lq_Method = ir_Method src, lq_URLHost = LocalAddr f, lq_Path = urlPath (ir_Path src), lq_RawPath = [],
      lq_RawQuery = urlQuery (ir_Path src), lq_Header = hdr_Del ''Host'' (ir_ReqHeaders src), lq_Body = ir_ReqBody src,
      lq_ContentLength = int (length (ir_ReqBody src)), lq_Host = LocalAddr f\<rparr>"

definition replayTruncated :: string where
  "replayTruncated = ''cannot replay: stored request body was truncated (capture limit '' @ Itoa (int captureLimit) @ '' bytes)''"

text \<open>\<open>reads\<close>: how the response body came in while it was copied to the capture buffer.\<close>

definition Replay :: "fwlib \<Rightarrow> forwarder \<Rightarrow> (string \<Rightarrow> string list) \<Rightarrow> int \<Rightarrow> int \<Rightarrow> irec \<Rightarrow> string + irec" where
  "Replay L f reads start dur src =
     (let rec = (newRec start)\<lparr>ir_Replayed := True, ir_Method := ir_Method src, ir_Path := ir_Path src\<rparr>
      in if ir_ReqTruncated src then Inl replayTruncated
         else let rec1 = rec\<lparr>ir_ReqBody := ir_ReqBody src\<rparr>
         in case fw_roundTrip L (replayRequest f src) of
              Inl e \<Rightarrow> Inr ((errored (''local service unreachable: '' @ errMsg (rootCause e)) rec1)\<lparr>ir_Duration := dur\<rparr>)
            | Inr resp \<Rightarrow>
                let cap = fold lb_Write (reads (ls_Body resp)) capBuf
                in Inr (rec1\<lparr>ir_Status := int (ls_Status resp), ir_RespHeaders := ls_Header resp,
                             ir_RespBody := lb_buf cap, ir_RespTruncated := lb_truncated cap, ir_Duration := dur\<rparr>))"

end
