(* ===== verification/Tunnel.thy ===== *)
theory Tunnel
  imports Forwarder
begin

text \<open>
  The client's side of the control connection, \<^verbatim>\<open>internal/client/config.go\<close> and \<^verbatim>\<open>tunnel.go\<close>: the configuration, the handshake, and the loop that
  reconnects. The event channel is a buffer of 256 events; sending on the closed channel or closing it twice is a panic, kept
  in \<open>tn_panicked\<close>. How the messages of errors and durations read, SHA-256 and the JSON of the handshake are in \<open>clib\<close>.
\<close>

section \<open>Configuration\<close>

record cconfig =
  cc_LocalPort :: int
  cc_LocalHost :: string
  cc_ServerAddr :: string
  cc_Subdomain :: string
  cc_Token :: string
  cc_Protect :: bool
  cc_Inspect :: bool
  cc_InspectAddr :: string
  cc_MaxBody :: int
  cc_TLS :: bool
  cc_ServerCertSHA256 :: string
  cc_PingInterval :: int
  cc_IdleTimeout :: int
  cc_pin :: string

definition DefaultControlPort :: string where "DefaultControlPort = ''7001''"
definition DefaultControlTLSPort :: string where "DefaultControlTLSPort = ''7002''"
definition DefaultInspectAddr :: string where "DefaultInspectAddr = ''127.0.0.1:4040''"

datatype cfg_err = ErrPort int | ErrNoServer | ErrPinNeedsTLS | ErrBadPin

text \<open>\<^verbatim>\<open>hex.DecodeString\<close>\<close>

definition hexVal :: "char \<Rightarrow> nat option" where
  "hexVal c =
     (let n = of_char c :: nat
      in if 48 \<le> n \<and> n \<le> 57 then Some (n - 48)
         else if 97 \<le> n \<and> n \<le> 102 then Some (n - 87)
         else if 65 \<le> n \<and> n \<le> 70 then Some (n - 55) else None)"

fun hexDecode :: "string \<Rightarrow> string option" where
  "hexDecode [] = Some []"
| "hexDecode [c] = None"
| "hexDecode (c # d # cs) =
     (case (hexVal c, hexVal d, hexDecode cs) of
        (Some a, Some b, Some r) \<Rightarrow> Some (char_of (a * 16 + b) # r)
      | _ \<Rightarrow> None)"

definition decodePin :: "string \<Rightarrow> string option" where
  "decodePin s =
     (case hexDecode (filter (\<lambda>c. c \<noteq> CHR '':'') (TrimSpace s)) of
        None \<Rightarrow> None
      | Some p \<Rightarrow> if length p \<noteq> 32 then None else Some p)"

definition withAddr :: "cconfig \<Rightarrow> cconfig" where
  "withAddr c =
     (if contains (cc_ServerAddr c) CHR '':'' then c
      else c\<lparr>cc_ServerAddr := cc_ServerAddr c @ '':'' @ (if cc_TLS c then DefaultControlTLSPort else DefaultControlPort)\<rparr>)"

definition withPin :: "cconfig \<Rightarrow> cfg_err + cconfig" where
  "withPin c =
     (if cc_ServerCertSHA256 c = [] then Inr c
      else if \<not> cc_TLS c then Inl ErrPinNeedsTLS
      else case decodePin (cc_ServerCertSHA256 c) of None \<Rightarrow> Inl ErrBadPin | Some p \<Rightarrow> Inr (c\<lparr>cc_pin := p\<rparr>))"

definition withRest :: "cconfig \<Rightarrow> cconfig" where
  "withRest c = c\<lparr>cc_InspectAddr := orDefault DefaultInspectAddr (cc_InspectAddr c),
     cc_MaxBody := (if cc_MaxBody c \<le> 0 then 32 * 2 ^ 20 else cc_MaxBody c)\<rparr>"

definition Validate :: "cconfig \<Rightarrow> cfg_err + cconfig" where
  "Validate c =
     (if cc_LocalPort c \<le> 0 \<or> 65535 < cc_LocalPort c then Inl (ErrPort (cc_LocalPort c))
      else let c1 = c\<lparr>cc_LocalHost := orDefault ''127.0.0.1'' (cc_LocalHost c)\<rparr>
      in if cc_ServerAddr c1 = [] then Inl ErrNoServer
         else case withPin (withAddr c1) of Inl e \<Rightarrow> Inl e | Inr c2 \<Rightarrow> Inr (withRest c2))"

text \<open>
  The TLS settings, and what the library does with them when a server presents its certificates (as DER bytes, leaf first): with
  \<^verbatim>\<open>InsecureSkipVerify\<close> only \<^verbatim>\<open>VerifyConnection\<close> decides, otherwise the chain must verify for the server name (\<open>chain\<close>).
\<close>

record tlsSettings =
  tc_ServerName :: string
  tc_InsecureSkipVerify :: bool
  tc_verify :: "(string list \<Rightarrow> bool) option"

definition tlsConfig :: "(string \<Rightarrow> string) \<Rightarrow> cconfig \<Rightarrow> tlsSettings" where
  "tlsConfig sha c =
     (let host = (case SplitHostPort (cc_ServerAddr c) of Some (h, p) \<Rightarrow> h | None \<Rightarrow> cc_ServerAddr c)
      in \<lparr>tc_ServerName = host, tc_InsecureSkipVerify = (0 < length (cc_pin c)),
          tc_verify = (if 0 < length (cc_pin c)
            then Some (\<lambda>certs. case certs of [] \<Rightarrow> False | leaf # _ \<Rightarrow> sha leaf = cc_pin c) else None)\<rparr>)"

definition tlsAccepts :: "(string \<Rightarrow> string list \<Rightarrow> bool) \<Rightarrow> tlsSettings \<Rightarrow> string list \<Rightarrow> bool" where
  "tlsAccepts chain tc certs \<longleftrightarrow>
     (tc_InsecureSkipVerify tc \<or> chain (tc_ServerName tc) certs) \<and>
     (case tc_verify tc of None \<Rightarrow> True | Some v \<Rightarrow> v certs)"

definition tuneSession :: "cconfig \<Rightarrow> session \<Rightarrow> session" where
  "tuneSession c s = s\<lparr>s_PingInterval := cc_PingInterval c, s_IdleTimeout := cc_IdleTimeout c\<rparr>"

section \<open>Events and the tunnel's state\<close>

datatype EventKind =
  EventConnecting | EventConnected | EventReconnecting | EventDisconnected | EventRequest | EventShuttingDown

record event =
  ev_Kind :: EventKind
  ev_At :: int
  ev_PublicURL :: string
  ev_Subdomain :: string
  ev_Message :: string
  ev_Record :: "irec option"

record status =
  sx_Connected :: bool
  sx_PublicURL :: string
  sx_Subdomain :: string
  sx_Target :: string
  sx_Server :: string
  sx_Since :: "int option"
  sx_Requests :: int
  sx_LastMessage :: string

text \<open>\<open>tn_events\<close> is the channel's buffer, \<open>tn_log\<close> everything that was put into it, \<open>tn_records\<close> the calls of \<^verbatim>\<open>OnRecord\<close>.\<close>

record tunnel =
  tn_cfg :: cconfig
  tn_fwd :: forwarder
  tn_events :: "event list"
  tn_log :: "event list"
  tn_status :: status
  tn_sess :: bool
  tn_requests :: int
  tn_records :: "irec list"
  tn_closed :: bool
  tn_chanClosed :: bool
  tn_panicked :: bool

record clib =
  c_hello :: "hello \<Rightarrow> string option"
  c_ack :: "string \<Rightarrow> ack option"
  c_errText :: "err \<Rightarrow> string"
  c_msgText :: "msg_err \<Rightarrow> string"
  c_durText :: "int \<Rightarrow> string"

definition eventsCap :: nat where "eventsCap = 256"

definition mkEvent :: "EventKind \<Rightarrow> string \<Rightarrow> event" where
  "mkEvent k m = \<lparr>ev_Kind = k, ev_At = 0, ev_PublicURL = [], ev_Subdomain = [], ev_Message = m, ev_Record = None\<rparr>"

definition tn_New :: "cconfig \<Rightarrow> cfg_err + tunnel" where
  "tn_New cfg =
     (case Validate cfg of
        Inl e \<Rightarrow> Inl e
      | Inr c \<Rightarrow>
          let f = NewForwarder (cc_LocalHost c) (cc_LocalPort c) (cc_MaxBody c)
          in Inr \<lparr>tn_cfg = c, tn_fwd = f, tn_events = [], tn_log = [],
               tn_status = \<lparr>sx_Connected = False, sx_PublicURL = [], sx_Subdomain = [], sx_Target = ''http://'' @ LocalAddr f,
                 sx_Server = cc_ServerAddr c, sx_Since = None, sx_Requests = 0, sx_LastMessage = []\<rparr>,
               tn_sess = False, tn_requests = 0, tn_records = [], tn_closed = False, tn_chanClosed = False, tn_panicked = False\<rparr>)"

definition Status :: "tunnel \<Rightarrow> status" where
  "Status t = (tn_status t)\<lparr>sx_Requests := tn_requests t\<rparr>"

definition setStatus :: "(status \<Rightarrow> status) \<Rightarrow> tunnel \<Rightarrow> tunnel" where
  "setStatus g t = t\<lparr>tn_status := g (tn_status t)\<rparr>"

definition chanSend :: "event \<Rightarrow> tunnel \<Rightarrow> tunnel" where
  "chanSend e t =
     (if tn_chanClosed t then t\<lparr>tn_panicked := True\<rparr>
      else if length (tn_events t) < eventsCap then t\<lparr>tn_events := tn_events t @ [e], tn_log := tn_log t @ [e]\<rparr>
      else t)"

definition emit :: "int \<Rightarrow> event \<Rightarrow> tunnel \<Rightarrow> tunnel" where
  "emit now e t =
     (if tn_closed t then t
      else chanSend (e\<lparr>ev_At := now\<rparr>)
             (if ev_Message e \<noteq> [] then setStatus (\<lambda>s. s\<lparr>sx_LastMessage := ev_Message e\<rparr>) t else t))"

definition tn_shutdown :: "tunnel \<Rightarrow> tunnel" where
  "tn_shutdown t =
     (let t1 = t\<lparr>tn_closed := True\<rparr>
      in if tn_chanClosed t1 then t1\<lparr>tn_panicked := True\<rparr> else t1\<lparr>tn_chanClosed := True\<rparr>)"

text \<open>What the goroutine of a stream does when \<^verbatim>\<open>Serve\<close> has returned its record.\<close>

definition served :: "int \<Rightarrow> irec \<Rightarrow> tunnel \<Rightarrow> tunnel" where
  "served now rec t =
     emit now ((mkEvent EventRequest [])\<lparr>ev_Record := Some rec\<rparr>)
       (t\<lparr>tn_requests := tn_requests t + 1, tn_records := tn_records t @ [rec]\<rparr>)"

section \<open>One connection\<close>

datatype conn_err =
  DialErr string | HsWriteErr msg_err | HsReadErr msg_err | Rejected string string | SessionEnded | SessErr err

text \<open>
  What one round of the loop meets: how dialling ends, what the handshake's connection is, which requests are served while the
  session runs and what \<^verbatim>\<open>sess.Run\<close> returns, and whether the context is cancelled by the time the connection is over or during
  the wait after it.
\<close>

record attempt =
  at_now :: int
  at_dial :: "string + (writer \<times> reader)"
  at_served :: "irec list"
  at_end :: "err option"
  at_cancelled :: bool
  at_waitCancelled :: bool

definition helloOf :: "cconfig \<Rightarrow> hello" where
  "helloOf c = \<lparr>h_Type = TypeHello, h_Version = ControlVersion, h_Token = cc_Token c, h_Subdomain = cc_Subdomain c,
     h_Protected = cc_Protect c\<rparr>"

definition clientSession :: "cconfig \<Rightarrow> writer \<Rightarrow> session" where
  "clientSession c w = (tuneSession c (NewClientSession w))\<lparr>s_onStream := True\<rparr>"

text \<open>The bytes the connection has carried to the server are those of the returned writer, \<open>None\<close> when dialling failed.\<close>

definition connectOnce :: "clib \<Rightarrow> attempt \<Rightarrow> tunnel \<Rightarrow> conn_err \<times> writer option \<times> tunnel" where
  "connectOnce L a t =
     (case at_dial a of
        Inl e \<Rightarrow> (DialErr e, None, t)
      | Inr (w, rd) \<Rightarrow>
          (case WriteMessage (c_hello L) (helloOf (tn_cfg t)) w of
             (Some e, w1) \<Rightarrow> (HsWriteErr e, Some (w1\<lparr>w_closed := True\<rparr>), t)
           | (None, w1) \<Rightarrow>
               (case fst (ReadMessage (c_ack L) rd) of
                  Inl e \<Rightarrow> (HsReadErr e, Some (w1\<lparr>w_closed := True\<rparr>), t)
                | Inr ack \<Rightarrow>
                    if \<not> a_OK ack then (Rejected (a_Error ack) (a_Code ack), Some (w1\<lparr>w_closed := True\<rparr>), t)
                    else
                      let t1 = (setStatus (\<lambda>s. s\<lparr>sx_Connected := True, sx_PublicURL := a_PublicURL ack,
                                   sx_Subdomain := a_Subdomain ack, sx_Since := Some (at_now a)\<rparr>) t)\<lparr>tn_sess := True\<rparr>;
                          t2 = emit (at_now a) ((mkEvent EventConnected [])\<lparr>ev_PublicURL := a_PublicURL ack,
                                   ev_Subdomain := a_Subdomain ack\<rparr>) t1;
                          t3 = fold (served (at_now a)) (at_served a) t2
                      in (case at_end a of None \<Rightarrow> SessionEnded | Some e \<Rightarrow> SessErr e, Some (w1\<lparr>w_closed := True\<rparr>),
                          t3\<lparr>tn_sess := False\<rparr>))))"

definition connErrText :: "clib \<Rightarrow> tunnel \<Rightarrow> conn_err \<Rightarrow> string" where
  "connErrText L t e =
     (case e of
        DialErr m \<Rightarrow> ''dial '' @ cc_ServerAddr (tn_cfg t) @ '': '' @ m
      | HsWriteErr m \<Rightarrow> ''handshake write: '' @ c_msgText L m
      | HsReadErr m \<Rightarrow> ''handshake read: '' @ c_msgText L m
      | Rejected m code \<Rightarrow> ''server rejected connection: '' @ m
      | SessionEnded \<Rightarrow> ''session ended''
      | SessErr er \<Rightarrow> c_errText L er)"

section \<open>The loop\<close>

abbreviation second :: int where "second \<equiv> 10 ^ 9"

definition nextBackoff :: "int \<Rightarrow> int" where
  "nextBackoff b = (if b < 10 * second then (if 10 * second < b * 2 then 10 * second else b * 2) else b)"

definition tlsRequired :: "conn_err \<Rightarrow> bool" where
  "tlsRequired e = (case e of Rejected m code \<Rightarrow> code = CodeTLSRequired | _ \<Rightarrow> False)"

text \<open>
  How far \<^verbatim>\<open>Run\<close> has come after the given rounds: still going round, staying down until the user quits, or returned.
\<close>

datatype run_state = Running | StayingDown | Returned

primrec runLoop :: "clib \<Rightarrow> int \<Rightarrow> attempt list \<Rightarrow> tunnel \<Rightarrow> int list \<times> nat \<times> run_state \<times> tunnel" where
  "runLoop L backoff [] t = ([], 0, Running, t)"
| "runLoop L backoff (a # as) t =
     (let t1 = emit (at_now a) (mkEvent EventConnecting (''connecting to '' @ cc_ServerAddr (tn_cfg t))) t
      in case connectOnce L a t1 of (e, w, t2) \<Rightarrow>
        if at_cancelled a then ([], 1, Returned, emit (at_now a) (mkEvent EventShuttingDown []) t2)
        else let t3 = setStatus (\<lambda>s. s\<lparr>sx_Connected := False\<rparr>) t2
        in if tlsRequired e
           then let t4 = emit (at_now a) (mkEvent EventDisconnected
                      (connErrText L t3 e @ '' (not retrying: that would resend the token in plaintext)'')) t3
                in if at_waitCancelled a then ([], 1, Returned, emit (at_now a) (mkEvent EventShuttingDown []) t4)
                   else ([], 1, StayingDown, t4)
           else let t4 = emit (at_now a) (mkEvent EventDisconnected (connErrText L t3 e)) t3
                in if at_waitCancelled a then ([], 1, Returned, emit (at_now a) (mkEvent EventShuttingDown []) t4)
                   else let t5 = emit (at_now a) (mkEvent EventReconnecting
                              (''reconnecting (backoff '' @ c_durText L backoff @ '')'')) t4
                        in case runLoop L (nextBackoff backoff) as t5 of
                             (ws, n, st, t6) \<Rightarrow> (backoff # ws, Suc n, st, t6))"

definition tn_Run :: "clib \<Rightarrow> attempt list \<Rightarrow> tunnel \<Rightarrow> int list \<times> nat \<times> run_state \<times> tunnel" where
  "tn_Run L as t =
     (case runLoop L second as t of
        (ws, n, st, t1) \<Rightarrow> (ws, n, st, if st = Returned then tn_shutdown t1 else t1))"

end
