(* ===== verification/Inspector.thy ===== *)
theory Inspector
  imports Tunnel
begin

text \<open>
  The inspector, \<^verbatim>\<open>internal/inspection/server.go\<close> and \<^verbatim>\<open>hub.go\<close>: a local web application over the store of captured exchanges, with a
  guard in front of every route and a feed to the connected tabs. A request is the one of theory \<^verbatim>\<open>Http\<close>; the state is passed explicitly. URL
  parsing and what the \<^verbatim>\<open>net\<close> package says of IP addresses are in \<open>ilib\<close>. Tabs are numbered by connection.
\<close>

section \<open>State and replies\<close>

record ilib =
  il_lower :: "string \<Rightarrow> string"
  il_urlParse :: "string \<Rightarrow> (string \<times> string \<times> string) option"
  il_unspecified :: "string \<Rightarrow> bool"
  il_specificIP :: "string \<Rightarrow> string option"
  il_marshal :: "irec \<Rightarrow> bool"

record insp =
  in_store :: store
  in_conns :: "nat list"
  in_feed :: "(nat \<times> irec) list"
  in_replayer :: "(irec \<Rightarrow> string + irec) option"
  in_status :: "status option"
  in_token :: string
  in_port :: string
  in_ip :: string

datatype ipage =
    ITextPage string
  | IDenyPage
  | IIndexPage
  | IRecords "irec option list"
  | IRecord irec
  | IError string nat
  | ICleared
  | IStatus status
  | IDisconnected
  | INothing

record ireply =
  ip_Status :: nat
  ip_Location :: "string option"
  ip_Cookie :: "(string \<times> string) option"
  ip_Page :: ipage

definition TokenHeader :: string where "TokenHeader = ''X-Munnel-Inspector-Token''"
definition tokenParam :: string where "tokenParam = ''t''"

text \<open>\<open>None\<close> is the panic when the system has no randomness to give.\<close>

definition in_New ::
  "string option \<Rightarrow> store \<Rightarrow> (irec \<Rightarrow> string + irec) option \<Rightarrow> status option \<Rightarrow> insp option" where
  "in_New rnd st replayer stat =
     (case rnd of
        None \<Rightarrow> None
      | Some b \<Rightarrow> Some \<lparr>in_store = st, in_conns = [], in_feed = [], in_replayer = replayer, in_status = stat,
                       in_token = hexEncode b, in_port = [], in_ip = []\<rparr>)"

definition URLFor :: "ilib \<Rightarrow> insp \<Rightarrow> string \<Rightarrow> string" where
  "URLFor L s addr =
     (case SplitHostPort addr of
        None \<Rightarrow> []
      | Some (host, port) \<Rightarrow>
          let h = (if host = [] \<or> il_unspecified L host then ''127.0.0.1'' else host)
          in ''http://'' @ JoinHostPort h port @ ''/?'' @ tokenParam @ ''='' @ in_token s)"

text \<open>What \<^verbatim>\<open>ListenAndServe\<close> remembers of the address it was bound to.\<close>

definition listening :: "ilib \<Rightarrow> string \<Rightarrow> insp \<Rightarrow> insp" where
  "listening L addr s =
     (case SplitHostPort addr of
        None \<Rightarrow> s
      | Some (host, port) \<Rightarrow>
          s\<lparr>in_port := port, in_ip := (case il_specificIP L host of None \<Rightarrow> in_ip s | Some ip \<Rightarrow> ip)\<rparr>)"

section \<open>The guard\<close>

definition cookieName :: "insp \<Rightarrow> string" where
  "cookieName s = ''munnel_inspector_'' @ in_port s"

definition validToken :: "insp \<Rightarrow> string \<Rightarrow> bool" where
  "validToken s t \<longleftrightarrow> t = in_token s"

definition authorized :: "insp \<Rightarrow> request \<Rightarrow> bool" where
  "authorized s r =
     (let t = hdr_Get (rq_Header r) TokenHeader
      in if t \<noteq> [] then validToken s t
         else case map_of (rq_Cookies r) (cookieName s) of None \<Rightarrow> False | Some v \<Rightarrow> validToken s v)"

definition allowedHost :: "ilib \<Rightarrow> insp \<Rightarrow> string \<Rightarrow> bool" where
  "allowedHost L s hostport =
     (case SplitHostPort hostport of
        None \<Rightarrow> False
      | Some (host, port) \<Rightarrow>
          if port \<noteq> in_port s then False
          else let h = ToLower (il_lower L) host
               in if h = ''127.0.0.1'' \<or> h = ''localhost'' \<or> h = ''::1'' then True else in_ip s \<noteq> [] \<and> h = in_ip s)"

definition allowedOrigin :: "ilib \<Rightarrow> insp \<Rightarrow> string \<Rightarrow> bool" where
  "allowedOrigin L s origin =
     (case il_urlParse L origin of
        None \<Rightarrow> False
      | Some (scheme, path, host) \<Rightarrow> scheme = ''http'' \<and> path = [] \<and> allowedHost L s host)"

definition mkIReply :: "nat \<Rightarrow> ipage \<Rightarrow> ireply" where
  "mkIReply status pg = \<lparr>ip_Status = status, ip_Location = None, ip_Cookie = None, ip_Page = pg\<rparr>"

definition denyPage :: ireply where "denyPage = mkIReply 401 IDenyPage"

definition writeError :: "nat \<Rightarrow> string \<Rightarrow> ireply" where
  "writeError code msg = mkIReply code (IError msg code)"

text \<open>\<open>None\<close>: the request goes on to its handler.\<close>

definition guard :: "ilib \<Rightarrow> insp \<Rightarrow> request \<Rightarrow> ireply option" where
  "guard L s r =
     (let o1 = hdr_Get (rq_Header r) ''Origin'';
          q = map_of (rq_Query r) tokenParam
      in if \<not> allowedHost L s (rq_Host r) then Some (mkIReply 403 (ITextPage ''munnel inspector: forbidden host''))
         else if o1 \<noteq> [] \<and> \<not> allowedOrigin L s o1 then Some (mkIReply 403 (ITextPage ''munnel inspector: forbidden origin''))
         else if rq_Path r = ''/'' \<and> rq_Method r = ''GET'' \<and> q \<noteq> None then
           (if \<not> validToken s (the q) then Some denyPage
            else Some \<lparr>ip_Status = 303, ip_Location = Some ''/'', ip_Cookie = Some (cookieName s, in_token s), ip_Page = INothing\<rparr>)
         else if \<not> authorized s r then
           Some (if rq_Path r = ''/'' then denyPage else writeError 401 ''missing or wrong inspector token'')
         else None)"

section \<open>The feed\<close>

definition hub_join :: "nat \<Rightarrow> insp \<Rightarrow> insp" where
  "hub_join c s = s\<lparr>in_conns := (if c \<in> set (in_conns s) then in_conns s else in_conns s @ [c])\<rparr>"

definition hub_leave :: "nat \<Rightarrow> insp \<Rightarrow> insp" where
  "hub_leave c s = s\<lparr>in_conns := removeAll c (in_conns s)\<rparr>"

text \<open>\<open>dead\<close>: the connections on which writing fails.\<close>

definition BroadcastRecord :: "ilib \<Rightarrow> (nat \<Rightarrow> bool) \<Rightarrow> irec \<Rightarrow> insp \<Rightarrow> insp" where
  "BroadcastRecord L dead rec s =
     (if \<not> il_marshal L rec then s
      else s\<lparr>in_feed := in_feed s @ map (\<lambda>c. (c, rec)) (filter (\<lambda>c. \<not> dead c) (in_conns s)),
             in_conns := filter (\<lambda>c. \<not> dead c) (in_conns s)\<rparr>)"

text \<open>The client's \<^verbatim>\<open>OnRecord\<close> (\<^verbatim>\<open>cmd/client/main.go\<close>): every exchange is stored and sent to the tabs.\<close>

definition onRecord :: "ilib \<Rightarrow> (nat \<Rightarrow> bool) \<Rightarrow> int \<Rightarrow> irec \<Rightarrow> insp \<Rightarrow> insp" where
  "onRecord L dead now rec s =
     (case Add now rec (in_store s) of (stored, st1) \<Rightarrow> BroadcastRecord L dead stored (s\<lparr>in_store := st1\<rparr>))"

section \<open>Routes\<close>

text \<open>
  The patterns of \<^verbatim>\<open>http.ServeMux\<close>: a GET pattern also serves HEAD, \<^verbatim>\<open>{id}\<close> is one non-empty segment, a known path with another method
  is 405. The paths are as the mux sees them, already cleaned.
\<close>

datatype route = RIndex | RList | ROne string | RReplay string | RClear | RStatus | RWS | RNotFound | RMethod

definition segment :: "string \<Rightarrow> string \<Rightarrow> string option" where
  "segment pre p =
     (if HasPrefix p pre \<and> drop (length pre) p \<noteq> [] \<and> CHR ''/'' \<notin> set (drop (length pre) p)
      then Some (drop (length pre) p) else None)"

definition routeOf :: "string \<Rightarrow> string \<Rightarrow> route" where
  "routeOf m p =
     (let get = (m = ''GET'' \<or> m = ''HEAD'')
      in if p = ''/'' then (if get then RIndex else RMethod)
         else if p = ''/api/requests'' then (if get then RList else if m = ''DELETE'' then RClear else RMethod)
         else if p = ''/api/status'' then (if get then RStatus else RMethod)
         else if p = ''/ws'' then (if get then RWS else RMethod)
         else case segment ''/api/requests/'' p of
           Some i \<Rightarrow> if get then ROne i else RMethod
         | None \<Rightarrow>
             (case segment ''/api/replay/'' p of
                Some i \<Rightarrow> if m = ''POST'' then RReplay i else RMethod
              | None \<Rightarrow> RNotFound))"

text \<open>The handlers; the outer \<open>None\<close> is a panic.\<close>

definition serveOne :: "insp \<Rightarrow> string \<Rightarrow> ireply option" where
  "serveOne s i =
     (case ParseInt i of
        None \<Rightarrow> Some (writeError 400 ''bad id'')
      | Some n \<Rightarrow>
          (case store_Get n (in_store s) of
             None \<Rightarrow> None
           | Some None \<Rightarrow> Some (writeError 404 ''not found'')
           | Some (Some rec) \<Rightarrow> Some (mkIReply 200 (IRecord rec))))"

definition serveReplay :: "ilib \<Rightarrow> (nat \<Rightarrow> bool) \<Rightarrow> int \<Rightarrow> insp \<Rightarrow> string \<Rightarrow> (ireply \<times> insp) option" where
  "serveReplay L dead now s i =
     (case ParseInt i of
        None \<Rightarrow> Some (writeError 400 ''bad id'', s)
      | Some n \<Rightarrow>
          (case store_Get n (in_store s) of
             None \<Rightarrow> None
           | Some None \<Rightarrow> Some (writeError 404 ''request no longer in buffer'', s)
           | Some (Some rec) \<Rightarrow>
               (case in_replayer s of
                  None \<Rightarrow> Some (writeError 503 ''replay unavailable'', s)
                | Some replay \<Rightarrow>
                    (case replay rec of
                       Inl e \<Rightarrow> Some (writeError 422 e, s)
                     | Inr fresh \<Rightarrow>
                         (case Add now fresh (in_store s) of (stored, st1) \<Rightarrow>
                            Some (mkIReply 200 (IRecord stored), BroadcastRecord L dead stored (s\<lparr>in_store := st1\<rparr>)))))))"

definition serveClear :: "insp \<Rightarrow> ireply \<times> insp" where
  "serveClear s = (mkIReply 200 ICleared, s\<lparr>in_store := Clear (in_store s)\<rparr>)"

definition serveStatus :: "insp \<Rightarrow> ireply" where
  "serveStatus s = (case in_status s of None \<Rightarrow> mkIReply 200 IDisconnected | Some st \<Rightarrow> mkIReply 200 (IStatus st))"

text \<open>\<open>ws\<close>: the number of the connection if the websocket upgrade succeeds.\<close>

definition handler ::
  "ilib \<Rightarrow> (nat \<Rightarrow> bool) \<Rightarrow> int \<Rightarrow> nat option \<Rightarrow> insp \<Rightarrow> request \<Rightarrow> (ireply \<times> insp) option" where
  "handler L dead now ws s r =
     (case routeOf (rq_Method r) (rq_Path r) of
        RIndex \<Rightarrow> Some (mkIReply 200 IIndexPage, s)
      | RList \<Rightarrow> Some (mkIReply 200 (IRecords (List (in_store s))), s)
      | ROne i \<Rightarrow> map_option (\<lambda>rep. (rep, s)) (serveOne s i)
      | RReplay i \<Rightarrow> serveReplay L dead now s i
      | RClear \<Rightarrow> Some (serveClear s)
      | RStatus \<Rightarrow> Some (serveStatus s, s)
      | RWS \<Rightarrow> Some (mkIReply (if ws = None then 400 else 101) INothing, case ws of None \<Rightarrow> s | Some c \<Rightarrow> hub_join c s)
      | RNotFound \<Rightarrow> Some (mkIReply 404 (ITextPage ''404 page not found''), s)
      | RMethod \<Rightarrow> Some (mkIReply 405 (ITextPage ''Method Not Allowed''), s))"

definition inspect ::
  "ilib \<Rightarrow> (nat \<Rightarrow> bool) \<Rightarrow> int \<Rightarrow> nat option \<Rightarrow> insp \<Rightarrow> request \<Rightarrow> (ireply \<times> insp) option" where
  "inspect L dead now ws s r =
     (case guard L s r of Some rep \<Rightarrow> Some (rep, s) | None \<Rightarrow> handler L dead now ws s r)"

end
