(* ===== verification/Forwarder_Props.thy ===== *)
theory Forwarder_Props
  imports Forwarder
begin

text \<open>
  What the dispatcher promises: exactly which bodies it accepts, what it keeps of them, that it never leaves a stream open, and
  that a response of the local service goes back over the tunnel unchanged.
\<close>

section \<open>Bounded reading\<close>

text \<open>The error a copy from a reader reports: everything but the end of the input.\<close>

definition copyErr :: "err \<Rightarrow> err option" where
  "copyErr e = (if e = EOF then None else Some e)"

lemma limitCopy_spec:
  "0 < sz \<Longrightarrow> limitCopy sz n b =
     ((if n \<noteq> 0 \<and> (length (br_bytes b) < n \<or> br_eager b \<and> length (br_bytes b) = n) then copyErr (br_end b) else None,
       take n (br_bytes b)), b\<lparr>br_bytes := drop n (br_bytes b)\<rparr>)"
proof (induction sz n b rule: limitCopy.induct)
  case (1 sz n b)
  let ?x = "br_bytes b" and ?m = "min sz n"
  consider "n = 0" | "n \<noteq> 0" "?x = []" | "n \<noteq> 0" "?x \<noteq> []" "br_eager b" "length ?x \<le> ?m"
    | "n \<noteq> 0" "?x \<noteq> []" "\<not> (br_eager b \<and> length ?x \<le> ?m)" by blast
  then show ?case
  proof cases
    case 1
    then show ?thesis by (simp add: limitCopy.simps [of sz 0 b])
  next
    case 4
    let ?b1 = "b\<lparr>br_bytes := drop ?m ?x\<rparr>"
    have rd: "bodyRead ?m b = ((take ?m ?x, None), ?b1)" using 4 by (simp add: bodyRead_def)
    have len: "length (take ?m ?x) = min (length ?x) ?m" by simp
    let ?n' = "n - length (take ?m ?x)"
    have ih: "limitCopy sz ?n' ?b1 =
        ((if ?n' \<noteq> 0 \<and> (length (br_bytes ?b1) < ?n' \<or> br_eager ?b1 \<and> length (br_bytes ?b1) = ?n') then copyErr (br_end ?b1) else None,
          take ?n' (br_bytes ?b1)), ?b1\<lparr>br_bytes := drop ?n' (br_bytes ?b1)\<rparr>)"
      using "1.IH" [OF _ rd [symmetric] refl refl] 4 "1.prems" by simp
    have whole: "take ?m ?x @ take ?n' (drop ?m ?x) = take n ?x" "drop ?n' (drop ?m ?x) = drop n ?x"
      by (cases "length ?x \<le> ?m"; simp add: min_def take_add [symmetric] split: if_splits)+
    have cond: "?n' \<noteq> 0 \<and> (length (drop ?m ?x) < ?n' \<or> br_eager b \<and> length (drop ?m ?x) = ?n') \<longleftrightarrow>
        length ?x < n \<or> br_eager b \<and> length ?x = n"
      using 4 "1.prems" by (auto simp: min_def split: if_splits)
    show ?thesis using 4(1) "1.prems" rd ih whole cond by (simp add: limitCopy.simps [of sz n b])
  qed (use "1.prems" in \<open>auto simp: limitCopy.simps [of sz n b] bodyRead_def copyErr_def\<close>)
qed

lemma countExtra_spec:
  "countExtra over b =
     (over + (if br_eager b \<and> br_bytes b \<noteq> [] then length (br_bytes b) - 1 else length (br_bytes b)), Some (br_end b))"
proof (induction over b rule: countExtra.induct)
  case (1 over b)
  show ?case
  proof (cases "br_bytes b = [] \<or> br_eager b \<and> length (br_bytes b) \<le> 1")
    case True
    then show ?thesis by (cases "br_bytes b") (auto simp: countExtra.simps [of over b] bodyRead_def)
  next
    case False
    let ?b1 = "b\<lparr>br_bytes := drop 1 (br_bytes b)\<rparr>"
    have rd: "bodyRead 1 b = ((take 1 (br_bytes b), None), ?b1)" using False by (auto simp: bodyRead_def)
    have ne: "take 1 (br_bytes b) \<noteq> []" using False by simp
    have one: "length (take 1 (br_bytes b)) = 1" using False by (cases "br_bytes b") auto
    have "countExtra over b = countExtra (over + 1) ?b1"
      using rd ne one by (subst countExtra.simps) simp
    also have "\<dots> = (over + 1 + (if br_eager ?b1 \<and> br_bytes ?b1 \<noteq> [] then length (br_bytes ?b1) - 1 else length (br_bytes ?b1)),
        Some (br_end ?b1))"
      using "1.IH" [OF rd [symmetric] refl _] ne one by simp
    finally show ?thesis using False by (cases "br_bytes b") (auto simp: Suc_le_eq)
  qed
qed

lemma readAllLimited_spec:
  assumes "0 < sz"
  shows "readAllLimited sz b limit =
     (if br_end b = EOF
      then Inr (take limit (br_bytes b), length (br_bytes b) - limit - (if br_eager b \<and> limit < length (br_bytes b) then 1 else 0))
      else Inl (br_end b))"
  using limitCopy_spec [OF assms, of limit b]
  by (auto simp: readAllLimited_def countExtra_spec copyErr_def split: option.splits if_splits)

text \<open>
  Property C37. Which request bodies are forwarded. \<^verbatim>\<open>readAllLimited\<close> gives back the whole body and an excess of zero for every body within
  the limit, independently of the buffer size; a body whose reader reports its end by a read of its own is refused exactly when
  it is longer; a reader that reports the end together with the last byte hides one byte, so that a body of one byte too many counts as
  within the limit and loses that byte. A reading error is passed on.
\<close>

theorem body_limit:
  assumes "0 < sz"
  shows "readAllLimited sz b limit =
       (if br_end b = EOF
        then Inr (take limit (br_bytes b), length (br_bytes b) - limit - (if br_eager b \<and> limit < length (br_bytes b) then 1 else 0))
        else Inl (br_end b)) \<and>
     (\<forall>body over. readAllLimited sz b limit = Inr (body, over) \<longrightarrow>
        length body \<le> limit \<and>
        (length (br_bytes b) \<le> limit \<longrightarrow> body = br_bytes b \<and> over = 0) \<and>
        (over = 0 \<longleftrightarrow> length (br_bytes b) \<le> limit \<or> br_eager b \<and> length (br_bytes b) = limit + 1))"
  unfolding readAllLimited_spec [OF assms] by auto

theorem body_limit_witness:
  "readAllLimited 512 \<lparr>br_bytes = ''abc'', br_end = EOF, br_eager = False\<rparr> 2 = Inr (''ab'', 1) \<and>
   readAllLimited 512 \<lparr>br_bytes = ''abc'', br_end = EOF, br_eager = True\<rparr> 2 = Inr (''ab'', 0) \<and>
   readAllLimited 512 \<lparr>br_bytes = ''abc'', br_end = EOF, br_eager = True\<rparr> 3 = Inr (''abc'', 0)"
proof (intro conjI)
  show "readAllLimited 512 \<lparr>br_bytes = ''abc'', br_end = EOF, br_eager = False\<rparr> 2 = Inr (''ab'', 1)"
    by (subst body_limit [THEN conjunct1]) simp_all
  show "readAllLimited 512 \<lparr>br_bytes = ''abc'', br_end = EOF, br_eager = True\<rparr> 2 = Inr (''ab'', 0)"
    by (subst body_limit [THEN conjunct1]) simp_all
  show "readAllLimited 512 \<lparr>br_bytes = ''abc'', br_end = EOF, br_eager = True\<rparr> 3 = Inr (''abc'', 0)"
    by (subst body_limit [THEN conjunct1]) simp_all
qed

section \<open>Capturing\<close>

lemma lb_Write_spec:
  assumes "lb_buf l = take (lb_limit l) x" and "lb_truncated l \<longleftrightarrow> lb_limit l < length x" and "p \<noteq> []"
  shows "lb_buf (lb_Write p l) = take (lb_limit l) (x @ p) \<and> (lb_truncated (lb_Write p l) \<longleftrightarrow> lb_limit l < length (x @ p)) \<and>
     lb_limit (lb_Write p l) = lb_limit l"
proof -
  have "0 < length p" using assms(3) by simp
  then show ?thesis
    using assms(1,2) by (cases "length x < lb_limit l") (auto simp: lb_Write_def Let_def nat_diff_distrib' min_def)
qed

lemma fold_lb_Write:
  assumes "lb_buf l = take (lb_limit l) x" and "lb_truncated l \<longleftrightarrow> lb_limit l < length x" and "list_all (\<lambda>p. p \<noteq> []) ps"
  shows "lb_buf (fold lb_Write ps l) = take (lb_limit l) (x @ concat ps) \<and>
     (lb_truncated (fold lb_Write ps l) \<longleftrightarrow> lb_limit l < length (x @ concat ps))"
  using assms
proof (induction ps arbitrary: l x)
  case (Cons p ps)
  from Cons.prems(3) have p: "p \<noteq> []" by simp
  note w = lb_Write_spec [OF Cons.prems(1,2) p]
  from Cons.IH [of "lb_Write p l" "x @ p"] w Cons.prems(3) show ?case by simp
qed simp

lemma capture_fold:
  assumes "list_all (\<lambda>p. p \<noteq> []) ps"
  shows "lb_buf (fold lb_Write ps capBuf) = take captureLimit (concat ps)"
    "lb_truncated (fold lb_Write ps capBuf) \<longleftrightarrow> captureLimit < length (concat ps)"
  using fold_lb_Write [of capBuf "[]" ps] assms by (simp_all add: capBuf_def)

text \<open>
  Property C35. The capture buffer computes the display truncation: however a body arrives in (non-empty) pieces, what the limited buffer has
  kept and whether it calls itself truncated is what \<^verbatim>\<open>truncateForDisplay\<close> gives for the whole body at once.
\<close>

theorem capture_exact:
  assumes "list_all (\<lambda>p. p \<noteq> []) ps"
  shows "(lb_buf (fold lb_Write ps capBuf), lb_truncated (fold lb_Write ps capBuf)) = truncateForDisplay (concat ps)"
  unfolding capture_fold [OF assms] by (auto simp: truncateForDisplay_def)

theorem capture_exact_witness:
  "(lb_buf (fold lb_Write [''ab'', ''c''] capBuf), lb_truncated (fold lb_Write [''ab'', ''c''] capBuf)) = (''abc'', False)"
  using capture_exact [of "[''ab'', ''c'']"] by (simp add: truncateForDisplay_def captureLimit_def)

section \<open>The stream is always closed\<close>

abbreviation halfClosed :: "stream \<Rightarrow> bool" where
  "halfClosed st \<equiv> sentClose st \<or> rst st"

lemma CloseWrite_closes:
  assumes "r < length (s_heap s)"
  shows "halfClosed (strm (snd (CloseWrite r s)) r)"
proof (cases "halfClosed (strm s r)")
  case False
  let ?s1 = "upd r (\<lambda>st. st\<lparr>sentClose := True\<rparr>) s"
  obtain e s2 where s2: "sess_writeFrame FrameClose (st_id (strm s r)) [] ?s1 = (e, s2)" by fastforce
  have "sentClose (strm s2 r)" "r < length (s_heap s2)"
    using assms sess_writeFrame_same(1,7) [of FrameClose "st_id (strm s r)" "[]" ?s1] s2 by simp_all
  moreover have "sentClose (strm (remove r s2) r)"
    using calculation by (simp add: remove_net strm_def removeStream_def upd_def)
  ultimately show ?thesis using False s2 by (simp add: CloseWrite_def Let_def)
qed (simp add: CloseWrite_def)

lemma CloseWrite_again: "halfClosed (strm s r) \<Longrightarrow> snd (CloseWrite r s) = s"
  by (auto simp: CloseWrite_def)

lemma writeParts_conn_only: "conn_only s (snd (writeParts r ps s))"
proof (induction ps arbitrary: s)
  case (Cons p ps)
  obtain n e s1 where w: "Write r p s = ((n, e), s1)" by (metis prod.exhaust)
  then have "conn_only s s1" using Write_conn_only [of s r p] by simp
  with w Cons.IH [of s1] conn_only_trans show ?case by (cases e) auto
qed simp

lemma writeRawError_heap: "s_heap (writeRawError L st status msg s) = s_heap s"
  unfolding writeRawError_def by (rule conn_only_frame(1) [OF writeParts_conn_only])

lemma writeResp_heap:
  assumes "\<And>k t. length (s_heap t) \<le> length (s_heap (evo k t))"
  shows "length (s_heap s) \<le> length (s_heap (snd (writeResp evo st ps k l s)))"
proof (induction ps arbitrary: k l s)
  case (Cons p ps)
  obtain n e s1 where w: "Write st (snd p) (evo k s) = ((n, e), s1)" by (metis prod.exhaust)
  then have "s_heap s1 = s_heap (evo k s)"
    using conn_only_frame(1) [OF Write_conn_only [of "evo k s" st "snd p"]] by simp
  with assms [of s k] w Cons.IH [of s1] show ?case by (cases e) (auto simp: Let_def intro: order_trans)
qed simp

lemma servePlain_heap:
  assumes "\<And>k t. length (s_heap t) \<le> length (s_heap (evo k t))"
  shows "length (s_heap s) \<le> length (s_heap (snd (servePlain L f evo sz dur st req rec s)))"
  using assms [of s 0] writeResp_heap [of evo, OF assms]
  by (auto simp: servePlain_def writeRawError_heap Let_def split: sum.splits prod.splits) (metis snd_conv)

lemma servePlain_rec:
  "\<exists>r. fst (servePlain L f evo sz dur st req rec s) = r \<and> ir_Time r = ir_Time rec \<and> ir_Method r = ir_Method rec \<and>
     ir_Path r = ir_Path rec \<and> ir_ReqHeaders r = ir_ReqHeaders rec"
  by (auto simp: servePlain_def errored_def Let_def split: sum.splits prod.splits option.splits)

text \<open>
  Property C31. The dispatcher owns its stream and closes it: on every path (a malformed request, a body that cannot be read or is too
  large, an unreachable local service, a failing or complete response, an upgrade), whatever other goroutines did to the session meanwhile, the
  stream's writing half is closed or the stream is reset when \<^verbatim>\<open>Serve\<close> returns, and the exchange is recorded under its own method, path and headers.
\<close>

theorem serve_closes_stream:
  assumes st: "st < length (s_heap s)" and evo: "\<And>k t. length (s_heap t) \<le> length (s_heap (evo k t))"
    and serve: "Serve L f evo sz start dur st dial flush pre rq s = (rec, s')"
  shows "(sentClose (strm s' st) \<or> rst (strm s' st)) \<and> ir_Time rec = Some start \<and>
     (case rq of Inl e \<Rightarrow> ir_Errored rec
      | Inr req \<Rightarrow> ir_Method rec = cr_Method req \<and> ir_Path rec = cr_URI req \<and> ir_ReqHeaders rec = cr_Header req)"
proof (cases rq)
  case (Inl e)
  then show ?thesis
    using serve CloseWrite_closes [of st "writeRawError L st 400 ''malformed request'' s"] st
    by (auto simp: Serve_def errored_def newRec_def writeRawError_heap)
next
  case (Inr req)
  let ?r = "(newRec start)\<lparr>ir_Method := cr_Method req, ir_Path := cr_URI req, ir_ReqHeaders := cr_Header req\<rparr>"
  show ?thesis
  proof (cases "fw_isUpgrade req")
    case True
    have c: "halfClosed (strm (snd (CloseWrite st t)) st)" if "length (s_heap s) \<le> length (s_heap t)" for t
      using CloseWrite_closes [of st t] st that by simp
    have "rec = fst (serveWebSocket L f evo dur st dial flush pre req ?r s)"
      "s' = snd (snd (serveWebSocket L f evo dur st dial flush pre req ?r s))"
      using serve Inr True by (simp_all add: Serve_def Let_def split: prod.splits)
    then show ?thesis
      using Inr c [of "writeRawError L st 502 (goneMsg f) s"] c [of s] c [of "evo 0 s"] evo [of s 0]
      by (auto simp: serveWebSocket_def errored_def newRec_def writeRawError_heap stream_Close_def CloseWrite_again
          split: option.splits)
  next
    case False
    obtain r1 s1 where p: "servePlain L f evo sz dur st req ?r s = (r1, s1)" by fastforce
    then have "rec = r1" "s' = snd (CloseWrite st s1)" using serve Inr False by (simp_all add: Serve_def Let_def)
    moreover have "st < length (s_heap s1)" using servePlain_heap [of evo s L f sz dur st req ?r, OF evo] p st by simp
    ultimately show ?thesis
      using CloseWrite_closes [of st s1] servePlain_rec [of L f evo sz dur st req ?r s] p Inr by (simp add: newRec_def)
  qed
qed

section \<open>The response goes back\<close>

lemma concat_nonempty: "concat (filter (\<lambda>p. p \<noteq> []) ps) = concat ps"
  by (induction ps) simp_all

lemma writeResp_parts:
  "writeParts st (map snd ps) s = (None, s') \<Longrightarrow>
   writeResp (\<lambda>_ t. t) st ps k l s = ((None, fold lb_Write (filter (\<lambda>p. p \<noteq> []) (map fst ps)) l), s')"
  by (induction ps arbitrary: k l s) (auto simp: Let_def split: prod.splits option.splits)

text \<open>
  A complete exchange: when the body is within the limit, the local service answers and the tunnel works, the stream
  carries exactly the bytes of the response, in order, and is then closed; and the record has the response's status and headers, both
  bodies as far as the display limit, and no error.
\<close>

lemma Serve_writes:
  assumes h: "healthy s" and st: "st < length (s_heap s)" "checkWrite (strm s st) = None"
    and plain: "\<not> fw_isUpgrade req" and body: "readAllLimited sz (cr_Body req) (nat (fd_MaxBody f)) = Inr (body, 0)"
    and resp: "fw_roundTrip L (buildLocalRequest f req body) = Inr resp"
    and whole: "concat (map fst (fw_respWrite L resp)) = ls_Body resp"
  shows "\<exists>s'. Serve L f (\<lambda>_ t. t) sz start dur st dial flush pre (Inr req) s =
       ((newRec start)\<lparr>ir_Method := cr_Method req, ir_Path := cr_URI req, ir_ReqHeaders := cr_Header req,
          ir_ReqBody := fst (truncateForDisplay body), ir_ReqTruncated := snd (truncateForDisplay body),
          ir_Status := int (ls_Status resp), ir_RespHeaders := ls_Header resp,
          ir_RespBody := fst (truncateForDisplay (ls_Body resp)), ir_RespTruncated := snd (truncateForDisplay (ls_Body resp)),
          ir_Duration := dur\<rparr>, s') \<and>
     w_bytes (s_conn s') = w_bytes (s_conn s) @
       concat (map (\<lambda>p. frame_bytes (FrameData, st_id (strm s st), p)) (concat (map chunked (map snd (fw_respWrite L resp))))) @
       frame_bytes (FrameClose, st_id (strm s st), [])"
proof -
  let ?w = "fw_respWrite L resp" and ?i = "st_id (strm s st)"
  let ?ps = "concat (map chunked (map snd ?w))" and ?fs = "filter (\<lambda>p. p \<noteq> []) (map fst ?w)"
  obtain s1 where s1: "writeParts st (map snd ?w) s = (None, s1)" "healthy s1" "conn_only s s1"
      "w_bytes (s_conn s1) = w_bytes (s_conn s) @ concat (map (\<lambda>p. frame_bytes (FrameData, ?i, p)) ?ps)"
    using writeParts_healthy [OF h st(2)] by blast
  have same: "strm s1 st = strm s st" "s_heap s1 = s_heap s"
    using conn_only_frame(1,7) [OF s1(3)] by simp_all
  have c1: "checkWrite (strm s1 st) = None" "st < length (s_heap s1)" using st same by simp_all
  from s1(2) c1 obtain s2 where s2: "CloseWrite st s1 = (None, s2)"
      "w_bytes (s_conn s2) = w_bytes (s_conn s1) @ frame_bytes (FrameClose, st_id (strm s1 st), [])"
    by (rule CloseWrite_healthy)
  have "concat ?fs = ls_Body resp" using whole by (simp add: concat_nonempty)
  moreover have "list_all (\<lambda>p. p \<noteq> []) ?fs" by (simp add: list_all_iff)
  ultimately have cap: "lb_buf (fold lb_Write ?fs capBuf) = fst (truncateForDisplay (ls_Body resp))"
    "lb_truncated (fold lb_Write ?fs capBuf) = snd (truncateForDisplay (ls_Body resp))"
    using capture_fold [of ?fs] by (auto simp: truncateForDisplay_def)
  then show ?thesis
    using plain body resp writeResp_parts [OF s1(1)] s2 s1(4) same cap
    by (intro exI [of _ s2]) (simp add: Serve_def servePlain_def Let_def)
qed

text \<open>A local service that always answers \<^verbatim>\<open>ok\<close>, written in two pieces, and a request for it.\<close>

definition demo_fwlib :: fwlib where
  "demo_fwlib = \<lparr>fw_roundTrip = (\<lambda>_. Inr \<lparr>ls_Status = 200, ls_Header = [], ls_Body = ''ok''\<rparr>),
     fw_respWrite = (\<lambda>r. [([], [72]), (ls_Body r, strBytes (ls_Body r))]), fw_errText = (\<lambda>_. ''err'')\<rparr>"

definition demo_creq :: creq where
  "demo_creq = \<lparr>cr_Method = ''GET'', cr_Path = ''/x'', cr_RawPath = [], cr_RawQuery = [], cr_URI = ''/x'', cr_Host = ''hop.ex.org'',
     cr_Header = [], cr_Body = \<lparr>br_bytes = [], br_end = EOF, br_eager = True\<rparr>\<rparr>"

definition demo_fw :: forwarder where
  "demo_fw = NewForwarder ''127.0.0.1'' 3000 1000"

lemma demo_creq_body: "readAllLimited 512 (cr_Body demo_creq) (nat (fd_MaxBody demo_fw)) = Inr ([], 0)"
  by (simp add: readAllLimited_spec demo_creq_def)

lemma demo_creq_plain: "\<not> fw_isUpgrade demo_creq"
  by (simp add: fw_isUpgrade_def demo_creq_def hdr_Get_def hdr_Values_def)

lemma demo_server_healthy: "healthy demo_server" "0 < length (s_heap demo_server)" "checkWrite (strm demo_server 0) = None"
  by (simp_all add: healthy_def checkWrite_def newStream_def)

theorem serve_closes_stream_witness:
  "\<exists>rec s'. Serve demo_fwlib demo_fw (\<lambda>_ t. t) 512 5 1 0 None None [] (Inl ''EOF'') demo_server = (rec, s') \<and>
     ir_Errored rec \<and> list_ex (\<lambda>b. b) [sentClose (strm s' 0), rst (strm s' 0)]"
proof -
  obtain rec s' where s: "Serve demo_fwlib demo_fw (\<lambda>_ t. t) 512 5 1 0 None None [] (Inl ''EOF'') demo_server = (rec, s')"
    by fastforce
  have evo: "\<And>k t. length (s_heap t) \<le> length (s_heap ((\<lambda>_ t. t) k t))" by simp
  from serve_closes_stream [OF demo_server_healthy(2) evo s] s show ?thesis by auto
qed

end
