(* ===== verification/Inspector_Props.thy ===== *)
theory Inspector_Props
  imports Inspector Proxy_Props Forwarder_Props
begin

text \<open>
  What the inspector promises: nothing it holds leaves, and nothing it can do happens, without the access token and the inspector's own
  address; the printed link logs a browser in; a replay is a new exchange that is kept and shown.
\<close>

section \<open>The guard\<close>

text \<open>Pages that show nothing of what was captured.\<close>

fun blankPage :: "ipage \<Rightarrow> bool" where
  "blankPage (ITextPage t) = True"
| "blankPage IDenyPage = True"
| "blankPage (IError m c) = True"
| "blankPage INothing = True"
| "blankPage _ = False"

definition admitted :: "ilib \<Rightarrow> insp \<Rightarrow> request \<Rightarrow> bool" where
  "admitted L s r \<longleftrightarrow>
     allowedHost L s (rq_Host r) \<and>
     (hdr_Get (rq_Header r) ''Origin'' = [] \<or> allowedOrigin L s (hdr_Get (rq_Header r) ''Origin'')) \<and> authorized s r"

lemma guard_None:
  "guard L s r = None \<longleftrightarrow>
     admitted L s r \<and> \<not> (rq_Path r = ''/'' \<and> rq_Method r = ''GET'' \<and> map_of (rq_Query r) tokenParam \<noteq> None)"
  by (auto simp: guard_def admitted_def Let_def)

lemma guard_Some:
  assumes "guard L s r = Some rep"
  shows "blankPage (ip_Page rep) \<and>
     (ip_Cookie rep \<noteq> None \<longrightarrow> map_of (rq_Query r) tokenParam = Some (in_token s) \<and> allowedHost L s (rq_Host r))"
  using assms by (auto simp: guard_def denyPage_def writeError_def mkIReply_def validToken_def Let_def split: if_splits)

lemma store_Get_total: "store_ok s \<Longrightarrow> store_Get n s = Some (find (\<lambda>r. ir_ID r = n) (contents s))"
  by (simp add: store_Get_def List_Some getFrom_find)

lemma Broadcast_store [simp]: "in_store (BroadcastRecord L dead rec s) = in_store s"
  by (simp add: BroadcastRecord_def)

lemma serveReplay_ok:
  assumes "store_ok (in_store s)"
  shows "\<exists>rep s'. serveReplay L dead now s i = Some (rep, s') \<and> store_ok (in_store s') \<and> ip_Cookie rep = None"
proof (cases "ParseInt i")
  case (Some n)
  show ?thesis
  proof (cases "find (\<lambda>r. ir_ID r = n) (contents (in_store s))")
    case None
    then show ?thesis using Some assms by (simp add: serveReplay_def store_Get_total writeError_def mkIReply_def)
  next
    case (Some rec)
    show ?thesis
    proof (cases "in_replayer s")
      case None
      then show ?thesis
        using \<open>ParseInt i = Some n\<close> Some assms by (simp add: serveReplay_def store_Get_total writeError_def mkIReply_def)
    next
      case (Some f)
      obtain stored st1 where a: "Add now (projr (f rec)) (in_store s) = (stored, st1)" by fastforce
      have "store_ok st1" using Add_ok [OF assms, of now "projr (f rec)"] a by simp
      then show ?thesis
        using \<open>ParseInt i = Some n\<close> \<open>find _ _ = Some rec\<close> Some assms a
        by (cases "f rec") (auto simp: serveReplay_def store_Get_total writeError_def mkIReply_def)
    qed
  qed
qed (use assms in \<open>simp add: serveReplay_def writeError_def mkIReply_def\<close>)

lemma handler_ok:
  assumes "store_ok (in_store s)"
  shows "\<exists>rep s'. handler L dead now ws s r = Some (rep, s') \<and> store_ok (in_store s') \<and> ip_Cookie rep = None"
proof (cases "routeOf (rq_Method r) (rq_Path r)")
  case (ROne i)
  then show ?thesis
    using assms by (auto simp: handler_def serveOne_def store_Get_total writeError_def mkIReply_def split: option.splits)
next
  case (RReplay i)
  then show ?thesis using serveReplay_ok [OF assms] by (simp add: handler_def)
qed (use assms in \<open>auto simp: handler_def serveClear_def serveStatus_def mkIReply_def hub_join_def Clear_ok split: option.splits\<close>)


section \<open>The launch link\<close>

lemma loopback_host:
  assumes "portOK port" and "in_port s = port"
  shows "allowedHost L s (JoinHostPort ''127.0.0.1'' port)"
proof -
  have "portOK ''127.0.0.1''" by (simp add: portOK_def)
  from SplitHostPort_join [OF this assms(1)] have "SplitHostPort (JoinHostPort ''127.0.0.1'' port) = Some (''127.0.0.1'', port)"
    by (simp add: JoinHostPort_def contains_def)
  moreover have "ToLower (il_lower L) ''127.0.0.1'' = ''127.0.0.1''" by (simp add: ToLower_def isAscii_def lowerByte_def)
  ultimately show ?thesis using assms(2) by (simp add: allowedHost_def Let_def)
qed

text \<open>
  The printed link works: for an inspector listening on the loopback address (or on all addresses) the link is the loopback URL with the
  token as its query; opening it sets the cookie and redirects to the page without the token; and with that cookie alone every
  further request to the same address without a foreign origin is admitted.
\<close>

theorem launch_link:
  assumes addr: "SplitHostPort addr = Some (host, port)" "host = ''127.0.0.1'' \<or> host = [] \<or> il_unspecified L host" "portOK port"
    and s': "s' = listening L addr s"
    and first: "rq_Host r = JoinHostPort ''127.0.0.1'' port" "rq_Path r = ''/''" "rq_Method r = ''GET''"
      "map_of (rq_Query r) ''t'' = Some (in_token s)" "hdr_Get (rq_Header r) ''Origin'' = []"
    and again: "rq_Host q = JoinHostPort ''127.0.0.1'' port" "map_of (rq_Query q) ''t'' = None"
      "hdr_Get (rq_Header q) ''Origin'' = []" "hdr_Get (rq_Header q) TokenHeader = []"
      "map_of (rq_Cookies q) (''munnel_inspector_'' @ port) = Some (in_token s)"
  shows "URLFor L s addr = ''http://'' @ rq_Host r @ ''/?t='' @ in_token s \<and>
     guard L s' r = Some \<lparr>ip_Status = 303, ip_Location = Some ''/'', ip_Cookie = Some (''munnel_inspector_'' @ port, in_token s),
        ip_Page = INothing\<rparr> \<and>
     guard L s' q = None"
proof -
  have p: "in_port s' = port" "in_token s' = in_token s" using addr(1) s' by (simp_all add: listening_def)
  have h: "allowedHost L s' (JoinHostPort ''127.0.0.1'' port)" using addr(3) p(1) by (rule loopback_host)
  have "URLFor L s addr = ''http://'' @ JoinHostPort ''127.0.0.1'' port @ ''/?t='' @ in_token s"
    using addr(1,2) by (auto simp: URLFor_def tokenParam_def Let_def)
  moreover have "guard L s' r = Some \<lparr>ip_Status = 303, ip_Location = Some ''/'',
      ip_Cookie = Some (''munnel_inspector_'' @ port, in_token s), ip_Page = INothing\<rparr>"
    using first h p by (simp add: guard_def tokenParam_def validToken_def cookieName_def Let_def)
  moreover have "guard L s' q = None"
    unfolding guard_None admitted_def authorized_def validToken_def cookieName_def tokenParam_def Let_def
    using again h p by simp
  ultimately show ?thesis using first(1) by simp
qed

section \<open>Replay\<close>

lemma routeOf_replay: "routeOf ''POST'' (''/api/replay/'' @ Itoa (int n)) = RReplay (Itoa (int n))"
proof -
  obtain c cs where c: "itoaNat n = c # cs" using itoaNat_digits [of n] by (cases "itoaNat n") auto
  have "CHR ''/'' \<notin> set (itoaNat n)" using itoaNat_digits [of n] by (auto simp: list_all_iff isDigit_def)
  then show ?thesis using c by (simp add: routeOf_def segment_def HasPrefix_def Itoa_def Let_def)
qed


section \<open>Witnesses\<close>

definition demo_ilib :: ilib where
  "demo_ilib = \<lparr>il_lower = (\<lambda>x. x), il_urlParse = (\<lambda>_. None), il_unspecified = (\<lambda>h. h = ''0.0.0.0''), il_specificIP = (\<lambda>_. None),
     il_marshal = (\<lambda>_. True)\<rparr>"

definition demo_irec :: irec where
  "demo_irec = (newRec 7)\<lparr>ir_Method := ''PUT'', ir_Path := ''/x'', ir_ReqBody := ''b''\<rparr>"

text \<open>An inspector on port 8 with two tabs, the first of them gone, and one captured exchange.\<close>

definition demo_insp :: insp where
  "demo_insp = \<lparr>in_store = snd (Add 7 demo_irec (NewStore 2)), in_conns = [0, 1], in_feed = [],
     in_replayer = Some (Replay demo_fwlib demo_fw (\<lambda>b. [b]) 8 1), in_status = None, in_token = ''ab'', in_port = ''8'', in_ip = []\<rparr>"

definition demo_ireq :: "string \<Rightarrow> string \<Rightarrow> request" where
  "demo_ireq m p = \<lparr>rq_Method = m, rq_Path = p, rq_URI = p, rq_Host = ''127.0.0.1:8'', rq_Header = [], rq_Query = [], rq_Form = None,
     rq_Cookies = [(''munnel_inspector_8'', ''ab'')], rq_RemoteAddr = ''127.0.0.1:9'', rq_ContentLength = 0, rq_Body = ([], None),
     rq_TLS = False\<rparr>"

lemma demo_join: "JoinHostPort ''127.0.0.1'' ''8'' = ''127.0.0.1:8''"
  by (simp add: JoinHostPort_def contains_def)

lemma demo_split: "SplitHostPort ''127.0.0.1:8'' = Some (''127.0.0.1'', ''8'')"
proof -
  have "portOK ''127.0.0.1''" "portOK ''8''" by (simp_all add: portOK_def)
  from SplitHostPort_join [OF this] show ?thesis by (simp add: demo_join [unfolded JoinHostPort_def contains_def, simplified])
qed

lemma demo_insp_ok: "store_ok (in_store demo_insp)"
  by (simp add: demo_insp_def Add_ok NewStore_ok)

lemma demo_ireq_admitted: "admitted demo_ilib demo_insp (demo_ireq m p)"
proof -
  have "allowedHost demo_ilib demo_insp (JoinHostPort ''127.0.0.1'' ''8'')"
    by (rule loopback_host) (simp_all add: portOK_def demo_insp_def)
  then show ?thesis
    by (simp add: admitted_def demo_join demo_ireq_def hdr_Get_def hdr_Values_def authorized_def validToken_def cookieName_def
        demo_insp_def)
qed


theorem launch_link_witness:
  "URLFor demo_ilib demo_insp ''127.0.0.1:8'' = ''http://127.0.0.1:8/?t=ab'' \<and>
   guard demo_ilib (listening demo_ilib ''127.0.0.1:8'' demo_insp) (demo_ireq ''GET'' ''/api/requests'') = None"
  using launch_link [OF demo_split, of demo_ilib _ demo_insp "(demo_ireq ''GET'' ''/'')\<lparr>rq_Query := [(''t'', ''ab'')]\<rparr>"
      "demo_ireq ''GET'' ''/api/requests''", OF _ _ refl]
  by (simp add: demo_join portOK_def demo_ireq_def demo_insp_def hdr_Get_def hdr_Values_def)


end
