(* ===== verification/Feed.thy ===== *)
theory Feed
  imports Inspector_Props
begin

text \<open>
  The life of the inspector, \<^verbatim>\<open>ListenAndServe\<close> of \<^verbatim>\<open>internal/inspection/server.go\<close>, and of its feed (\<^verbatim>\<open>hub.go\<close>): requests, captured exchanges, and one goroutine of
  \<^verbatim>\<open>ServeWS\<close> per connected tab, in every order. The hub promises every tab what is published while it is connected.
\<close>

section \<open>State\<close>

datatype insp_phase = InspIdle | InspServing | InspStopped

text \<open>A tab's websocket: not closed by the inspector, its browser still there, its goroutine in \<^verbatim>\<open>ReadMessage\<close>.\<close>

record tab =
  tb_open :: bool
  tb_peer :: bool
  tb_reader :: bool

text \<open>\<open>fd_log\<close> and \<open>fd_since\<close> are history: the records published, and how many there were when each tab connected.\<close>

record feed =
  fd_insp :: insp
  fd_ln :: "string option"
  fd_phase :: insp_phase
  fd_ctx :: bool
  fd_tabs :: "tab list"
  fd_log :: "irec list"
  fd_since :: "nat list"

section \<open>Operations\<close>

text \<open>\<open>listen\<close> is what \<^verbatim>\<open>net.Listen\<close> makes of an address: an error or the address it bound.\<close>

definition in_ListenAndServe :: "ilib \<Rightarrow> (string \<Rightarrow> string + string) \<Rightarrow> string \<Rightarrow> feed \<Rightarrow> string option \<times> feed" where
  "in_ListenAndServe L listen addr F =
     (case listen addr of
        Inl e \<Rightarrow> (Some e, F)
      | Inr bound \<Rightarrow> (None, F\<lparr>fd_insp := listening L bound (fd_insp F), fd_ln := Some bound, fd_phase := InspServing\<rparr>))"

definition in_Addr :: "feed \<Rightarrow> string" where
  "in_Addr F = (case fd_ln F of None \<Rightarrow> [] | Some a \<Rightarrow> a)"

definition in_Shutdown :: "feed \<Rightarrow> feed" where
  "in_Shutdown F = F\<lparr>fd_phase := InspStopped\<rparr>"

text \<open>The connections \<^verbatim>\<open>broadcast\<close> has taken out of the hub are closed.\<close>

definition closeDead :: "nat list \<Rightarrow> nat list \<Rightarrow> tab list \<Rightarrow> tab list" where
  "closeDead before after tabs = map (\<lambda>(c, t). if c \<in> set before \<and> c \<notin> set after then t\<lparr>tb_open := False\<rparr> else t) (enumerate 0 tabs)"

text \<open>The record a request publishes: only a replay does, if it can be marshalled.\<close>

definition published :: "ilib \<Rightarrow> request \<Rightarrow> ireply \<Rightarrow> irec list" where
  "published L r rep =
     (case (routeOf (rq_Method r) (rq_Path r), ip_Page rep) of
        (RReplay i, IRecord rec) \<Rightarrow> if il_marshal L rec then [rec] else []
      | _ \<Rightarrow> [])"

text \<open>A request, with the state its handler leaves: a new tab is the one that joined.\<close>

definition afterRequest :: "ilib \<Rightarrow> request \<Rightarrow> ireply \<Rightarrow> insp \<Rightarrow> feed \<Rightarrow> feed" where
  "afterRequest L r rep s F =
     (let n = length (fd_tabs F);
          tabs = closeDead (in_conns (fd_insp F)) (in_conns s) (fd_tabs F);
          joined = n \<in> set (in_conns s)
      in F\<lparr>fd_insp := s, fd_log := fd_log F @ published L r rep,
           fd_tabs := (if joined then tabs @ [\<lparr>tb_open = True, tb_peer = True, tb_reader = True\<rparr>] else tabs),
           fd_since := (if joined then fd_since F @ [length (fd_log F)] else fd_since F)\<rparr>)"

definition afterRecord :: "ilib \<Rightarrow> (nat \<Rightarrow> bool) \<Rightarrow> int \<Rightarrow> irec \<Rightarrow> feed \<Rightarrow> feed" where
  "afterRecord L dead now rec F =
     (let s = onRecord L dead now rec (fd_insp F);
          stored = fst (Add now rec (in_store (fd_insp F)))
      in F\<lparr>fd_insp := s, fd_log := fd_log F @ (if il_marshal L stored then [stored] else []),
           fd_tabs := closeDead (in_conns (fd_insp F)) (in_conns s) (fd_tabs F)\<rparr>)"

text \<open>\<^verbatim>\<open>ReadMessage\<close> of a tab has failed: the deferred function of \<^verbatim>\<open>ServeWS\<close>.\<close>

definition readerEnds :: "nat \<Rightarrow> feed \<Rightarrow> feed" where
  "readerEnds c F = F\<lparr>fd_insp := hub_leave c (fd_insp F), fd_tabs := (fd_tabs F)[c := (fd_tabs F ! c)\<lparr>tb_open := False, tb_reader := False\<rparr>]\<rparr>"

section \<open>Steps\<close>

inductive fd_step :: "ilib \<Rightarrow> feed \<Rightarrow> feed \<Rightarrow> bool" for L where
  fd_listen: "fd_phase F = InspIdle \<Longrightarrow> fd_step L F (snd (in_ListenAndServe L listen addr F))"
| fd_cancel: "fd_step L F (F\<lparr>fd_ctx := True\<rparr>)"
| fd_stop: "fd_ctx F \<Longrightarrow> fd_phase F = InspServing \<Longrightarrow> fd_step L F (in_Shutdown F)"
| fd_request: "fd_phase F \<noteq> InspIdle \<Longrightarrow> ws = None \<or> ws = Some (length (fd_tabs F)) \<Longrightarrow>
     inspect L dead now ws (fd_insp F) r = Some (rep, s) \<Longrightarrow> fd_step L F (afterRequest L r rep s F)"
| fd_record: "fd_step L F (afterRecord L dead now rec F)"
| fd_gone: "c < length (fd_tabs F) \<Longrightarrow> fd_step L F (F\<lparr>fd_tabs := (fd_tabs F)[c := (fd_tabs F ! c)\<lparr>tb_peer := False\<rparr>]\<rparr>)"
| fd_read: "c < length (fd_tabs F) \<Longrightarrow> tb_reader (fd_tabs F ! c) \<Longrightarrow> \<not> (tb_peer (fd_tabs F ! c) \<and> tb_open (fd_tabs F ! c)) \<Longrightarrow>
     fd_step L F (readerEnds c F)"

definition fd_init :: "feed \<Rightarrow> bool" where
  "fd_init F \<longleftrightarrow> (\<exists>rnd st replayer stat. in_New rnd st replayer stat = Some (fd_insp F)) \<and> fd_ln F = None \<and> fd_phase F = InspIdle \<and> \<not> fd_ctx F \<and>
     fd_tabs F = [] \<and> fd_log F = [] \<and> fd_since F = []"

section \<open>The invariant\<close>

definition feedOf :: "nat \<Rightarrow> (nat \<times> irec) list \<Rightarrow> irec list" where
  "feedOf c fs = map snd (filter (\<lambda>x. fst x = c) fs)"

definition tab_ok :: "feed \<Rightarrow> nat \<Rightarrow> bool" where
  "tab_ok F c \<longleftrightarrow> fd_since F ! c \<le> length (fd_log F) \<and>
     (\<exists>rest. drop (fd_since F ! c) (fd_log F) = feedOf c (in_feed (fd_insp F)) @ rest \<and> (c \<in> set (in_conns (fd_insp F)) \<longrightarrow> rest = [])) \<and>
     (c \<in> set (in_conns (fd_insp F)) \<longleftrightarrow> tb_open (fd_tabs F ! c)) \<and> (tb_open (fd_tabs F ! c) \<longrightarrow> tb_reader (fd_tabs F ! c))"

definition feed_ok :: "feed \<Rightarrow> bool" where
  "feed_ok F \<longleftrightarrow> length (fd_since F) = length (fd_tabs F) \<and> distinct (in_conns (fd_insp F)) \<and>
     set (in_conns (fd_insp F)) \<subseteq> {..<length (fd_tabs F)} \<and> (\<forall>x \<in> set (in_feed (fd_insp F)). fst x < length (fd_tabs F)) \<and>
     (\<forall>c < length (fd_tabs F). tab_ok F c)"

lemma length_closeDead [simp]: "length (closeDead b a tabs) = length tabs"
  by (simp add: closeDead_def)

lemma nth_closeDead:
  "c < length tabs \<Longrightarrow> closeDead b a tabs ! c = (if c \<in> set b \<and> c \<notin> set a then (tabs ! c)\<lparr>tb_open := False\<rparr> else tabs ! c)"
  by (simp add: closeDead_def nth_enumerate_eq)

lemma closeDead_same: "closeDead b b tabs = tabs"
  by (rule nth_equalityI) (simp_all add: nth_closeDead)

lemma feedOf_append [simp]: "feedOf c (xs @ ys) = feedOf c xs @ feedOf c ys"
  by (simp add: feedOf_def)

lemma feedOf_sent: "distinct cs \<Longrightarrow> feedOf c (map (\<lambda>x. (x, rec)) cs) = (if c \<in> set cs then [rec] else [])"
  by (induction cs) (auto simp: feedOf_def)

text \<open>Publishing a record, from a capture or a replay.\<close>

lemma publish_ok:
  assumes inv: "feed_ok F" and s: "in_conns s = filter (\<lambda>c. \<not> dead c) (in_conns (fd_insp F))"
    "in_feed s = in_feed (fd_insp F) @ map (\<lambda>c. (c, rec)) (in_conns s)"
    and G: "G = F\<lparr>fd_insp := s, fd_log := fd_log F @ [rec], fd_tabs := closeDead (in_conns (fd_insp F)) (in_conns s) (fd_tabs F)\<rparr>"
  shows "feed_ok G"
proof -
  have d: "distinct (in_conns s)" using inv s(1) by (simp add: feed_ok_def)
  have "tab_ok G c" if "c < length (fd_tabs F)" for c
  proof -
    have t: "tab_ok F c" using inv that by (simp add: feed_ok_def)
    then obtain rest where "drop (fd_since F ! c) (fd_log F) = feedOf c (in_feed (fd_insp F)) @ rest" "c \<in> set (in_conns (fd_insp F)) \<longrightarrow> rest = []"
      by (auto simp: tab_ok_def)
    with t that show ?thesis
      by (cases "c \<in> set (in_conns s)") (auto simp: tab_ok_def G s(2) feedOf_sent [OF d] nth_closeDead, auto simp: s(1))
  qed
  with inv show ?thesis by (auto simp: feed_ok_def G s)
qed

text \<open>Steps that leave the hub alone.\<close>

lemma quiet_ok:
  assumes "feed_ok F" and "in_conns s = in_conns (fd_insp F)" and "in_feed s = in_feed (fd_insp F)"
  shows "feed_ok (F\<lparr>fd_insp := s\<rparr>)"
proof -
  have "tab_ok (F\<lparr>fd_insp := s\<rparr>) c = tab_ok F c" for c by (simp add: tab_ok_def assms(2,3))
  with assms show ?thesis by (simp add: feed_ok_def)
qed

lemma record_ok:
  assumes inv: "feed_ok F"
  shows "feed_ok (afterRecord L dead now rec F)"
proof -
  obtain stored st1 where a: "Add now rec (in_store (fd_insp F)) = (stored, st1)" by fastforce
  let ?s = "onRecord L dead now rec (fd_insp F)"
  show ?thesis
  proof (cases "il_marshal L stored")
    case True
    show ?thesis
      by (rule publish_ok [OF inv, of ?s dead stored]) (use True a in \<open>simp_all add: onRecord_def BroadcastRecord_def afterRecord_def Let_def\<close>)
  next
    case False
    with a have "in_conns ?s = in_conns (fd_insp F)" "in_feed ?s = in_feed (fd_insp F)" by (simp_all add: onRecord_def BroadcastRecord_def)
    with quiet_ok [OF inv this] False a show ?thesis by (simp add: afterRecord_def Let_def closeDead_same)
  qed
qed

text \<open>What a request can do to the hub: nothing, a new tab, a replayed record.\<close>

lemma inspect_hub:
  assumes "inspect L dead now ws s r = Some (rep, s')"
  obtains (Quiet) "in_conns s' = in_conns s" "in_feed s' = in_feed s" "published L r rep = []"
  | (Join) c where "ws = Some c" "s' = hub_join c s" "published L r rep = []"
  | (Publish) rec where "published L r rep = [rec]" "in_conns s' = filter (\<lambda>c. \<not> dead c) (in_conns s)"
      "in_feed s' = in_feed s @ map (\<lambda>c. (c, rec)) (in_conns s')"
proof (cases "guard L s r")
  case (Some rep')
  have "ip_Page rep' \<noteq> IRecord rec" for rec
    using Some by (auto simp: guard_def mkIReply_def denyPage_def writeError_def Let_def split: if_splits)
  with assms Some Quiet show ?thesis by (auto simp: inspect_def published_def split: route.splits ipage.splits)
next
  case None
  then have h: "handler L dead now ws s r = Some (rep, s')" using assms by (simp add: inspect_def)
  show ?thesis
  proof (cases "\<exists>i. routeOf (rq_Method r) (rq_Path r) = RReplay i")
    case False
    then have "published L r rep = []" by (auto simp: published_def split: route.splits)
    with h False Quiet Join show ?thesis
      by (auto simp: handler_def serveClear_def split: route.splits option.splits)
  next
    case True
    then obtain i where i: "routeOf (rq_Method r) (rq_Path r) = RReplay i" ..
    with h have "serveReplay L dead now s i = Some (rep, s')" by (simp add: handler_def)
    then consider (err) e c where "s' = s" "rep = writeError c e"
      | (ok) stored st1 where "rep = mkIReply 200 (IRecord stored)" "s' = BroadcastRecord L dead stored (s\<lparr>in_store := st1\<rparr>)"
      by (auto simp: serveReplay_def split: option.splits sum.splits prod.splits)
    then show ?thesis
    proof cases
      case err
      then show ?thesis by (intro Quiet) (simp_all add: published_def i writeError_def mkIReply_def)
    next
      case ok
      show ?thesis
      proof (cases "il_marshal L stored")
        case True
        with ok show ?thesis by (intro Publish [of stored]) (simp_all add: published_def i mkIReply_def BroadcastRecord_def)
      next
        case False
        with ok show ?thesis by (intro Quiet) (simp_all add: published_def i mkIReply_def BroadcastRecord_def)
      qed
    qed
  qed
qed

lemma conns_old: "feed_ok F \<Longrightarrow> length (fd_tabs F) \<notin> set (in_conns (fd_insp F))"
  by (auto simp: feed_ok_def)

lemma feedOf_none: "\<forall>x \<in> set fs. fst x < n \<Longrightarrow> feedOf n fs = []"
  by (fastforce simp: feedOf_def filter_empty_conv)

lemma join_ok:
  assumes inv: "feed_ok F"
  shows "feed_ok (F\<lparr>fd_insp := hub_join (length (fd_tabs F)) (fd_insp F),
    fd_tabs := fd_tabs F @ [\<lparr>tb_open = True, tb_peer = True, tb_reader = True\<rparr>], fd_since := fd_since F @ [length (fd_log F)]\<rparr>)" (is "feed_ok ?G")
proof -
  let ?n = "length (fd_tabs F)"
  have len: "length (fd_since F) = ?n" using inv by (simp add: feed_ok_def)
  have conns: "in_conns (fd_insp ?G) = in_conns (fd_insp F) @ [?n]" "in_feed (fd_insp ?G) = in_feed (fd_insp F)"
    using conns_old [OF inv] by (simp_all add: hub_join_def)
  have none: "feedOf ?n (in_feed (fd_insp F)) = []" using inv by (intro feedOf_none) (simp add: feed_ok_def)
  have "tab_ok ?G c" if "c < Suc ?n" for c
  proof (cases "c = ?n")
    case True
    then show ?thesis using len none conns by (simp add: tab_ok_def nth_append)
  next
    case False
    with that have "c < ?n" by simp
    moreover from this have "tab_ok F c" using inv by (simp add: feed_ok_def)
    ultimately show ?thesis using len conns by (auto simp: tab_ok_def nth_append)
  qed
  moreover have "\<forall>x \<in> set (in_feed (fd_insp F)). fst x < Suc ?n" using inv by (auto simp: feed_ok_def less_SucI)
  ultimately show ?thesis using inv conns conns_old [OF inv] unfolding feed_ok_def by (auto simp: less_Suc_eq)
qed

lemma request_ok:
  assumes inv: "feed_ok F" and ws: "ws = None \<or> ws = Some (length (fd_tabs F))" and r: "inspect L dead now ws (fd_insp F) r = Some (rep, s)"
  shows "feed_ok (afterRequest L r rep s F)"
  using r
proof (cases rule: inspect_hub)
  case Quiet
  then have "afterRequest L r rep s F = F\<lparr>fd_insp := s\<rparr>" using conns_old [OF inv] by (simp add: afterRequest_def Let_def closeDead_same)
  with quiet_ok [OF inv Quiet(1,2)] show ?thesis by simp
next
  case (Join c)
  with ws have c: "c = length (fd_tabs F)" by simp
  have "length (fd_tabs F) \<in> set (in_conns s)" "closeDead (in_conns (fd_insp F)) (in_conns s) (fd_tabs F) = fd_tabs F"
    unfolding Join(2) c by (auto simp: hub_join_def nth_closeDead intro!: nth_equalityI)
  with join_ok [OF inv] show ?thesis by (simp add: afterRequest_def Let_def Join(2,3) c)
next
  case (Publish rec)
  then have "length (fd_tabs F) \<notin> set (in_conns s)" using conns_old [OF inv] by simp
  with publish_ok [OF inv Publish(2,3)] Publish(1) show ?thesis by (simp add: afterRequest_def Let_def)
qed

lemma reader_ends_ok:
  assumes inv: "feed_ok F" and c: "c < length (fd_tabs F)"
  shows "feed_ok (readerEnds c F)"
proof -
  have "tab_ok (readerEnds c F) d" if "d < length (fd_tabs F)" for d
  proof -
    have "tab_ok F d" using inv that by (simp add: feed_ok_def)
    with that c show ?thesis by (cases "d = c") (auto simp: tab_ok_def readerEnds_def hub_leave_def)
  qed
  with inv show ?thesis by (auto simp: feed_ok_def readerEnds_def hub_leave_def distinct_removeAll)
qed

lemma listening_hub [simp]: "in_conns (listening L a s) = in_conns s" "in_feed (listening L a s) = in_feed s"
  by (simp_all add: listening_def split: option.splits)

lemma fd_step_ok:
  assumes "fd_step L F G" and inv: "feed_ok F"
  shows "feed_ok G"
proof -
  have other: "feed_ok (H\<lparr>fd_ln := a, fd_phase := b, fd_ctx := x\<rparr>)" if "feed_ok H" for a b x H
  proof -
    have "tab_ok (H\<lparr>fd_ln := a, fd_phase := b, fd_ctx := x\<rparr>) c = tab_ok H c" for c by (simp add: tab_ok_def)
    with that show ?thesis by (simp add: feed_ok_def)
  qed
  from assms(1) show ?thesis
  proof cases
    case (fd_listen listen addr)
    show ?thesis
    proof (cases "listen addr")
      case (Inl e)
      with fd_listen inv show ?thesis by (simp add: in_ListenAndServe_def)
    next
      case (Inr bound)
      with fd_listen other [OF quiet_ok [OF inv, of "listening L bound (fd_insp F)"], where a = "Some bound" and b = InspServing and x = "fd_ctx F"] show ?thesis
        by (simp add: in_ListenAndServe_def)
    qed
  next
    case fd_cancel
    with other [OF inv, where a = "fd_ln F" and b = "fd_phase F" and x = True] show ?thesis by simp
  next
    case fd_stop
    show ?thesis using other [OF inv, where a = "fd_ln F" and b = InspStopped and x = "fd_ctx F"] fd_stop(1) by (simp add: in_Shutdown_def)
  next
    case (fd_request ws dead now r rep s)
    with request_ok [OF inv] show ?thesis by blast
  next
    case (fd_record dead now rec)
    with record_ok [OF inv] show ?thesis by simp
  next
    case (fd_gone c)
    have "tab_ok G d" if "d < length (fd_tabs F)" for d
    proof -
      have "tab_ok F d" using inv that by (simp add: feed_ok_def)
      with that fd_gone show ?thesis by (cases "d = c") (auto simp: tab_ok_def)
    qed
    with inv fd_gone show ?thesis by (simp add: feed_ok_def)
  next
    case (fd_read c)
    with reader_ends_ok [OF inv] show ?thesis by simp
  qed
qed

lemma fd_init_ok: "fd_init F \<Longrightarrow> feed_ok F"
  by (auto simp: fd_init_def feed_ok_def in_New_def split: option.splits dest!: sym [of _ "fd_insp F"])

interpretation feeds: invariant_system fd_init "fd_step L" feed_ok
  by unfold_locales (blast intro: fd_init_ok fd_step_ok)+

section \<open>Properties\<close>

text \<open>
  Property C29. The feed. In every state the inspector can reach, through any sequence of requests, captured exchanges, tabs that come and go, failed writes, start
  and shutdown: a tab that is connected has been sent exactly the records published since it connected - every exchange captured and every replay -, each once and in their order, and
  a tab that is gone a prefix of them; the hub holds exactly the tabs whose websocket it has not closed. A tab that was dropped because writing to it failed, or whose browser has left, does not
  stay behind: its goroutine's next read fails, and then it is out of the hub and closed.
\<close>

theorem tabs_in_step:
  assumes "reach fd_init (fd_step L) F" and "c < length (fd_tabs F)"
  shows "(\<exists>rest. drop (fd_since F ! c) (fd_log F) = feedOf c (in_feed (fd_insp F)) @ rest \<and> (tb_open (fd_tabs F ! c) \<longrightarrow> rest = [])) \<and>
     (c \<in> set (in_conns (fd_insp F)) \<longleftrightarrow> tb_open (fd_tabs F ! c)) \<and>
     (tb_reader (fd_tabs F ! c) \<and> \<not> (tb_peer (fd_tabs F ! c) \<and> tb_open (fd_tabs F ! c)) \<longrightarrow>
        (\<exists>G. fd_step L F G \<and> \<not> tb_reader (fd_tabs G ! c) \<and> \<not> tb_open (fd_tabs G ! c) \<and> c \<notin> set (in_conns (fd_insp G)))) \<and>
     (\<not> tb_reader (fd_tabs F ! c) \<longrightarrow> \<not> tb_open (fd_tabs F ! c))"
proof -
  have t: "tab_ok F c" using feeds.reach_inv [OF assms(1)] assms(2) by (simp add: feed_ok_def)
  have "\<exists>G. fd_step L F G \<and> \<not> tb_reader (fd_tabs G ! c) \<and> \<not> tb_open (fd_tabs G ! c) \<and> c \<notin> set (in_conns (fd_insp G))"
    if "tb_reader (fd_tabs F ! c)" "\<not> (tb_peer (fd_tabs F ! c) \<and> tb_open (fd_tabs F ! c))"
    using fd_read [OF assms(2) that, of L] assms(2) by (intro exI [of _ "readerEnds c F"]) (simp add: readerEnds_def hub_leave_def)
  with t show ?thesis unfolding tab_ok_def by blast
qed

text \<open>An inspector that listens, a tab that connects, an exchange that is captured: the tab gets it.\<close>

theorem tabs_in_step_witness:
  "\<exists>F. reach fd_init (fd_step demo_ilib) F \<and> length (fd_tabs F) = 1 \<and> length (fd_log F) = 1 \<and> feedOf 0 (in_feed (fd_insp F)) = fd_log F"
proof -
  let ?s = "\<lparr>in_store = NewStore 2, in_conns = [], in_feed = [], in_replayer = None, in_status = None, in_token = hexEncode ''k'', in_port = [], in_ip = []\<rparr>"
  let ?F = "\<lparr>fd_insp = ?s, fd_ln = None, fd_phase = InspIdle, fd_ctx = False, fd_tabs = [], fd_log = [], fd_since = []\<rparr>"
  have "in_New (Some ''k'') (NewStore 2) None None = Some ?s" by (simp add: in_New_def)
  then have "fd_init ?F" by (auto simp: fd_init_def)
  then have r0: "reach fd_init (fd_step demo_ilib) ?F" by (rule reach.intros)
  let ?F1 = "?F\<lparr>fd_insp := ?s\<lparr>in_port := ''8''\<rparr>, fd_ln := Some ''127.0.0.1:8'', fd_phase := InspServing\<rparr>"
  have "snd (in_ListenAndServe demo_ilib Inr ''127.0.0.1:8'' ?F) = ?F1" by (simp add: in_ListenAndServe_def listening_def demo_split, simp add: demo_ilib_def)
  with fd_listen [of ?F demo_ilib Inr "''127.0.0.1:8''"] have "fd_step demo_ilib ?F ?F1" by simp
  with r0 have r1: "reach fd_init (fd_step demo_ilib) ?F1" by (rule reach.reach_step)
  let ?r = "(demo_ireq ''GET'' ''/ws'')\<lparr>rq_Cookies := [(''munnel_inspector_8'', hexEncode ''k'')]\<rparr>"
  have "allowedHost demo_ilib (fd_insp ?F1) (JoinHostPort ''127.0.0.1'' ''8'')" by (rule loopback_host) (simp_all add: portOK_def)
  then have "guard demo_ilib (fd_insp ?F1) ?r = None"
    by (simp add: guard_None admitted_def demo_join demo_ireq_def hdr_Get_def hdr_Values_def authorized_def validToken_def cookieName_def)
  moreover have "routeOf ''GET'' ''/ws'' = RWS" by code_simp
  ultimately have i: "inspect demo_ilib (\<lambda>_. False) 7 (Some 0) (fd_insp ?F1) ?r = Some (mkIReply 101 INothing, hub_join 0 (fd_insp ?F1))"
    by (simp add: inspect_def handler_def demo_ireq_def)
  let ?F2 = "afterRequest demo_ilib ?r (mkIReply 101 INothing) (hub_join 0 (fd_insp ?F1)) ?F1"
  have "fd_step demo_ilib ?F1 ?F2" by (rule fd_request [OF _ _ i]) simp_all
  with r1 have r2: "reach fd_init (fd_step demo_ilib) ?F2" by (rule reach.reach_step)
  have F2: "fd_tabs ?F2 = [\<lparr>tb_open = True, tb_peer = True, tb_reader = True\<rparr>]" "fd_since ?F2 = [0]" "fd_log ?F2 = []" "in_conns (fd_insp ?F2) = [0]"
    by (simp_all add: afterRequest_def hub_join_def Let_def published_def mkIReply_def closeDead_def split: route.splits)
  let ?F3 = "afterRecord demo_ilib (\<lambda>_. False) 7 demo_irec ?F2"
  have r3: "reach fd_init (fd_step demo_ilib) ?F3" using r2 fd_record by (rule reach.reach_step)
  have F3: "fd_tabs ?F3 = fd_tabs ?F2" "fd_since ?F3 = [0]" "length (fd_log ?F3) = 1"
    using F2 by (simp_all add: afterRecord_def Let_def onRecord_def BroadcastRecord_def demo_ilib_def closeDead_def split: prod.splits)
  from tabs_in_step [OF r3, of 0] F2 F3 r3 show ?thesis by (intro exI [of _ ?F3]) auto
qed

end
