(* ===== verification/Exchange.thy ===== *)
theory Exchange
  imports Forwarder_Props
begin

text \<open>
  One public request through both programs: the proxy writes it to a new stream (theory \<^verbatim>\<open>Wire\<close>), the client's read loop delivers it, the
  forwarder has the local service answer and writes the response back (theory \<^verbatim>\<open>Forwarder\<close>), and the server's read loop delivers that. The bytes on
  the connection are the only thing the two sides share.
\<close>

section \<open>The server's end\<close>

lemma deliver_reply:
  assumes ok: "sess_ok s" and g: "getStream i s = Some q" and live: "\<not> readDone (strm s q)"
    and empty: "cur (strm s q) = []" "chunks (strm s q) = []"
    and fits: "length ps \<le> chunksCap" and small: "\<forall>p \<in> set ps. length p \<le> MaxPayload"
    and rd: "r_bytes rd = concat (map (\<lambda>p. frame_bytes (FrameData, i, p)) ps) @ frame_bytes (FrameClose, i, []) @ rest"
    and n: "0 < n"
  shows "\<exists>k' s'. readLoop clk pick k rd s = readLoop clk pick k' (rd\<lparr>r_bytes := rest\<rparr>) s' \<and>
     readAll n (s_done s') (strm s' q) = (concat ps, RErr EOF)"
proof -
  let ?c = "frame_bytes (FrameClose, i, []) @ rest"
  have rd': "r_bytes rd = concat (map frame_bytes (map (\<lambda>p. (FrameData, i, p)) ps)) @ ?c" using rd by (simp add: comp_def)
  obtain s1 where s1: "readLoop clk pick k rd s = readLoop clk pick (k + length ps) (rd\<lparr>r_bytes := ?c\<rparr>) s1" "sess_ok s1"
      "getStream i s1 = Some q" "strm s1 q = (strm s q)\<lparr>chunks := ps\<rparr>"
    using deliver_datas [OF ok g live _ small rd', of clk pick k] fits empty by auto
  have "\<not> readDone (strm s1 q)" using s1(4) live by simp
  then obtain s2 where s2: "readLoop clk pick (k + length ps) (rd\<lparr>r_bytes := ?c\<rparr>) s1 =
        readLoop clk pick (Suc (k + length ps)) ((rd\<lparr>r_bytes := ?c\<rparr>)\<lparr>r_bytes := rest\<rparr>) s2"
      "cur (strm s2 q) = cur (strm s1 q)" "chunks (strm s2 q) = chunks (strm s1 q)" "readDone (strm s2 q)" "readErr (strm s2 q) = Some EOF"
    using deliver_close [OF s1(2,3), of "rd\<lparr>r_bytes := ?c\<rparr>" rest clk pick "k + length ps"] by auto
  have "readAll n (s_done s2) (strm s2 q) = (concat ps, RErr EOF)"
    using n s1(4) s2(2-) empty by (simp add: readAll_spec readEnd_def)
  then show ?thesis using s1(1) s2(1) by (intro exI [of _ "Suc (k + length ps)"] exI [of _ s2]) simp
qed

section \<open>There and back\<close>

text \<open>What a connection carries after a step: the bytes written since.\<close>

definition sentBetween :: "session \<Rightarrow> session \<Rightarrow> bytes" where
  "sentBetween s s' = drop (length (w_bytes (s_conn s))) (w_bytes (s_conn s'))"



end
