(* ===== verification/Tunnel_Props.thy ===== *)
theory Tunnel_Props
  imports Tunnel
begin

text \<open>
  What the client promises: a validated configuration is complete and stays so, a pinned certificate is the only one accepted, the event
  channel is used safely whatever runs concurrently, and reconnecting follows a bounded schedule that stops for good when the
  server insists on TLS.
\<close>

section \<open>Configuration\<close>

text \<open>What later code relies on.\<close>

definition configOK :: "cconfig \<Rightarrow> bool" where
  "configOK c \<longleftrightarrow>
     0 < cc_LocalPort c \<and> cc_LocalPort c \<le> 65535 \<and> cc_LocalHost c \<noteq> [] \<and> contains (cc_ServerAddr c) CHR '':'' \<and>
     cc_InspectAddr c \<noteq> [] \<and> 0 < cc_MaxBody c \<and>
     (cc_ServerCertSHA256 c \<noteq> [] \<longrightarrow> cc_TLS c \<and> length (cc_pin c) = 32 \<and> decodePin (cc_ServerCertSHA256 c) = Some (cc_pin c))"

lemma withAddr_fields:
  "contains (cc_ServerAddr (withAddr c)) CHR '':''" "HasPrefix (cc_ServerAddr (withAddr c)) (cc_ServerAddr c)"
  "withAddr c = c\<lparr>cc_ServerAddr := cc_ServerAddr (withAddr c)\<rparr>"
  by (simp_all add: withAddr_def contains_def HasPrefix_iff)

lemma withPin_Inr:
  assumes "withPin c = Inr d"
  shows "d = c\<lparr>cc_pin := cc_pin d\<rparr>"
    and "cc_ServerCertSHA256 c = [] \<Longrightarrow> d = c"
    and "cc_ServerCertSHA256 c \<noteq> [] \<Longrightarrow>
      cc_TLS c \<and> length (cc_pin d) = 32 \<and> decodePin (cc_ServerCertSHA256 c) = Some (cc_pin d)"
  using assms by (auto simp: withPin_def decodePin_def split: if_splits option.splits)

lemma Validate_Inr:
  assumes "Validate c = Inr c'"
  obtains d where "0 < cc_LocalPort c" and "cc_LocalPort c \<le> 65535"
    and "withPin (withAddr (c\<lparr>cc_LocalHost := orDefault ''127.0.0.1'' (cc_LocalHost c)\<rparr>)) = Inr d" and "c' = withRest d"
  using assms by (auto simp: Validate_def Let_def split: if_splits sum.splits)

text \<open>What validation keeps, and what it establishes.\<close>

lemma Validate_fields:
  assumes "Validate c = Inr c'"
  shows "cc_Token c' = cc_Token c" "cc_Subdomain c' = cc_Subdomain c" "cc_Protect c' = cc_Protect c" "cc_TLS c' = cc_TLS c"
    "cc_ServerCertSHA256 c' = cc_ServerCertSHA256 c" "HasPrefix (cc_ServerAddr c') (cc_ServerAddr c)"
    "cc_ServerCertSHA256 c = [] \<Longrightarrow> cc_pin c' = cc_pin c" "configOK c'"
proof -
  let ?c1 = "c\<lparr>cc_LocalHost := orDefault ''127.0.0.1'' (cc_LocalHost c)\<rparr>"
  from assms obtain d where port: "0 < cc_LocalPort c" "cc_LocalPort c \<le> 65535"
    and d: "withPin (withAddr ?c1) = Inr d" and c': "c' = withRest d" by (rule Validate_Inr)
  obtain addr where a: "withAddr ?c1 = ?c1\<lparr>cc_ServerAddr := addr\<rparr>" "contains addr CHR '':''" "HasPrefix addr (cc_ServerAddr c)"
    using withAddr_fields [of ?c1] by force
  obtain p where p: "d = ?c1\<lparr>cc_ServerAddr := addr, cc_pin := p\<rparr>"
    using withPin_Inr(1) [OF d] unfolding a(1) by blast
  show "cc_Token c' = cc_Token c" "cc_Subdomain c' = cc_Subdomain c" "cc_Protect c' = cc_Protect c" "cc_TLS c' = cc_TLS c"
    "cc_ServerCertSHA256 c' = cc_ServerCertSHA256 c" "HasPrefix (cc_ServerAddr c') (cc_ServerAddr c)"
    using a(3) by (simp_all add: c' withRest_def p)
  show "cc_ServerCertSHA256 c = [] \<Longrightarrow> cc_pin c' = cc_pin c"
    using withPin_Inr(2) [OF d] by (simp add: c' withRest_def a(1))
  show "configOK c'"
    using port a(2) withPin_Inr(3) [OF d] unfolding a(1) c'
    by (auto simp: configOK_def withRest_def p orDefault_def DefaultInspectAddr_def)
qed

lemma Validate_fixpoint:
  assumes "configOK c"
  shows "Validate c = Inr c"
proof -
  have "orDefault d x = x" if "x \<noteq> []" for d x using that by (simp add: orDefault_def)
  moreover have "withAddr c = c" using assms by (simp add: withAddr_def configOK_def)
  moreover have "withPin c = Inr c" using assms by (auto simp: withPin_def configOK_def)
  ultimately show ?thesis using assms by (auto simp: Validate_def withRest_def configOK_def contains_def)
qed

text \<open>
  Property C33. Validating a configuration is a normal form: what comes out is complete (a port in range, a server address with a
  port, an inspector address, a positive body limit, and with a pin TLS and exactly its 32 decoded bytes), validating it again changes nothing, and
  the caller's own settings are kept. With a pin, the TLS settings accept a server exactly when the SHA-256 of its leaf certificate is the
  pin, whatever the certificate chain; without one, exactly when the chain verifies for the host.
\<close>

theorem validated_config:
  assumes v: "Validate c = Inr c'"
  shows "configOK c' \<and> Validate c' = Inr c' \<and>
     cc_Token c' = cc_Token c \<and> cc_Subdomain c' = cc_Subdomain c \<and> cc_Protect c' = cc_Protect c \<and> cc_TLS c' = cc_TLS c \<and>
     HasPrefix (cc_ServerAddr c') (cc_ServerAddr c) \<and>
     (cc_ServerCertSHA256 c \<noteq> [] \<longrightarrow>
        tlsAccepts chain (tlsConfig sha c') certs = (case certs of [] \<Rightarrow> False | leaf # _ \<Rightarrow> decodePin (cc_ServerCertSHA256 c) = Some (sha leaf))) \<and>
     (cc_ServerCertSHA256 c = [] \<and> cc_pin c = [] \<longrightarrow>
        tlsAccepts chain (tlsConfig sha c') certs = chain (tc_ServerName (tlsConfig sha c')) certs)"
proof -
  note kept = Validate_fields [OF v]
  note ok = kept(8)
  have "tlsAccepts chain (tlsConfig sha c') certs = (case certs of [] \<Rightarrow> False | leaf # _ \<Rightarrow> decodePin (cc_ServerCertSHA256 c) = Some (sha leaf))"
    if "cc_ServerCertSHA256 c \<noteq> []"
    using ok kept(5) that by (auto simp: configOK_def tlsAccepts_def tlsConfig_def Let_def split: list.splits)
  moreover have "tlsAccepts chain (tlsConfig sha c') certs = chain (tc_ServerName (tlsConfig sha c')) certs"
    if "cc_ServerCertSHA256 c = []" "cc_pin c = []"
    using kept(7) that by (simp add: tlsAccepts_def tlsConfig_def Let_def)
  ultimately show ?thesis using ok Validate_fixpoint [OF ok] kept by blast
qed

definition demo_cc :: cconfig where
  "demo_cc = \<lparr>cc_LocalPort = 3000, cc_LocalHost = [], cc_ServerAddr = ''ex.org'', cc_Subdomain = ''hop'', cc_Token = ''s1'',
     cc_Protect = False, cc_Inspect = True, cc_InspectAddr = [], cc_MaxBody = 0, cc_TLS = True, cc_ServerCertSHA256 = [],
     cc_PingInterval = 0, cc_IdleTimeout = 0, cc_pin = []\<rparr>"

lemma demo_cc_validated:
  "Validate demo_cc = Inr (demo_cc\<lparr>cc_LocalHost := ''127.0.0.1'', cc_ServerAddr := ''ex.org:7002'', cc_InspectAddr := ''127.0.0.1:4040'',
     cc_MaxBody := 33554432\<rparr>)"
  by (simp add: Validate_def withAddr_def withPin_def withRest_def demo_cc_def Let_def orDefault_def contains_def
      DefaultControlTLSPort_def DefaultInspectAddr_def)

theorem validated_config_witness:
  "\<exists>c'. Validate demo_cc = Inr c' \<and> Validate c' = Inr c' \<and> cc_ServerAddr c' = ''ex.org:7002'' \<and>
     tlsAccepts (\<lambda>h certs. h = ''ex.org'') (tlsConfig (\<lambda>s. s) c') [''x'']"
  using validated_config [OF demo_cc_validated, of "\<lambda>h certs. h = ''ex.org''" "\<lambda>s. s" "[''x'']"] demo_cc_validated
  by (simp add: tlsConfig_def SplitHostPort_def LastIndexByte_def contains_def Let_def) (simp add: demo_cc_def)

section \<open>The event channel\<close>

text \<open>Everything that touches a tunnel: the loop, the goroutines of its streams, the reader of its events, the end of \<^verbatim>\<open>Run\<close> (once).\<close>

definition recv :: "tunnel \<Rightarrow> tunnel" where
  "recv t = t\<lparr>tn_events := tl (tn_events t)\<rparr>"

inductive tn_op :: "tunnel \<Rightarrow> tunnel \<Rightarrow> bool" where
  op_emit: "tn_op t (emit now e t)"
| op_status: "tn_op t (setStatus g t)"
| op_served: "tn_op t (served now rec t)"
| op_connect: "tn_op t (snd (snd (connectOnce L a t)))"
| op_recv: "tn_op t (recv t)"
| op_shutdown: "\<not> tn_closed t \<Longrightarrow> tn_op t (tn_shutdown t)"

inductive_cases tn_opE: "tn_op t u"

definition tn_ok :: "tunnel \<Rightarrow> bool" where
  "tn_ok t \<longleftrightarrow> \<not> tn_panicked t \<and> length (tn_events t) \<le> eventsCap \<and> (tn_chanClosed t \<longleftrightarrow> tn_closed t) \<and>
     tn_requests t = int (length (tn_records t))"

lemma setStatus_ok [simp]: "tn_ok (setStatus g t) = tn_ok t"
  by (simp add: tn_ok_def setStatus_def)

lemma setStatus_closed [simp]: "tn_closed (setStatus g t) = tn_closed t" "tn_cfg (setStatus g t) = tn_cfg t"
  by (simp_all add: setStatus_def)

lemma chanSend_ok: "tn_ok t \<Longrightarrow> \<not> tn_closed t \<Longrightarrow> tn_ok (chanSend e t)"
  by (auto simp: tn_ok_def chanSend_def)

lemma emit_ok: "tn_ok t \<Longrightarrow> tn_ok (emit now e t)"
  by (simp add: emit_def chanSend_ok)

lemma served_ok: "tn_ok t \<Longrightarrow> tn_ok (served now rec t)"
  unfolding served_def by (rule emit_ok) (simp add: tn_ok_def)

lemma fold_served_ok: "tn_ok t \<Longrightarrow> tn_ok (fold (served now) recs t)"
  by (induction recs arbitrary: t) (simp_all add: served_ok)

lemma sess_flag_ok [simp]: "tn_ok (t\<lparr>tn_sess := b\<rparr>) = tn_ok t"
  by (simp add: tn_ok_def)

lemma connectOnce_ok: "tn_ok t \<Longrightarrow> tn_ok (snd (snd (connectOnce L a t)))"
  by (simp add: connectOnce_def Let_def emit_ok fold_served_ok split: sum.splits prod.splits option.splits)

lemma recv_ok: "tn_ok t \<Longrightarrow> tn_ok (recv t)"
  by (auto simp: tn_ok_def recv_def)

lemma tn_shutdown_ok: "tn_ok t \<Longrightarrow> \<not> tn_closed t \<Longrightarrow> tn_ok (tn_shutdown t)"
  by (simp add: tn_ok_def tn_shutdown_def Let_def)

lemma tn_New_ok: "tn_New c = Inr t \<Longrightarrow> tn_ok t"
  by (cases "Validate c") (auto simp: tn_New_def tn_ok_def Let_def)

interpretation tun: invariant_system "\<lambda>t. \<exists>c. tn_New c = Inr t" tn_op tn_ok
proof
  show "\<exists>c. tn_New c = Inr t \<Longrightarrow> tn_ok t" for t
    using tn_New_ok by blast
  show "tn_ok t \<Longrightarrow> tn_op t u \<Longrightarrow> tn_ok u" for t u
    by (erule tn_opE) (auto simp: emit_ok served_ok connectOnce_ok recv_ok tn_shutdown_ok)
qed

text \<open>
  Property C22. The event channel is used safely: in every state a tunnel can reach through its loop, its stream goroutines, its event
  reader and the single end of \<^verbatim>\<open>Run\<close>, in any order, nothing was ever sent on the closed channel and it was not closed twice, the buffer holds at
  most 256 events, the channel is closed exactly when the tunnel says so, and the request counter is the number of recorded exchanges.
\<close>

theorem events_safe:
  assumes "reach (\<lambda>t. \<exists>c. tn_New c = Inr t) tn_op t"
  shows "\<not> tn_panicked t \<and> length (tn_events t) \<le> 256 \<and> (tn_chanClosed t \<longleftrightarrow> tn_closed t) \<and>
     sx_Requests (Status t) = int (length (tn_records t))"
  using tun.reach_inv [OF assms] by (simp add: tn_ok_def eventsCap_def Status_def)

theorem events_safe_witness:
  "\<exists>t. tn_New demo_cc = Inr t \<and>
     (let u = served 2 (newRec 1) (tn_shutdown (served 1 (newRec 0) t))
      in tn_chanClosed u \<and> \<not> tn_panicked u \<and> sx_Requests (Status u) = 2)"
proof -
  let ?c = "\<lambda>t. \<exists>c. tn_New c = Inr t"
  obtain t where t: "tn_New demo_cc = Inr t" by (simp add: tn_New_def demo_cc_validated Let_def)
  have flags: "\<not> tn_closed (served 1 (newRec 0) t)" "tn_chanClosed (served 2 r (tn_shutdown (served 1 (newRec 0) t)))"
      "length (tn_records (served 2 r (tn_shutdown (served 1 (newRec 0) t)))) = 2" for r
    using t by (auto simp: tn_New_def demo_cc_validated Let_def served_def emit_def chanSend_def eventsCap_def tn_shutdown_def
        setStatus_def)
  have "?c t" using t by blast
  then have "reach ?c tn_op t" by (rule reach.reach_init)
  then have "reach ?c tn_op (served 1 (newRec 0) t)" by (rule reach.reach_step) (rule tn_op.op_served)
  then have "reach ?c tn_op (tn_shutdown (served 1 (newRec 0) t))" 
    by (rule reach.reach_step) (rule tn_op.op_shutdown [OF flags(1)])
  then have "reach ?c tn_op (served 2 (newRec 1) (tn_shutdown (served 1 (newRec 0) t)))" by (rule reach.reach_step) (rule tn_op.op_served)
  from events_safe [OF this] flags show ?thesis using t by (auto simp: Let_def)
qed

section \<open>Reconnecting\<close>

lemma emit_cfg [simp]: "tn_cfg (emit now e t) = tn_cfg t"
  by (simp add: emit_def chanSend_def)

lemma served_cfg [simp]: "tn_cfg (served now rec t) = tn_cfg t"
  by (simp add: served_def)

lemma fold_served_cfg [simp]: "tn_cfg (fold (served now) recs t) = tn_cfg t"
  by (induction recs arbitrary: t) simp_all

lemma connectOnce_cfg: "tn_cfg (snd (snd (connectOnce L a t))) = tn_cfg t"
  by (simp add: connectOnce_def Let_def split: sum.splits prod.splits option.splits)

text \<open>How a connection ends depends on the configuration and on what it meets, not on the rest of the state.\<close>

lemma connectOnce_outcome: "tn_cfg t = tn_cfg u \<Longrightarrow> fst (connectOnce L a t) = fst (connectOnce L a u)"
  by (simp add: connectOnce_def Let_def split: sum.splits prod.splits option.splits)

lemma nextBackoff_iter: "(nextBackoff ^^ k) second = min (2 ^ k) 10 * second"
proof (induction k)
  case (Suc k)
  have "nextBackoff (min (2 ^ k) 10 * second) = min (2 ^ Suc k) 10 * second"
  proof (cases "(2 :: int) ^ k < 10")
    case True
    then have "min (2 ^ k) 10 = (2 :: int) ^ k" by simp
    then show ?thesis using True by (simp add: nextBackoff_def min_def)
  next
    case False
    then show ?thesis by (simp add: nextBackoff_def min_def)
  qed
  with Suc show ?case by simp
qed simp

text \<open>What happens in a round that the loop survives, and in its last one.\<close>

definition retried :: "clib \<Rightarrow> tunnel \<Rightarrow> attempt \<Rightarrow> bool" where
  "retried L t a \<longleftrightarrow> \<not> at_cancelled a \<and> \<not> at_waitCancelled a \<and> \<not> tlsRequired (fst (connectOnce L a t))"

definition stopState :: "attempt \<Rightarrow> run_state" where
  "stopState a = (if at_cancelled a \<or> at_waitCancelled a then Returned else StayingDown)"

lemma runLoop_step:
  assumes "retried L t a"
  obtains u where "tn_cfg u = tn_cfg t"
    and "runLoop L b (a # as) t = (case runLoop L (nextBackoff b) as u of (ws, n, st, v) \<Rightarrow> (b # ws, Suc n, st, v))"
proof -
  let ?t1 = "emit (at_now a) (mkEvent EventConnecting (''connecting to '' @ cc_ServerAddr (tn_cfg t))) t"
  obtain e w t2 where c: "connectOnce L a ?t1 = (e, w, t2)" by (metis prod.exhaust)
  have cfg: "tn_cfg t2 = tn_cfg t" using connectOnce_cfg [of L a ?t1] c by simp
  have "\<not> tlsRequired e" using assms connectOnce_outcome [of t ?t1 L a] c by (simp add: retried_def)
  let ?t3 = "setStatus (\<lambda>s. s\<lparr>sx_Connected := False\<rparr>) t2"
  let ?t5 = "emit (at_now a) (mkEvent EventReconnecting (''reconnecting (backoff '' @ c_durText L b @ '')''))
      (emit (at_now a) (mkEvent EventDisconnected (connErrText L ?t3 e)) ?t3)"
  show ?thesis
  proof (rule that [of ?t5])
    show "tn_cfg ?t5 = tn_cfg t" using cfg by simp
    show "runLoop L b (a # as) t = (case runLoop L (nextBackoff b) as ?t5 of (ws, n, st, v) \<Rightarrow> (b # ws, Suc n, st, v))"
      using assms c \<open>\<not> tlsRequired e\<close> unfolding retried_def runLoop.simps Let_def by (simp split: prod.split)
  qed
qed

lemma runLoop_stop:
  assumes "\<not> retried L t a"
  obtains u where "runLoop L b (a # as) t = ([], 1, stopState a, u)"
proof -
  let ?t1 = "emit (at_now a) (mkEvent EventConnecting (''connecting to '' @ cc_ServerAddr (tn_cfg t))) t"
  obtain e w t2 where c: "connectOnce L a ?t1 = (e, w, t2)" by (metis prod.exhaust)
  have "tlsRequired e \<longleftrightarrow> tlsRequired (fst (connectOnce L a t))" using connectOnce_outcome [of t ?t1 L a] c by simp
  with assms c have "\<exists>u. runLoop L b (a # as) t = ([], 1, stopState a, u)"
    by (auto simp: retried_def stopState_def Let_def)
  then show ?thesis using that by blast
qed

lemma retried_cfg: "tn_cfg u = tn_cfg t \<Longrightarrow> retried L u = retried L t"
  by (rule ext) (simp add: retried_def connectOnce_outcome [of u t])

lemma runLoop_schedule:
  assumes "runLoop L b as t = (ws, n, st, u)"
  shows "ws = map (\<lambda>k. (nextBackoff ^^ k) b) [0..<length ws] \<and> length ws = length (takeWhile (retried L t) as) \<and>
     (if length ws = length as then n = length as \<and> st = Running
      else n = Suc (length ws) \<and> st = stopState (as ! length ws))"
  using assms
proof (induction as arbitrary: b t ws n st u)
  case (Cons a as)
  show ?case
  proof (cases "retried L t a")
    case True
    then obtain v where v: "tn_cfg v = tn_cfg t"
      "runLoop L b (a # as) t = (case runLoop L (nextBackoff b) as v of (ws, n, st, x) \<Rightarrow> (b # ws, Suc n, st, x))"
      by (rule runLoop_step)
    obtain ws' n' st' x where r: "runLoop L (nextBackoff b) as v = (ws', n', st', x)" by (metis prod.exhaust)
    have out: "ws = b # ws'" "n = Suc n'" "st = st'" using Cons.prems v(2) r by auto
    note ih = Cons.IH [OF r]
    have "ws = map (\<lambda>k. (nextBackoff ^^ k) b) (0 # map Suc [0..<length ws'])"
      unfolding out using ih [THEN conjunct1] by (simp add: comp_def funpow_swap1)
    moreover have "0 # map Suc [0..<length ws'] = [0..<length ws]" 
      using upt_conv_Cons [of 0 "Suc (length ws')"] by (simp add: out map_Suc_upt del: upt_Suc)
    moreover have "length ws = length (takeWhile (retried L t) (a # as))"
      using ih True retried_cfg [OF v(1)] by (simp add: out)
    moreover have "if length ws = length (a # as) then n = length (a # as) \<and> st = Running
        else n = Suc (length ws) \<and> st = stopState ((a # as) ! length ws)"
      using ih by (simp add: out split: if_splits)
    ultimately show ?thesis by simp
  next
    case False
    then obtain v where "runLoop L b (a # as) t = ([], 1, stopState a, v)" by (rule runLoop_stop)
    then show ?thesis using Cons.prems False by simp
  qed
qed simp

text \<open>
  Property C21. The reconnect schedule. The waits between attempts are 1, 2, 4, 8 and from then on 10 seconds. The loop goes on exactly
  over the attempts after which nothing cancelled it and that the server did not refuse for lack of TLS; the first other attempt is
  the last one: \<^verbatim>\<open>Run\<close> returns, with the event channel closed, if it was cancelled, and otherwise stays down without ever connecting again.
\<close>

theorem reconnect_schedule:
  assumes run: "tn_Run L as t = (ws, n, st, t')"
  shows "ws = map (\<lambda>k. min (2 ^ k) 10 * 10 ^ 9) [0..<length ws] \<and>
     length ws = length (takeWhile (retried L t) as) \<and>
     (if length ws = length as then n = length as \<and> st = Running
      else n = Suc (length ws) \<and> st = stopState (as ! length ws)) \<and>
     (st = Returned \<longrightarrow> tn_chanClosed t')"
proof -
  obtain t1 where r: "runLoop L second as t = (ws, n, st, t1)" and t': "t' = (if st = Returned then tn_shutdown t1 else t1)"
    using run by (auto simp: tn_Run_def split: prod.splits)
  have "tn_chanClosed (tn_shutdown t1)" by (simp add: tn_shutdown_def Let_def)
  then show ?thesis using runLoop_schedule [OF r, unfolded nextBackoff_iter] t' by auto
qed

definition demo_clib :: clib where
  "demo_clib = \<lparr>c_hello = (\<lambda>_. Some ''{}''), c_ack = (\<lambda>_. None), c_errText = (\<lambda>_. ''err''), c_msgText = (\<lambda>_. ''msg''),
     c_durText = (\<lambda>_. ''1s'')\<rparr>"

text \<open>An attempt that cannot even dial, and the same cancelled during the wait after it.\<close>

definition demo_attempt :: attempt where
  "demo_attempt = \<lparr>at_now = 0, at_dial = Inl ''refused'', at_served = [], at_end = None, at_cancelled = False, at_waitCancelled = False\<rparr>"

theorem reconnect_schedule_witness:
  "\<exists>t t'. tn_New demo_cc = Inr t \<and>
     tn_Run demo_clib (replicate 5 demo_attempt @ [demo_attempt\<lparr>at_waitCancelled := True\<rparr>, demo_attempt]) t =
       ([10 ^ 9, 2 * 10 ^ 9, 4 * 10 ^ 9, 8 * 10 ^ 9, 10 * 10 ^ 9], 6, Returned, t') \<and> tn_chanClosed t'"
proof -
  let ?as = "replicate 5 demo_attempt @ [demo_attempt\<lparr>at_waitCancelled := True\<rparr>, demo_attempt]"
  obtain t where t: "tn_New demo_cc = Inr t" by (simp add: tn_New_def demo_cc_validated Let_def)
  obtain ws n st t' where r: "tn_Run demo_clib ?as t = (ws, n, st, t')" by (metis prod.exhaust)
  have "retried demo_clib t demo_attempt" "\<not> retried demo_clib t (demo_attempt\<lparr>at_waitCancelled := True\<rparr>)"
    "stopState (demo_attempt\<lparr>at_waitCancelled := True\<rparr>) = Returned"
    by (simp_all add: retried_def demo_attempt_def connectOnce_def tlsRequired_def stopState_def)
  note f = this and s = reconnect_schedule [OF r]
  have len: "length ws = 5" using s f by (simp add: numeral_nat)
  have ws: "ws = [10 ^ 9, 2 * 10 ^ 9, 4 * 10 ^ 9, 8 * 10 ^ 9, 10 * 10 ^ 9]"
    using s [THEN conjunct1] unfolding len by (simp add: upt_rec)
  have "n = 6" "st = Returned" using s len f by (simp_all add: nth_append)
  then show ?thesis using t r ws s by auto
qed

end
