(* ===== verification/Pages.thy ===== *)
theory Pages
  imports Proxy
begin

text \<open>
  The HTML the server sends: the landing page (\<^verbatim>\<open>internal/server/landing.go\<close>), the error pages (\<^verbatim>\<open>proxy.go\<close>), the login form
  (\<^verbatim>\<open>forwardauth.go\<close>) and the inspector's refusal (\<^verbatim>\<open>inspection/server.go\<close>), as the bytes of their templates with the values put
  in. Of the standard library this needs \<^verbatim>\<open>fmt\<close> with the verbs \<^verbatim>\<open>%s\<close>, \<^verbatim>\<open>%d\<close> and \<^verbatim>\<open>%%\<close> (its arguments come already formatted and are as many
  as the verbs), \<^verbatim>\<open>html.EscapeString\<close>, \<^verbatim>\<open>http.StatusText\<close>, and what \<^verbatim>\<open>html/template\<close> does to a field in a text position.
\<close>

section \<open>Formatting and templates\<close>

fun Sprintf :: "string \<Rightarrow> string list \<Rightarrow> string" where
  "Sprintf [] as = []"
| "Sprintf [c] as = (if c = CHR ''%'' then ''%!(NOVERB)'' else [c])"
| "Sprintf (c # d # r) as =
     (if c \<noteq> CHR ''%'' then c # Sprintf (d # r) as
      else if d = CHR ''%'' then c # Sprintf r as
      else case as of
        [] \<Rightarrow> ''%!'' @ [d] @ ''(MISSING)'' @ Sprintf r []
      | a # rest \<Rightarrow> a @ Sprintf r rest)"

text \<open>A template whose only actions are fields, \<^verbatim>\<open>{{.Name}}\<close>.\<close>

function execTpl :: "(string \<Rightarrow> string) \<Rightarrow> string \<Rightarrow> string" where
  "execTpl field s =
     (if s = [] then []
      else if HasPrefix s ''{{.''
      then let r = drop 3 s; n = takeWhile (\<lambda>c. c \<noteq> CHR ''}'') r
           in field n @ execTpl field (drop (length n + 2) r)
      else hd s # execTpl field (tl s))"
  by pat_completeness auto
termination by (relation "measure (\<lambda>(f, s). length s)") auto

declare execTpl.simps [simp del]

definition htmlByte :: "char \<Rightarrow> string" where
  "htmlByte c =
     (if c = CHR 0x00 then utf8 [0xEF, 0xBF, 0xBD] else if c = CHR 34 then ''&#34;'' else if c = CHR ''&'' then ''&amp;''
      else if c = CHR 39 then ''&#39;'' else if c = CHR ''+'' then ''&#43;'' else if c = CHR ''<'' then ''&lt;''
      else if c = CHR ''>'' then ''&gt;'' else [c])"

definition htmlEscaper :: "string \<Rightarrow> string" where
  "htmlEscaper s = concat (map htmlByte s)"

definition escapeByte :: "char \<Rightarrow> string" where
  "escapeByte c =
     (if c = CHR ''&'' then ''&amp;'' else if c = CHR 39 then ''&#39;'' else if c = CHR ''<'' then ''&lt;''
      else if c = CHR ''>'' then ''&gt;'' else if c = CHR 34 then ''&#34;'' else [c])"

definition EscapeString :: "string \<Rightarrow> string" where
  "EscapeString s = concat (map escapeByte s)"

section \<open>The landing page\<close>

definition landingPage :: string where
  "landingPage = Join
    [''<!DOCTYPE html>'',
     ''<html lang=\"en\" class=\"dark\">'',
     ''<head>'',
     ''<meta charset=\"utf-8\">'',
     ''<meta name=\"viewport\" content=\"width=device-width,initial-scale=1\">'',
     ''<title>munnel '' @ utf8 [0xE2, 0x80, 0x94] @ '' your localhost, on the public internet</title>'',
     ''<meta name=\"description\" content=\"self-hosted tunneling: expose localhost with a binary multiplexer, live terminal TUI, and request inspector.\">'',
     ''<style>'',
     '':root{color-scheme:dark}'',
     ''*{box-sizing:border-box}'',
     ''body{margin:0;background:#0e0c0d;color:#e8e6e3;font-family:ui-monospace,SFMono-Regular,Menlo,Consolas,monospace;-webkit-font-smoothing:antialiased}'',
     ''a{color:#c8b6ff;text-decoration:none}'',
     ''a:hover{text-decoration:underline}'',
     ''.wrap{max-width:46rem;margin:0 auto;padding:4rem 1.5rem 5rem}'',
     ''header{display:flex;align-items:baseline;gap:.75rem}'',
     ''h1{font-size:2.4rem;margin:0;letter-spacing:-.03em}'',
     ''.tag{color:#a09a92}'',
     ''.term{margin:2.5rem 0;background:#161213;border:1px solid #2a2320;border-radius:.75rem;padding:1.25rem 1.5rem;font-size:.9rem;line-height:1.9;box-shadow:0 20px 60px -30px rgba(200,182,255,.25)}'',
     ''.term .p{color:#5eead4;user-select:none}'',
     ''.term .c{color:#e8e6e3}'',
     ''.term .o{color:#a09a92}'',
     ''.term .u{color:#c8b6ff}'',
     ''.grid{display:grid;grid-template-columns:1fr 1fr;gap:1rem;margin-top:2.5rem}'',
     ''@media(max-width:640px){.grid{grid-template-columns:1fr}}'',
     ''.card{border:1px solid #2a2320;border-radius:.75rem;padding:1.25rem;background:#121010}'',
     ''.card h3{margin:0 0 .4rem;font-size:.95rem;color:#f3ede6}'',
     ''.card p{margin:0;font-size:.82rem;color:#a09a92;line-height:1.6}'',
     ''footer{margin-top:3.5rem;color:#57504a;font-size:.78rem}'',
     ''code{background:#1c1917;padding:.12rem .4rem;border-radius:.3rem;font-size:.85em}'',
     ''</style>'',
     ''</head>'',
     ''<body>'',
     ''<div class=\"wrap\">'',
     ''<header><h1>munnel</h1><span class=\"tag\">your localhost, on the public internet</span></header>'',
     [],
     ''<div class=\"term\">'',
     ''<div><span class=\"p\">$</span> <span class=\"c\">munnel 3000</span></div>'',
     ''<div class=\"o\">connecting'' @ utf8 [0xE2, 0x80, 0xA6] @ ''</div>'',
     ''<div><span class=\"o\">tunnel live</span> <span class=\"u\">{{.Scheme}}://myapp.{{.Domain}}</span> <span class=\"o\">'' @ utf8 [0xE2, 0x86, 0x92] @ '' http://127.0.0.1:3000</span></div>'',
     ''<div class=\"o\">GET  /api/health   200  14ms</div>'',
     ''<div class=\"o\">POST /webhook      200  31ms</div>'',
     ''</div>'',
     [],
     ''<div class=\"grid\">'',
     ''<div class=\"card\"><h3>binary multiplexer</h3><p>hundreds of concurrent streams over one TCP socket with a 9-byte frame header. zero head-of-line surprises.</p></div>'',
     ''<div class=\"card\"><h3>request inspector + replay</h3><p>live web inspector on <code>localhost:4040</code>. inspect headers and payloads, replay webhooks with one click.</p></div>'',
     ''<div class=\"card\"><h3>terminal tui</h3><p>live request stream, latency, and tunnel status directly in your shell.</p></div>'',
     ''<div class=\"card\"><h3>self-hosted</h3><p>your server, your domain, your tokens. no accounts, no rate limits, no third-party cloud.</p></div>'',
     ''</div>'',
     [],
     ''<div class=\"term\">'',
     ''<div><span class=\"p\">$</span> <span class=\"c\">munnel 3000 -s myapp --server {{.ControlAddr}}</span></div>'',
     ''<div class=\"o\"># claim a subdomain on this server</div>'',
     ''</div>'',
     [],
     ''<footer>powered by munnel '' @ utf8 [0xC2, 0xB7] @ '' binary multiplexer over a single tcp connection</footer>'',
     ''</div>'',
     ''</body>'',
     ''</html>''] [newline]"

record landingData =
  ld_Domain :: string
  ld_ControlAddr :: string
  ld_Scheme :: string
  ld_ControlHost :: string
  ld_HostDisplay :: string

definition landingField :: "landingData \<Rightarrow> string \<Rightarrow> string" where
  "landingField d n =
     htmlEscaper (if n = ''Domain'' then ld_Domain d else if n = ''ControlAddr'' then ld_ControlAddr d
       else if n = ''Scheme'' then ld_Scheme d else if n = ''ControlHost'' then ld_ControlHost d
       else if n = ''HostDisplay'' then ld_HostDisplay d else [])"

text \<open>The control address shown to users.\<close>

definition landingControl :: "string \<Rightarrow> string \<Rightarrow> string" where
  "landingControl domain controlAddr =
     (if HasPrefix controlAddr '':'' then domain @ controlAddr
      else case SplitHostPort controlAddr of
        Some (h, p) \<Rightarrow> if h = [] \<or> h = ''0.0.0.0'' \<or> h = ''[::]'' then domain @ '':'' @ p else controlAddr
      | None \<Rightarrow> controlAddr)"

definition landingHTML :: "string \<Rightarrow> string \<Rightarrow> string \<Rightarrow> string" where
  "landingHTML domain controlAddr scheme =
     execTpl (landingField \<lparr>ld_Domain = domain, ld_ControlAddr = landingControl domain controlAddr, ld_Scheme = scheme,
       ld_ControlHost = [], ld_HostDisplay = []\<rparr>) landingPage"

section \<open>Error pages\<close>

definition StatusText :: "nat \<Rightarrow> string" where
  "StatusText code = (case map_of
    [(100, ''Continue''), (101, ''Switching Protocols''), (102, ''Processing''), (103, ''Early Hints''), (200, ''OK''),
     (201, ''Created''), (202, ''Accepted''), (203, ''Non-Authoritative Information''), (204, ''No Content''),
     (205, ''Reset Content''), (206, ''Partial Content''), (207, ''Multi-Status''), (208, ''Already Reported''),
     (226, ''IM Used''), (300, ''Multiple Choices''), (301, ''Moved Permanently''), (302, ''Found''), (303, ''See Other''),
     (304, ''Not Modified''), (305, ''Use Proxy''), (307, ''Temporary Redirect''), (308, ''Permanent Redirect''),
     (400, ''Bad Request''), (401, ''Unauthorized''), (402, ''Payment Required''), (403, ''Forbidden''), (404, ''Not Found''),
     (405, ''Method Not Allowed''), (406, ''Not Acceptable''), (407, ''Proxy Authentication Required''),
     (408, ''Request Timeout''), (409, ''Conflict''), (410, ''Gone''), (411, ''Length Required''), (412, ''Precondition Failed''),
     (413, ''Request Entity Too Large''), (414, ''Request URI Too Long''), (415, ''Unsupported Media Type''),
     (416, ''Requested Range Not Satisfiable''), (417, ''Expectation Failed''), (418, ''I'm a teapot''),
     (421, ''Misdirected Request''), (422, ''Unprocessable Entity''), (423, ''Locked''), (424, ''Failed Dependency''),
     (425, ''Too Early''), (426, ''Upgrade Required''), (428, ''Precondition Required''), (429, ''Too Many Requests''),
     (431, ''Request Header Fields Too Large''), (451, ''Unavailable For Legal Reasons''), (500, ''Internal Server Error''),
     (501, ''Not Implemented''), (502, ''Bad Gateway''), (503, ''Service Unavailable''), (504, ''Gateway Timeout''),
     (505, ''HTTP Version Not Supported''), (506, ''Variant Also Negotiates''), (507, ''Insufficient Storage''),
     (508, ''Loop Detected''), (510, ''Not Extended''), (511, ''Network Authentication Required'')] code of None \<Rightarrow> [] | Some t \<Rightarrow> t)"

definition statusText :: "nat \<Rightarrow> string" where
  "statusText code = (if StatusText code \<noteq> [] then StatusText code else ''error'')"

definition errorPageTpl :: string where
  "errorPageTpl = Join
    [''<!DOCTYPE html><html lang=\"en\" class=\"dark\"><head>'',
     ''<meta charset=\"utf-8\"><meta name=\"viewport\" content=\"width=device-width,initial-scale=1\">'',
     ''<title>%d %s '' @ utf8 [0xE2, 0x80, 0x94] @ '' munnel</title>'',
     ''<style>'',
     '':root{color-scheme:dark}'',
     ''body{margin:0;min-height:100vh;display:grid;place-items:center;background:#0e0c0d;color:#e8e6e3;font-family:ui-monospace,SFMono-Regular,Menlo,monospace}'',
     ''.card{text-align:center;padding:2rem}'',
     ''h1{font-size:1.4rem;font-weight:600;margin:.2rem 0;color:#c8b6ff}'',
     ''p{color:#a09a92;font-size:.9rem;max-width:34rem}'',
     ''code{background:#1c1917;padding:.1rem .4rem;border-radius:.3rem}'',
     ''</style></head><body><div class=\"card\">'',
     ''<h1>%s</h1><p><code>%d</code> '' @ utf8 [0xC2, 0xB7] @ '' %s</p>'',
     ''</div></body></html>''] [newline]"

text \<open>The strings of an \<open>ErrorDoc\<close> are already escaped by \<open>errorPage\<close>.\<close>

definition errorHTML :: "nat \<Rightarrow> string \<Rightarrow> string \<Rightarrow> string" where
  "errorHTML status title detail =
     Sprintf errorPageTpl [Itoa (int status), statusText status, title, Itoa (int status), detail]"

section \<open>The login form and the inspector's refusal\<close>

definition loginFormTpl :: string where
  "loginFormTpl = Join
    [''<!DOCTYPE html><html lang=\"en\"><head>'',
     ''<meta charset=\"utf-8\"><meta name=\"viewport\" content=\"width=device-width,initial-scale=1\">'',
     ''<title>munnel '' @ utf8 [0xE2, 0x80, 0x94] @ '' sign in</title>'',
     ''<style>'',
     '':root{color-scheme:dark}'',
     ''body{margin:0;min-height:100vh;display:grid;place-items:center;background:#0e0c0d;color:#e8e6e3;font-family:ui-monospace,SFMono-Regular,Menlo,monospace}'',
     ''.card{padding:2rem;max-width:24rem}'',
     ''h1{font-size:1.2rem;font-weight:600;color:#c8b6ff;margin:.2rem 0 1rem}'',
     ''input{font:inherit;padding:.4rem .5rem;background:#1c1917;color:#e8e6e3;border:1px solid #3a3531;border-radius:.3rem;width:100%%;box-sizing:border-box;margin:.3rem 0}'',
     ''button{font:inherit;padding:.5rem 1rem;background:#c8b6ff;color:#0e0c0d;border:none;border-radius:.3rem;cursor:pointer;margin-top:.5rem}'',
     ''.hint{color:#a09a92;font-size:.8rem;margin-top:1rem}'',
     ''</style></head><body><form class=\"card\" method=\"post\" action=\"%s\">'',
     ''<h1>munnel access</h1>'',
     ''<input name=\"user\" placeholder=\"you@example.com\" autofocus required>'',
     ''<input type=\"hidden\" name=\"return\" value=\"%s\">'',
     ''<button type=\"submit\">Sign in</button>'',
     ''<div class=\"hint\">stub auth '' @ utf8 [0xE2, 0x80, 0x94] @ '' any user is accepted (dev/test only)</div>'',
     ''</form></body></html>''] [newline]"

definition RenderLogin :: "string \<Rightarrow> string" where
  "RenderLogin returnTo = Sprintf loginFormTpl [EscapeString authPath, EscapeString returnTo]"

definition denyHTML :: string where
  "denyHTML = Join
    [''<!DOCTYPE html><html lang=\"en\"><head><meta charset=\"utf-8\">'',
     ''<meta name=\"viewport\" content=\"width=device-width,initial-scale=1\"><title>munnel inspector</title>'',
     ''<style>:root{color-scheme:dark}body{margin:0;min-height:100vh;display:grid;place-items:center;background:#0e0c0d;color:#e8e6e3;font-family:ui-monospace,SFMono-Regular,Menlo,monospace}'',
     ''p{color:#a09a92;max-width:32rem;line-height:1.6}h1{font-size:1.2rem;color:#c8b6ff}</style></head>'',
     ''<body><div><h1>munnel inspector</h1><p>open the inspector link munnel printed when it started'',
     ''(it ends in <code>/?t='' @ utf8 [0xE2, 0x80, 0xA6] @ ''</code>). the token changes every time munnel starts.</p></div></body></html>''] [newline]"

section \<open>What a page can carry\<close>

fun isHTML :: "page \<Rightarrow> bool" where
  "isHTML (ErrorDoc st t d) = True"
| "isHTML (LandingPage d c s) = True"
| "isHTML (LoginForm r) = True"
| "isHTML _ = False"

fun pageHTML :: "page \<Rightarrow> string" where
  "pageHTML (ErrorDoc st t d) = errorHTML st t d"
| "pageHTML (LandingPage d c s) = landingHTML d c s"
| "pageHTML (LoginForm r) = RenderLogin r"
| "pageHTML _ = []"

text \<open>The same page with nothing put in, and the bytes that make markup.\<close>

fun blank :: "page \<Rightarrow> page" where
  "blank (ErrorDoc st t d) = ErrorDoc st [] []"
| "blank (LandingPage d c s) = LandingPage [] [] []"
| "blank (LoginForm r) = LoginForm []"
| "blank p = p"

definition markup :: "string \<Rightarrow> string" where
  "markup s = filter (\<lambda>c. c \<in> {CHR ''<'', CHR ''>'', CHR 34, CHR 39}) s"

lemma markup_simps [simp]:
  "markup [] = []" "markup (s @ t) = markup s @ markup t"
  by (simp_all add: markup_def)

lemma markup_concat: "markup (concat ss) = concat (map markup ss)"
  by (induction ss) simp_all

lemma markup_Cons: "markup (c # s) = (if c \<in> {CHR ''<'', CHR ''>'', CHR 34, CHR 39} then [c] else []) @ markup s"
  by (simp add: markup_def)

lemma markup_escaped:
  "markup (esc s) = []" "markup (htmlEscaper s) = []" "markup (EscapeString s) = []"
proof -
  have "markup (escByte c) = []" "markup (htmlByte c) = []" "markup (escapeByte c) = []" for c
    by (simp_all add: markup_def escByte_def htmlByte_def escapeByte_def utf8_def char_of_def)
  then show "markup (esc s) = []" "markup (htmlEscaper s) = []" "markup (EscapeString s) = []"
    by (simp_all add: esc_def htmlEscaper_def EscapeString_def markup_concat comp_def)
qed

lemma markup_Sprintf: "map markup as = map markup bs \<Longrightarrow> markup (Sprintf fmt as) = markup (Sprintf fmt bs)"
proof (induction fmt as arbitrary: bs rule: Sprintf.induct)
  case (3 c d r as)
  consider "c \<noteq> CHR ''%''" | "c = CHR ''%''" "d = CHR ''%''" | "c = CHR ''%''" "d \<noteq> CHR ''%''" by blast
  then show ?case
  proof cases
    case 1
    with "3.IH"(1) [OF 1 "3.prems"] show ?thesis by (simp add: markup_Cons [of c])
  next
    case 2
    with "3.IH"(2) [OF _ 2(2) "3.prems"] show ?thesis by (simp add: markup_Cons [of "CHR ''%''"])
  next
    case 3
    note no = this
    show ?thesis
    proof (cases as)
      case Nil
      with "3.prems" no show ?thesis by simp
    next
      case (Cons a as1)
      with "3.prems" obtain b bs1 where bs: "bs = b # bs1" "markup b = markup a" "map markup as1 = map markup bs1"
        by (cases bs) auto
      with "3.IH"(4) [OF _ no(2) Cons bs(3)] no Cons show ?thesis by simp
    qed
  qed
qed simp_all

lemma markup_execTpl: "(\<And>n. markup (f n) = markup (g n)) \<Longrightarrow> markup (execTpl f s) = markup (execTpl g s)"
proof (induction f s rule: execTpl.induct)
  case (1 f s)
  show ?case
  proof (cases "s = []")
    case True
    then show ?thesis by (simp add: execTpl.simps)
  next
    case False
    show ?thesis
    proof (cases "HasPrefix s ''{{.''")
      case True
      with 1 False show ?thesis by (simp add: execTpl.simps [of f s] execTpl.simps [of g s] Let_def)
    next
      case no: False
      with 1 False show ?thesis
        by (simp add: execTpl.simps [of f s] execTpl.simps [of g s] markup_Cons [of "hd s"])
    qed
  qed
qed

definition inert :: "reply \<Rightarrow> bool" where
  "inert rep \<longleftrightarrow> (isHTML (rp_Page rep) \<longrightarrow> markup (pageHTML (rp_Page rep)) = markup (pageHTML (blank (rp_Page rep))))"

lemma inert_error: "inert (errorPage st t d)"
  unfolding inert_def errorPage_def errorHTML_def mkReply_def
  by (simp add: errorHTML_def) (rule markup_Sprintf, simp add: markup_escaped)

lemma inert_landing: "inert (serveLanding s r)"
  by (auto simp: serveLanding_def inert_error)
     (auto simp: inert_def mkReply_def landingHTML_def landingField_def markup_escaped intro: markup_execTpl)

lemma inert_Handle: "Handle F now m r = Some rep \<Longrightarrow> inert rep"
proof -
  have "markup (RenderLogin x) = markup (RenderLogin [])" for x
    unfolding RenderLogin_def by (rule markup_Sprintf) (simp add: markup_escaped)
  then show "Handle F now m r = Some rep \<Longrightarrow> inert rep"
    by (auto simp: Handle_def inert_def mkReply_def RedirectReply_def NotFoundReply_def Let_def split: if_splits option.splits)
qed

lemma inert_plain [simp]: "\<not> isHTML p \<Longrightarrow> inert (mkReply st p)"
  by (simp add: inert_def mkReply_def)

lemma inert_token: "inert (handleTokenIssue L now rnd s r)"
  by (simp add: handleTokenIssue_def tokenIssueError_def Let_def split: sum.split option.split)

lemma inert_Authorize: "Authorize F now m r = Inl rep \<Longrightarrow> inert rep"
  by (auto simp: Authorize_def inert_def RedirectReply_def Let_def split: option.splits sum.splits)

lemmas inert_pages = inert_error inert_landing inert_Handle inert_token inert_Authorize

lemma inert_readBody: "readBody cfg r = Inl rep \<Longrightarrow> inert rep"
  by (auto simp: readBody_def tooLarge_def inert_error split: if_splits sum.splits)

section \<open>Properties\<close>

text \<open>
  Property C15. No request can put markup into a page: whatever the host, the path, the query, the session and the configuration are, every HTML page the server answers with (landing page,
  login form, error page, at routing or while the request goes through the tunnel) has exactly the markup characters, in the same order, that the same
  page has when nothing is put in.
\<close>

theorem pages_inert:
  "(case ServeHTTP L now rnd ev s r of Answer rep \<Rightarrow> inert rep | Panic \<Rightarrow> True | Forward r1 c \<Rightarrow> True) \<and>
   (case fst (proxyTo L cfg chop r se) of Inl rep \<Rightarrow> inert rep | Inr st \<Rightarrow> True) \<and>
   (case fst (proxyResponse L cfg r st okw aw se) of Page rep \<Rightarrow> inert rep | Nothing \<Rightarrow> True | Relayed status h bs \<Rightarrow> True) \<and>
   (case fst (proxyWebSocket cfg chop hj r se) of UpPage rep \<Rightarrow> inert rep | UpClosed \<Rightarrow> True | UpPipe st \<Rightarrow> True)"
proof (intro conjI)
  show "case ServeHTTP L now rnd ev s r of Answer rep \<Rightarrow> inert rep | Panic \<Rightarrow> True | Forward r1 c \<Rightarrow> True"
    by (auto simp: ServeHTTP_def Let_def offlinePage_def inert_pages split: option.split sum.split)
  show "case fst (proxyTo L cfg chop r se) of Inl rep \<Rightarrow> inert rep | Inr st \<Rightarrow> True"
    by (auto simp: proxyTo_def inert_pages inert_readBody split: option.split sum.split prod.split)
  show "case fst (proxyResponse L cfg r st okw aw se) of Page rep \<Rightarrow> inert rep | Nothing \<Rightarrow> True | Relayed status h bs \<Rightarrow> True"
    by (auto simp: proxyResponse_def inert_pages split: awaited.split prod.split)
  show "case fst (proxyWebSocket cfg chop hj r se) of UpPage rep \<Rightarrow> inert rep | UpClosed \<Rightarrow> True | UpPipe st \<Rightarrow> True"
    by (auto simp: proxyWebSocket_def inert_pages split: option.split sum.split prod.split hijack.split)
qed

text \<open>
  The address on the landing page is the one a client of this domain dials, for the wildcard addresses the source names; a wildcard IPv6 listener
  is not recognised, because \<^verbatim>\<open>SplitHostPort\<close> has taken the brackets off.
\<close>

lemma landing_wildcards:
  "landingControl d '':7001'' = d @ '':7001''" "landingControl d ''0.0.0.0:7001'' = d @ '':7001''"
  "landingControl d ''[::]:7001'' = ''[::]:7001''"
  by (simp_all add: landingControl_def HasPrefix_def SplitHostPort_def LastIndexByte_def contains_def Let_def)

end
