(* ===== verification/Cli.thy ===== *)
theory Cli
  imports Tunnel
begin

text \<open>
  The command line of the client, \<^verbatim>\<open>cmd/client/main.go\<close> and \<^verbatim>\<open>defaults.go\<close>: the configuration file and the environment as
  defaults, the flags over them, the configuration they make, \<^verbatim>\<open>munnel token\<close> with the file it writes, and the plain log. The
  operating system is \<open>os\<close>, passed and returned where it changes. What is printed for people (usage texts, prompts, error
  messages) is left out, exit codes and effects are kept.
\<close>

section \<open>The operating system\<close>

text \<open>
  \<open>os_configIn\<close> is \<^verbatim>\<open>filepath.Join(home, ".munnel", "config")\<close>; \<open>os_mkdir\<close> and \<open>os_write\<close> say whether making the directory and
  writing the file fail, the latter with what is left of it then.
\<close>

record os =
  os_env :: "string \<Rightarrow> string option"
  os_home :: "string option"
  os_configIn :: "string \<Rightarrow> string"
  os_files :: files
  os_mkdir :: "string \<Rightarrow> string option"
  os_write :: "string \<Rightarrow> (string \<times> (string \<times> err option) option) option"

text \<open>The case mappings of \<^verbatim>\<open>strings.ToLower\<close> and \<^verbatim>\<open>strings.EqualFold\<close> outside ASCII, and \<^verbatim>\<open>utf8.RuneCountInString\<close>.\<close>

record oslib =
  ol_lower :: "string \<Rightarrow> string"
  ol_fold :: "string \<Rightarrow> string \<Rightarrow> bool"
  ol_runes :: "string \<Rightarrow> nat"

definition EqualFold :: "oslib \<Rightarrow> string \<Rightarrow> string \<Rightarrow> bool" where
  "EqualFold L a b =
     (if list_all isAscii a \<and> list_all isAscii b then map lowerByte a = map lowerByte b else ol_fold L a b)"

definition Getenv :: "os \<Rightarrow> string \<Rightarrow> string" where
  "Getenv w k = (case os_env w k of None \<Rightarrow> [] | Some v \<Rightarrow> v)"

definition configPath :: "os \<Rightarrow> string option" where
  "configPath w =
     (let path = Getenv w ''MUNNEL_CONFIG''
      in if path \<noteq> [] then Some path else map_option (os_configIn w) (os_home w))"

section \<open>Defaults\<close>

definition envKeys :: "(string \<times> string) list" where
  "envKeys =
     [(''MUNNEL_SERVER'', ''server''), (''MUNNEL_TOKEN'', ''token''), (''MUNNEL_SUBDOMAIN'', ''subdomain''),
      (''MUNNEL_INSPECT_ADDR'', ''inspect-addr''), (''MUNNEL_LOCAL_HOST'', ''local-host''), (''MUNNEL_MAX_BODY_MB'', ''max-body-mb''),
      (''MUNNEL_INSPECT'', ''inspect''), (''MUNNEL_TLS'', ''tls''), (''MUNNEL_SERVER_CERT_SHA256'', ''server-cert-sha256'')]"

type_synonym settings = "string \<rightharpoonup> string"

definition configLine :: "oslib \<Rightarrow> string \<Rightarrow> settings \<Rightarrow> settings" where
  "configLine L text out =
     (let line = TrimSpace text
      in if line = [] \<or> HasPrefix line ''#'' then out
         else case Cut line CHR ''='' of
           None \<Rightarrow> out
         | Some (k, v) \<Rightarrow> out(TrimSpace (ToLower (ol_lower L) k) \<mapsto> TrimSpace v))"

definition loadConfigFile :: "oslib \<Rightarrow> os \<Rightarrow> settings option" where
  "loadConfigFile L w =
     (case configPath w of
        None \<Rightarrow> None
      | Some path \<Rightarrow>
          (case os_files w path of
             None \<Rightarrow> None
           | Some (content, e) \<Rightarrow> Some (fold (configLine L) (fst (scanLines content)) Map.empty)))"

text \<open>\<^verbatim>\<open>stringFlags\<close> and the other variables that the flags set.\<close>

record flags =
  sf_subdomain :: string
  sf_token :: string
  sf_server :: string
  sf_inspectAddr :: string
  sf_localHost :: string
  sf_tls :: string
  sf_serverCertSHA256 :: string
  fl_inspectSet :: bool
  fl_inspectVal :: bool
  fl_maxBodyMB :: int
  fl_maxBodySet :: bool
  fl_protect :: bool
  fl_showVersion :: bool

definition builtinFlags :: flags where
  "builtinFlags = \<lparr>sf_subdomain = [], sf_token = [], sf_server = ''localhost:7001'', sf_inspectAddr = DefaultInspectAddr,
     sf_localHost = ''127.0.0.1'', sf_tls = [], sf_serverCertSHA256 = [], fl_inspectSet = False, fl_inspectVal = False,
     fl_maxBodyMB = 0, fl_maxBodySet = False, fl_protect = False, fl_showVersion = False\<rparr>"

definition setting :: "settings \<Rightarrow> string \<Rightarrow> string" where
  "setting m k = (case m k of None \<Rightarrow> [] | Some v \<Rightarrow> v)"

definition over :: "string \<Rightarrow> string \<Rightarrow> string" where
  "over v old = (if v \<noteq> [] then v else old)"

definition applyMaxBody :: "string \<Rightarrow> flags \<Rightarrow> flags" where
  "applyMaxBody v f =
     (if v = [] then f else case ParseInt v of None \<Rightarrow> f | Some n \<Rightarrow> f\<lparr>fl_maxBodyMB := n, fl_maxBodySet := True\<rparr>)"

definition applyInspect :: "oslib \<Rightarrow> string \<Rightarrow> flags \<Rightarrow> flags" where
  "applyInspect L v f = (if v = [] then f else f\<lparr>fl_inspectSet := True, fl_inspectVal := EqualFold L v ''true''\<rparr>)"

definition applySettings :: "oslib \<Rightarrow> settings \<Rightarrow> flags \<Rightarrow> flags" where
  "applySettings L m f =
     (let f1 = f\<lparr>sf_server := over (setting m ''server'') (sf_server f), sf_token := over (setting m ''token'') (sf_token f),
                 sf_subdomain := over (setting m ''subdomain'') (sf_subdomain f),
                 sf_inspectAddr := over (setting m ''inspect-addr'') (sf_inspectAddr f),
                 sf_localHost := over (setting m ''local-host'') (sf_localHost f)\<rparr>;
          f2 = applyInspect L (setting m ''inspect'') (applyMaxBody (setting m ''max-body-mb'') f1)
      in f2\<lparr>sf_tls := over (setting m ''tls'') (sf_tls f),
            sf_serverCertSHA256 := over (setting m ''server-cert-sha256'') (sf_serverCertSHA256 f)\<rparr>)"

definition envSettings :: "os \<Rightarrow> settings" where
  "envSettings w =
     fold (\<lambda>(ev, key) m. case os_env w ev of None \<Rightarrow> m | Some v \<Rightarrow> if v \<noteq> [] then m(key \<mapsto> v) else m) envKeys Map.empty"

definition applyDefaults :: "oslib \<Rightarrow> os \<Rightarrow> flags \<Rightarrow> flags" where
  "applyDefaults L w f =
     (let f1 = (case loadConfigFile L w of None \<Rightarrow> f | Some m \<Rightarrow> applySettings L m f)
      in applySettings L (envSettings w) f1)"

section \<open>Flags\<close>

text \<open>The value \<^verbatim>\<open>strconv.Atoi\<close> gives where its error is ignored: 0 for what is no number, the nearest bound for one out of range.\<close>

definition atoiValue :: "string \<Rightarrow> int" where
  "atoiValue s =
     (case ParseInt s of
        Some n \<Rightarrow> n
      | None \<Rightarrow>
          let neg = (s \<noteq> [] \<and> hd s = CHR ''-''); body = (if s \<noteq> [] \<and> (hd s = CHR ''-'' \<or> hd s = CHR ''+'') then tl s else s)
          in case parseDigits body of None \<Rightarrow> 0 | Some n \<Rightarrow> if neg then - (2 ^ 63) else 2 ^ 63 - 1)"

text \<open>
  What one argument asks for: its value in the next argument (which is \<^verbatim>\<open>next()\<close>), a change by itself, help, an unknown flag or a
  positional argument; the tests are those of the \<^verbatim>\<open>switch\<close>, in its order.
\<close>

datatype argstep = ANext "string \<Rightarrow> flags" | ASet flags | AHelp | AUnknown | APos

definition argStep :: "flags \<Rightarrow> string \<Rightarrow> argstep" where
  "argStep f a =
     (if a = ''-s'' \<or> a = ''--subdomain'' then ANext (\<lambda>v. f\<lparr>sf_subdomain := v\<rparr>)
      else if HasPrefix a ''--subdomain='' then ASet (f\<lparr>sf_subdomain := TrimPrefix a ''--subdomain=''\<rparr>)
      else if a = ''-t'' \<or> a = ''--token'' then ANext (\<lambda>v. f\<lparr>sf_token := v\<rparr>)
      else if HasPrefix a ''--token='' then ASet (f\<lparr>sf_token := TrimPrefix a ''--token=''\<rparr>)
      else if a = ''--server'' then ANext (\<lambda>v. f\<lparr>sf_server := v\<rparr>)
      else if HasPrefix a ''--server='' then ASet (f\<lparr>sf_server := TrimPrefix a ''--server=''\<rparr>)
      else if a = ''--inspect-addr'' then ANext (\<lambda>v. f\<lparr>sf_inspectAddr := v\<rparr>)
      else if HasPrefix a ''--inspect-addr='' then ASet (f\<lparr>sf_inspectAddr := TrimPrefix a ''--inspect-addr=''\<rparr>)
      else if a = ''--local-host'' then ANext (\<lambda>v. f\<lparr>sf_localHost := v\<rparr>)
      else if HasPrefix a ''--local-host='' then ASet (f\<lparr>sf_localHost := TrimPrefix a ''--local-host=''\<rparr>)
      else if a = ''--inspect'' then ASet (f\<lparr>fl_inspectSet := True, fl_inspectVal := True\<rparr>)
      else if a = ''--inspect=false'' \<or> a = ''--no-inspect'' then ASet (f\<lparr>fl_inspectSet := True, fl_inspectVal := False\<rparr>)
      else if HasPrefix a ''--inspect='' then
        ASet (f\<lparr>fl_inspectSet := True, fl_inspectVal := (TrimPrefix a ''--inspect='' = ''true'')\<rparr>)
      else if a = ''--max-body-mb'' then ANext (\<lambda>v. f\<lparr>fl_maxBodyMB := atoiValue v, fl_maxBodySet := True\<rparr>)
      else if HasPrefix a ''--max-body-mb='' then
        ASet (f\<lparr>fl_maxBodyMB := atoiValue (TrimPrefix a ''--max-body-mb=''), fl_maxBodySet := True\<rparr>)
      else if a = ''--protect'' then ASet (f\<lparr>fl_protect := True\<rparr>)
      else if a = ''--tls'' then ASet (f\<lparr>sf_tls := ''true''\<rparr>)
      else if HasPrefix a ''--tls='' then ASet (f\<lparr>sf_tls := TrimPrefix a ''--tls=''\<rparr>)
      else if a = ''--server-cert-sha256'' then ANext (\<lambda>v. f\<lparr>sf_serverCertSHA256 := v\<rparr>)
      else if HasPrefix a ''--server-cert-sha256='' then
        ASet (f\<lparr>sf_serverCertSHA256 := TrimPrefix a ''--server-cert-sha256=''\<rparr>)
      else if a = ''--version'' \<or> a = ''-v'' then ASet (f\<lparr>fl_showVersion := True\<rparr>)
      else if a = ''-h'' \<or> a = ''--help'' then AHelp
      else if HasPrefix a ''-'' then AUnknown
      else APos)"

text \<open>\<open>Inl\<close>: the exit code with which the loop returns from \<^verbatim>\<open>run\<close>.\<close>

fun parseArgs :: "flags \<Rightarrow> string list \<Rightarrow> string list \<Rightarrow> int + flags \<times> string list" where
  "parseArgs f args [] = Inr (f, args)"
| "parseArgs f args [a] =
     (case argStep f a of
        ANext g \<Rightarrow> Inr (g [], args)
      | ASet f1 \<Rightarrow> Inr (f1, args)
      | AHelp \<Rightarrow> Inl 0
      | AUnknown \<Rightarrow> Inl 2
      | APos \<Rightarrow> Inr (f, args @ [a]))"
| "parseArgs f args (a # b # rest) =
     (case argStep f a of
        ANext g \<Rightarrow> parseArgs (g b) args rest
      | ASet f1 \<Rightarrow> parseArgs f1 args (b # rest)
      | AHelp \<Rightarrow> Inl 0
      | AUnknown \<Rightarrow> Inl 2
      | APos \<Rightarrow> parseArgs f (args @ [a]) (b # rest))"

text \<open>\<^verbatim>\<open>strconv.ParseBool\<close>\<close>

definition ParseBool :: "string \<Rightarrow> bool option" where
  "ParseBool s =
     (if s \<in> set [''1'', ''t'', ''T'', ''true'', ''TRUE'', ''True''] then Some True
      else if s \<in> set [''0'', ''f'', ''F'', ''false'', ''FALSE'', ''False''] then Some False else None)"

definition parseBool :: "string \<Rightarrow> bool option" where
  "parseBool v = (if v = [] then Some False else ParseBool v)"

text \<open>\<^verbatim>\<open>int64(n) << 20\<close>\<close>

definition shl20 :: "int \<Rightarrow> int" where
  "shl20 n = sint (push_bit 20 (word_of_int n :: 64 word))"

definition configOf :: "flags \<Rightarrow> int \<Rightarrow> bool \<Rightarrow> cconfig" where
  "configOf f port tlsOn =
     \<lparr>cc_LocalPort = port, cc_LocalHost = sf_localHost f, cc_ServerAddr = sf_server f, cc_Subdomain = sf_subdomain f,
      cc_Token = sf_token f, cc_Protect = fl_protect f, cc_Inspect = (if fl_inspectSet f then fl_inspectVal f else True),
      cc_InspectAddr = orDefault DefaultInspectAddr (sf_inspectAddr f),
      cc_MaxBody = (if fl_maxBodySet f \<and> 0 < fl_maxBodyMB f then shl20 (fl_maxBodyMB f) else 32 * 2 ^ 20),
      cc_TLS = tlsOn, cc_ServerCertSHA256 = sf_serverCertSHA256 f, cc_PingInterval = 0, cc_IdleTimeout = 0, cc_pin = []\<rparr>"

text \<open>From the arguments to the configuration the tunnel is made from, or the exit code.\<close>

definition runConfig :: "oslib \<Rightarrow> os \<Rightarrow> string list \<Rightarrow> int + cconfig" where
  "runConfig L w argv =
     (case parseArgs (applyDefaults L w builtinFlags) [] argv of
        Inl code \<Rightarrow> Inl code
      | Inr (f, args) \<Rightarrow>
          if fl_showVersion f then Inl 0
          else if length args \<noteq> 1 then Inl 2
          else case ParseInt (hd args) of
            None \<Rightarrow> Inl 2
          | Some port \<Rightarrow>
              (case parseBool (sf_tls f) of
                 None \<Rightarrow> Inl 2
               | Some tlsOn \<Rightarrow>
                   (case Validate (configOf f port tlsOn) of Inl e \<Rightarrow> Inl 2 | Inr c \<Rightarrow> Inr c)))"

section \<open>The plain log\<close>

definition logPath :: "string \<Rightarrow> string" where
  "logPath p = (case IndexByte p CHR ''?'' of Some i \<Rightarrow> take i p | None \<Rightarrow> p)"

definition padRight :: "oslib \<Rightarrow> nat \<Rightarrow> string \<Rightarrow> string" where
  "padRight L n s = s @ replicate (n - ol_runes L s) CHR '' ''"

definition padLeft :: "nat \<Rightarrow> string \<Rightarrow> string" where
  "padLeft n s = replicate (n - length s) CHR '' '' @ s"

definition logRequest :: "oslib \<Rightarrow> irec \<Rightarrow> string" where
  "logRequest L r =
     (let stat = (if ir_Errored r then ''ERR'' else Itoa (ir_Status r))
      in padRight L 7 (ir_Method r) @ '' '' @ padRight L 40 (logPath (ir_Path r)) @ '' '' @ stat @ '' '' @
         padLeft 4 (Itoa (ir_Duration r)) @ ''ms'' @ [newline])"

definition logLine :: "oslib \<Rightarrow> event \<Rightarrow> string" where
  "logLine L e =
     (case ev_Kind e of
        EventConnected \<Rightarrow> [newline] @ utf8 [0xE2, 0x9C, 0x93] @ '' tunnel live  '' @ ev_PublicURL e @ [newline, newline]
      | EventDisconnected \<Rightarrow> utf8 [0xE2, 0x9C, 0x97] @ '' disconnected: '' @ ev_Message e @ [newline]
      | EventReconnecting \<Rightarrow> utf8 [0xE2, 0x80, 0xA6] @ '' '' @ ev_Message e @ [newline]
      | EventRequest \<Rightarrow> (case ev_Record e of None \<Rightarrow> [] | Some r \<Rightarrow> logRequest L r)
      | EventShuttingDown \<Rightarrow> ''shutdown'' @ [newline]
      | EventConnecting \<Rightarrow> [])"

text \<open>The events up to the one that ends the loop, and whether it was seen.\<close>

fun headless :: "oslib \<Rightarrow> event list \<Rightarrow> string \<times> bool" where
  "headless L [] = ([], False)"
| "headless L (e # es) =
     (if ev_Kind e = EventShuttingDown then (logLine L e, True)
      else case headless L es of (out, fin) \<Rightarrow> (logLine L e @ out, fin))"

section \<open>Acquiring a token\<close>

definition deriveProxyURL :: "string \<Rightarrow> string" where
  "deriveProxyURL serverAddr =
     (let host = (case SplitHostPort serverAddr of Some (h, p) \<Rightarrow> h | None \<Rightarrow> serverAddr)
      in if host \<in> set [''localhost'', ''127.0.0.1'', ''::1''] then ''http://localhost:8080'' else ''https://'' @ host)"

definition isTokenLine :: "oslib \<Rightarrow> string \<Rightarrow> bool" where
  "isTokenLine L line =
     (let trimmed = TrimSpace line
      in trimmed \<noteq> [] \<and> \<not> HasPrefix trimmed ''#'' \<and>
         (case Cut trimmed CHR ''='' of None \<Rightarrow> False | Some (k, v) \<Rightarrow> EqualFold L (TrimSpace k) ''token''))"

fun tokenLines :: "oslib \<Rightarrow> string \<Rightarrow> bool \<Rightarrow> string list \<Rightarrow> string list" where
  "tokenLines L tok replaced [] = (if replaced then [] else [''token='' @ tok])"
| "tokenLines L tok replaced (line # ls) =
     (if isTokenLine L line then (if replaced then [] else [''token='' @ tok]) @ tokenLines L tok True ls
      else line # tokenLines L tok replaced ls)"

text \<open>\<^verbatim>\<open>strings.TrimRight(s, "\n")\<close>\<close>

definition trimNewlines :: "string \<Rightarrow> string" where
  "trimNewlines s = rev (dropWhile (\<lambda>c. c = newline) (rev s))"

definition newConfig :: "oslib \<Rightarrow> string \<Rightarrow> string \<Rightarrow> string" where
  "newConfig L tok existing =
     trimNewlines (Join (tokenLines L tok False (Split existing newline)) [newline]) @ [newline]"

definition updateConfigToken :: "oslib \<Rightarrow> string \<Rightarrow> os \<Rightarrow> string option \<times> os" where
  "updateConfigToken L tok w =
     (case configPath w of
        None \<Rightarrow> (Some ''$HOME is not defined'', w)
      | Some path \<Rightarrow>
          (case os_mkdir w path of
             Some e \<Rightarrow> (Some e, w)
           | None \<Rightarrow>
               let existing = (case os_files w path of None \<Rightarrow> [] | Some (content, e) \<Rightarrow> content)
               in case os_write w path of
                    Some (e, left) \<Rightarrow> (Some e, w\<lparr>os_files := (os_files w)(path := left)\<rparr>)
                  | None \<Rightarrow> (None, w\<lparr>os_files := (os_files w)(path \<mapsto> (newConfig L tok existing, None))\<rparr>)))"

text \<open>
  The flags of \<^verbatim>\<open>munnel token\<close> as the \<^verbatim>\<open>flag\<close> package parsed them, the password the terminal gives (or the error), and the exchange with
  the server: the request is the URL with its fields, the answer the status and the decoded body, if it decodes.
\<close>

record tokflags =
  tf_sub :: string
  tf_ttl :: string
  tf_password :: string
  tf_server :: string
  tf_serverURL :: string
  tf_help :: bool

record tokreq =
  tq_URL :: string
  tq_Sub :: string
  tq_Password :: string
  tq_TTL :: string

record tokresp =
  to_Token :: string
  to_ID :: string
  to_Sub :: string
  to_Expires :: string
  to_Error :: string

definition tokenServer :: "oslib \<Rightarrow> os \<Rightarrow> tokflags \<Rightarrow> string" where
  "tokenServer L w t =
     (let s1 = (if tf_server t = [] then (case loadConfigFile L w of None \<Rightarrow> [] | Some m \<Rightarrow> setting m ''server'') else tf_server t)
      in if s1 = [] then ''localhost:7001'' else s1)"

definition tokenPassword :: "os \<Rightarrow> (string + string) \<Rightarrow> tokflags \<Rightarrow> string option" where
  "tokenPassword w prompt t =
     (if tf_password t \<noteq> [] then Some (tf_password t)
      else if Getenv w ''MUNNEL_ENROLL_PASSWORD'' \<noteq> [] then Some (Getenv w ''MUNNEL_ENROLL_PASSWORD'')
      else case prompt of Inl e \<Rightarrow> None | Inr pw \<Rightarrow> if pw = [] then None else Some pw)"

definition tokenRequest :: "oslib \<Rightarrow> os \<Rightarrow> string \<Rightarrow> tokflags \<Rightarrow> tokreq" where
  "tokenRequest L w pw t =
     (let proxyURL = (if tf_serverURL t = [] then deriveProxyURL (tokenServer L w t) else tf_serverURL t)
      in \<lparr>tq_URL = TrimSuffix proxyURL ''/'' @ ''/__munnel/token'', tq_Sub = tf_sub t, tq_Password = pw, tq_TTL = tf_ttl t\<rparr>)"

definition runToken ::
  "oslib \<Rightarrow> (tokreq \<Rightarrow> tokresp option option) \<Rightarrow> (string + string) \<Rightarrow> tokflags option \<Rightarrow> os \<Rightarrow> int \<times> os" where
  "runToken L post prompt parsed w =
     (case parsed of
        None \<Rightarrow> (2, w)
      | Some t \<Rightarrow>
          if tf_help t then (0, w)
          else case tokenPassword w prompt t of
            None \<Rightarrow> (2, w)
          | Some pw \<Rightarrow>
              (case post (tokenRequest L w pw t) of
                 None \<Rightarrow> (1, w)
               | Some None \<Rightarrow> (1, w)
               | Some (Some out) \<Rightarrow>
                   if to_Error out \<noteq> [] then (1, w)
                   else if to_Token out = [] then (1, w)
                   else case updateConfigToken L (to_Token out) w of
                          (Some e, w1) \<Rightarrow> (1, w1)
                        | (None, w1) \<Rightarrow> (0, w1)))"

end
