(* ===== verification/Cli_Props.thy ===== *)
theory Cli_Props
  imports Cli
begin

text \<open>
  What the command line promises: a token that was acquired is the one the next tunnel uses and nothing else in the configuration file
  changes its meaning; flags win over the environment, the environment over the file, the file over the built-in values.
\<close>

section \<open>White space in ASCII text\<close>

definition asciiSpace :: "char \<Rightarrow> bool" where
  "asciiSpace c \<longleftrightarrow> of_char c \<in> {9, 10, 11, 12, 13, 32 :: nat}"

lemma spaceRunes_heads:
  "w \<in> set spaceRunes \<Longrightarrow> (\<exists>c. asciiSpace c \<and> w = [c]) \<or> w \<noteq> [] \<and> \<not> isAscii (hd w) \<and> \<not> isAscii (last w)"
  by (auto simp: spaceRunes_def utf8_def asciiSpace_def isAscii_def)

lemma asciiSpace_rune: "asciiSpace c \<Longrightarrow> [c] \<in> set spaceRunes"
proof -
  assume "asciiSpace c"
  then have "[c] = utf8 [of_char c]" "of_char c \<in> set [9, 10, 11, 12, 13, 32 :: nat]" by (auto simp: asciiSpace_def utf8_def)
  then show ?thesis unfolding spaceRunes_def by auto
qed

lemma runeLen_ascii:
  assumes ascii: "isAscii c"
    and ws: "\<And>w. w \<in> set ws \<Longrightarrow> (\<exists>c. asciiSpace c \<and> w = [c]) \<or> w \<noteq> [] \<and> \<not> isAscii (hd w)" "\<And>c. asciiSpace c \<Longrightarrow> [c] \<in> set ws"
  shows "runeLen ws (c # s) = (if asciiSpace c then 1 else 0)"
proof -
  have only: "w = [c] \<and> asciiSpace c" if "w \<in> set ws" "w \<noteq> []" "HasPrefix (c # s) w" for w
    using ws(1) [OF that(1)] HasPrefix_hd [OF that(2,3)] ascii by auto
  show ?thesis
  proof (cases "find (\<lambda>w. w \<noteq> [] \<and> HasPrefix (c # s) w) ws")
    case None
    then have "\<not> asciiSpace c" using ws(2) [of c] by (auto simp: find_None_iff HasPrefix_def)
    then show ?thesis using None by (simp add: runeLen_def)
  next
    case (Some w)
    then have "w = [c] \<and> asciiSpace c" by (intro only) (auto simp: find_Some_iff)
    then show ?thesis using Some by (simp add: runeLen_def)
  qed
qed

lemma trimRunes_ascii:
  assumes "list_all isAscii s"
    and ws: "\<And>w. w \<in> set ws \<Longrightarrow> (\<exists>c. asciiSpace c \<and> w = [c]) \<or> w \<noteq> [] \<and> \<not> isAscii (hd w)" "\<And>c. asciiSpace c \<Longrightarrow> [c] \<in> set ws"
  shows "trimRunes ws s = dropWhile asciiSpace s"
  using assms(1)
proof (induction s)
  case Nil
  then show ?case by (simp add: trimRunes.simps [of ws "[]"])
next
  case (Cons c s)
  then have "runeLen ws (c # s) = (if asciiSpace c then 1 else 0)" using ws by (intro runeLen_ascii) auto
  then show ?case using Cons by (simp add: trimRunes.simps [of ws "c # s"])
qed

lemma TrimSpace_ascii:
  assumes "list_all isAscii s"
  shows "TrimSpace s = rev (dropWhile asciiSpace (rev (dropWhile asciiSpace s)))"
proof -
  have "trimRunes spaceRunes s = dropWhile asciiSpace s"
    using assms spaceRunes_heads asciiSpace_rune by (intro trimRunes_ascii) blast+
  moreover have "trimRunes (map rev spaceRunes) (rev (dropWhile asciiSpace s)) = dropWhile asciiSpace (rev (dropWhile asciiSpace s))"
  proof (rule trimRunes_ascii)
    show "list_all isAscii (rev (dropWhile asciiSpace s))" using assms by (auto simp: list_all_iff dest: set_dropWhileD)
    show "(\<exists>c. asciiSpace c \<and> w = [c]) \<or> w \<noteq> [] \<and> \<not> isAscii (hd w)" if "w \<in> set (map rev spaceRunes)" for w
      using that spaceRunes_heads by (fastforce simp: hd_rev)
    show "[c] \<in> set (map rev spaceRunes)" if "asciiSpace c" for c using asciiSpace_rune [OF that] by force
  qed
  ultimately show ?thesis by (simp add: TrimSpace_def)
qed

lemma lowerByte_ascii [simp]: "isAscii (lowerByte c) = isAscii c" "asciiSpace (lowerByte c) = asciiSpace c"
  by (auto simp: lowerByte_def isAscii_def asciiSpace_def Let_def)

lemma list_all_lower [simp]: "list_all isAscii (map lowerByte s) = list_all isAscii s"
  by (simp add: list_all_iff)

lemma TrimSpace_lower:
  assumes "list_all isAscii s"
  shows "TrimSpace (map lowerByte s) = map lowerByte (TrimSpace s)"
  using assms by (simp add: TrimSpace_ascii dropWhile_map comp_def rev_map)

lemma TrimSpace_dropCR:
  assumes "list_all isAscii s"
  shows "TrimSpace (dropCR s) = TrimSpace s"
proof (cases "s \<noteq> [] \<and> last s = CHR 13")
  case True
  then obtain t where s: "s = t @ [CHR 13]" by (metis append_butlast_last_id)
  have sp: "asciiSpace (CHR 13)" by (simp add: asciiSpace_def)
  have "list_all isAscii t" using assms s by simp
  moreover have "dropWhile asciiSpace (t @ [CHR 13]) = (if list_all asciiSpace t then [] else dropWhile asciiSpace t @ [CHR 13])"
    by (induction t) (simp_all add: sp)
  ultimately show ?thesis using assms sp by (auto simp: s TrimSpace_ascii dropCR_def list_all_iff dest: set_dropWhileD)
qed (auto simp: dropCR_def)

lemma TrimSpace_isAscii: "list_all isAscii s \<Longrightarrow> list_all isAscii (TrimSpace s)"
  by (auto simp: TrimSpace_ascii list_all_iff dest!: set_dropWhileD)

section \<open>Lines\<close>

text \<open>What one line of the file says.\<close>

definition entry :: "oslib \<Rightarrow> string \<Rightarrow> (string \<times> string) option" where
  "entry L text =
     (let line = TrimSpace text
      in if line = [] \<or> HasPrefix line ''#'' then None
         else map_option (\<lambda>(k, v). (TrimSpace (ToLower (ol_lower L) k), TrimSpace v)) (Cut line CHR ''=''))"

definition put :: "(string \<times> string) option \<Rightarrow> settings \<Rightarrow> settings" where
  "put e m = (case e of None \<Rightarrow> m | Some (k, v) \<Rightarrow> m(k \<mapsto> v))"

lemma configLine_entry: "configLine L text m = put (entry L text) m"
  by (auto simp: configLine_def entry_def put_def Let_def split: option.split)

definition meaning :: "oslib \<Rightarrow> string \<Rightarrow> settings" where
  "meaning L content = fold (\<lambda>l. put (entry L l)) (Split content newline) Map.empty"

lemma Split_nonempty [simp]: "Split s c \<noteq> []"
  by (induction s) (auto split: list.split)

lemma Split_snoc: "Split (s @ [c]) c = Split s c @ [[]]"
proof (induction s)
  case (Cons a s)
  obtain x xs where "Split s c = x # xs" by (cases "Split s c") auto
  with Cons show ?case by simp
qed simp

lemma Split_newlines: "Split (s @ replicate n c) c = Split s c @ replicate n []"
proof (induction n)
  case (Suc n)
  have "s @ replicate (Suc n) c = (s @ replicate n c) @ [c]" by (simp add: replicate_append_same)
  then show ?case using Suc by (simp only: Split_snoc) (simp add: replicate_append_same)
qed simp

lemma Split_chars: "\<forall>l \<in> set (Split s c). set l \<subseteq> set s \<and> c \<notin> set l"
proof (induction s)
  case (Cons a s)
  obtain x xs where "Split s c = x # xs" by (cases "Split s c") auto
  with Cons show ?case by auto
qed simp

lemma Split_Join:
  assumes "ls \<noteq> []" and "\<forall>l \<in> set ls. c \<notin> set l"
  shows "Split (Join ls [c]) c = ls"
  using assms
proof (induction ls rule: induct_list012)
  case (2 x)
  have "Split x c = [x]" if "c \<notin> set x" for x using that by (induction x) auto
  with 2 show ?case by simp
next
  case (3 x y zs)
  have step: "Split (x @ c # s) c = x # Split s c" if "c \<notin> set x" for x s using that by (induction x) auto
  from 3 show ?case by (simp add: step)
qed simp

lemma trimNewlines_split: "\<exists>n. s = trimNewlines s @ replicate n newline"
proof -
  have "rev s = takeWhile (\<lambda>c. c = newline) (rev s) @ dropWhile (\<lambda>c. c = newline) (rev s)" by simp
  moreover have "takeWhile (\<lambda>c. c = newline) (rev s) = replicate (length (takeWhile (\<lambda>c. c = newline) (rev s))) newline"
    by (rule replicate_length_same [symmetric]) (auto dest: set_takeWhileD)
  ultimately have "s = trimNewlines s @ rev (replicate (length (takeWhile (\<lambda>c. c = newline) (rev s))) newline)"
    unfolding trimNewlines_def by (metis rev_append rev_rev_ident)
  then show ?thesis by (metis rev_replicate)
qed

lemma entry_Nil [simp]: "entry L [] = None"
  by (simp add: entry_def)

lemma put_None [simp]: "put None = (\<lambda>m. m)"
  by (simp add: put_def fun_eq_iff)

lemma put_Some [simp]: "put (Some (k, v)) = (\<lambda>m. m(k \<mapsto> v))"
  by (simp add: put_def fun_eq_iff)

lemma fold_blank: "fold (\<lambda>l. put (entry L l)) (replicate n []) m = m"
  by (induction n) simp_all

lemma funpow_same [simp]: "((\<lambda>m. m) ^^ n) m = m"
  by (induction n) simp_all

lemma entry_dropCR: "list_all isAscii l \<Longrightarrow> entry L (dropCR l) = entry L l"
  by (simp add: entry_def TrimSpace_dropCR)

text \<open>Reading a file of ASCII text without overlong lines.\<close>

definition plainText :: "string \<Rightarrow> bool" where
  "plainText s \<longleftrightarrow> list_all isAscii s \<and> (\<forall>l \<in> set (Split s newline). length l < MaxScanTokenSize)"

lemma load_meaning:
  assumes "plainText s"
  shows "fold (configLine L) (fst (scanLines s)) Map.empty = meaning L s"
proof -
  let ?ls = "Split s newline"
  have ascii: "list_all isAscii l" if "l \<in> set ?ls" for l using bspec [OF Split_chars that] assms by (auto simp: plainText_def list_all_iff)
  have sub: "set (rawLines s) \<subseteq> set ?ls" by (auto simp: rawLines_def Let_def dest: in_set_butlastD)
  then have whole: "takeWhile (\<lambda>l. length l < MaxScanTokenSize) (rawLines s) = rawLines s"
    using assms by (auto simp: takeWhile_eq_all_conv plainText_def)
  have "fst (scanLines s) = map dropCR (rawLines s)" unfolding scanLines_def Let_def whole by simp
  moreover have "fold (configLine L) (map dropCR ls) m = fold (\<lambda>l. put (entry L l)) ls m" if "set ls \<subseteq> set ?ls" for ls m
    using that by (induction ls arbitrary: m) (simp_all add: configLine_entry entry_dropCR ascii)
  moreover have "fold (\<lambda>l. put (entry L l)) (rawLines s) m = fold (\<lambda>l. put (entry L l)) ?ls m" for m
  proof (cases "last ?ls = []")
    case True
    then have "?ls = butlast ?ls @ [[]]" by (metis Split_nonempty append_butlast_last_id)
    then have "fold (\<lambda>l. put (entry L l)) ?ls m = fold (\<lambda>l. put (entry L l)) (butlast ?ls @ [[]]) m" by simp
    then show ?thesis using True by (simp add: rawLines_def)
  qed (simp add: rawLines_def)
  ultimately show ?thesis using sub by (simp add: meaning_def)
qed

lemma meaning_trimmed: "meaning L (trimNewlines s @ [newline]) = meaning L s"
proof -
  obtain n where n: "s = trimNewlines s @ replicate n newline" using trimNewlines_split by blast
  have "meaning L s = meaning L (trimNewlines s)" by (subst n) (simp add: meaning_def Split_newlines fold_blank)
  then show ?thesis by (simp add: meaning_def Split_snoc)
qed

lemma plainText_trimmed:
  assumes "plainText s"
  shows "plainText (trimNewlines s @ [newline])"
proof -
  obtain n where n: "s = trimNewlines s @ replicate n newline" using trimNewlines_split by blast
  then have "set (trimNewlines s) \<subseteq> set s" by (metis set_append sup_ge1)
  moreover have "set (Split (trimNewlines s) newline) \<subseteq> set (Split s newline)" by (subst (2) n) (simp add: Split_newlines)
  ultimately show ?thesis
    using assms by (auto simp: plainText_def list_all_iff Split_snoc isAscii_def MaxScanTokenSize_def)
qed

section \<open>Saving a token\<close>

lemma Cut_ascii: "list_all isAscii s \<Longrightarrow> Cut s c = Some (k, v) \<Longrightarrow> list_all isAscii k"
  by (auto simp: Cut_def list_all_iff dest: in_set_takeD split: option.splits)

lemma isTokenLine_entry:
  assumes "list_all isAscii l"
  shows "isTokenLine L l \<longleftrightarrow> (\<exists>v. entry L l = Some (''token'', v))"
proof -
  have lower: "map lowerByte ''token'' = ''token''" "list_all isAscii ''token''" by (simp_all add: lowerByte_def isAscii_def)
  have "EqualFold L (TrimSpace k) ''token'' \<longleftrightarrow> TrimSpace (ToLower (ol_lower L) k) = ''token''" if "Cut (TrimSpace l) CHR ''='' = Some (k, v)" for k v
    using Cut_ascii [OF TrimSpace_isAscii [OF assms] that] lower
    by (simp add: EqualFold_def ToLower_def TrimSpace_isAscii TrimSpace_lower del: list.map)
  then show ?thesis by (auto simp: isTokenLine_def entry_def Let_def split: option.split)
qed

text \<open>Tokens that fit on a line: what the server issues is one.\<close>

definition lineToken :: "string \<Rightarrow> bool" where
  "lineToken tok \<longleftrightarrow> tok \<noteq> [] \<and> list_all graphic tok \<and> length tok < MaxScanTokenSize - 6"

lemma token_entry:
  assumes "lineToken tok"
  shows "entry L (''token='' @ tok) = Some (''token'', tok)"
proof -
  have g: "graphic (hd tok)" "graphic (last tok)" "tok \<noteq> []" using assms by (auto simp: lineToken_def list_all_iff)
  have "TrimSpace (''token='' @ tok) = ''token='' @ tok" using g by (intro TrimSpace_plain) (simp_all add: graphic_def)
  moreover have "TrimSpace tok = tok" using g by (intro TrimSpace_plain) simp_all
  moreover have "TrimSpace ''token'' = ''token''" by (rule TrimSpace_plain) (simp_all add: graphic_def)
  moreover have "ToLower (ol_lower L) ''token'' = ''token''" by (simp add: ToLower_def isAscii_def lowerByte_def)
  moreover have "Cut (''token='' @ tok) CHR ''='' = Some (''token'', tok)" by (simp add: Cut_def)
  ultimately show ?thesis by (simp add: entry_def HasPrefix_def)
qed

lemma fold_forget:
  "(fold (\<lambda>l. put (entry L l)) ls (m(k := x)))(k := z) = (fold (\<lambda>l. put (entry L l)) ls m)(k := z)"
proof (induction ls arbitrary: m x)
  case (Cons l ls)
  consider "put (entry L l) (m(k := x)) = put (entry L l) m" | "put (entry L l) (m(k := x)) = (put (entry L l) m)(k := x)"
    by (cases "entry L l") (metis put_None, metis put_Some fun_upd_twist fun_upd_upd surj_pair)
  then show ?case by cases (simp_all only: fold_simps Cons)
qed simp

lemma tokenLines_meaning:
  assumes "lineToken tok" and "\<forall>l \<in> set ls. list_all isAscii l"
  shows "fold (\<lambda>l. put (entry L l)) (tokenLines L tok replaced ls) m =
     (fold (\<lambda>l. put (entry L l)) ls m)(''token'' := (if replaced then m ''token'' else Some tok))"
  using assms(2)
proof (induction ls arbitrary: m replaced)
  case Nil
  then show ?case using token_entry [OF assms(1)] by (auto simp: put_def)
next
  case (Cons l ls)
  show ?case
  proof (cases "isTokenLine L l")
    case True
    then obtain v where v: "entry L l = Some (''token'', v)" using isTokenLine_entry Cons.prems by auto
    have IH: "fold (\<lambda>l. put (entry L l)) (tokenLines L tok True ls) m' = (fold (\<lambda>l. put (entry L l)) ls m')(''token'' := m' ''token'')" for m'
      using Cons.IH [of True m', unfolded if_True] Cons.prems by (meson list.set_intros(2))
    have "fold (\<lambda>l. put (entry L l)) (l # ls) m = fold (\<lambda>l. put (entry L l)) ls (m(''token'' \<mapsto> v))" using v by simp
    then show ?thesis
      using True token_entry [OF assms(1), of L] by (cases replaced) (simp_all only: tokenLines.simps if_True if_False append_Nil append_Cons
          fold_simps IH fold_forget put_Some fun_upd_same)
  next
    case False
    then have "\<not> (\<exists>v. entry L l = Some (''token'', v))" using isTokenLine_entry Cons.prems by auto
    then have same: "put (entry L l) m ''token'' = m ''token''" by (auto simp: put_def split: option.split)
    have "\<forall>l \<in> set ls. list_all isAscii l" using Cons.prems by simp
    from Cons.IH [OF this] False same show ?thesis by (simp only: tokenLines.simps if_False fold_simps)
  qed
qed

lemma tokenLines_lines:
  "l \<in> set (tokenLines L tok replaced ls) \<Longrightarrow> l = ''token='' @ tok \<or> l \<in> set ls"
  by (induction ls arbitrary: replaced) (auto split: if_splits)

lemma tokenLines_nonempty: "tokenLines L tok False ls \<noteq> []"
  by (cases ls) auto

lemma Join_set: "set (Join ls [c]) \<subseteq> (\<Union>l \<in> set ls. set l) \<union> {c}"
  by (induction ls rule: induct_list012) auto

lemma newConfig_meaning:
  assumes tok: "lineToken tok" and old: "plainText existing"
  shows "plainText (newConfig L tok existing) \<and> meaning L (newConfig L tok existing) = (meaning L existing)(''token'' \<mapsto> tok)"
proof -
  let ?ls = "Split existing newline" let ?new = "tokenLines L tok False ?ls"
  have ascii: "\<forall>l \<in> set ?ls. list_all isAscii l \<and> length l < MaxScanTokenSize \<and> newline \<notin> set l"
    using old Split_chars [of existing newline] by (fastforce simp: plainText_def list_all_iff)
  have t: "list_all isAscii (''token='' @ tok) \<and> length (''token='' @ tok) < MaxScanTokenSize \<and> newline \<notin> set (''token='' @ tok)"
    using tok by (auto simp: lineToken_def MaxScanTokenSize_def list_all_iff graphic_def isAscii_def)
  have new: "\<forall>l \<in> set ?new. list_all isAscii l \<and> length l < MaxScanTokenSize \<and> newline \<notin> set l"
    using ascii t tokenLines_lines by blast
  then have split: "Split (Join ?new [newline]) newline = ?new" using tokenLines_nonempty by (intro Split_Join) auto
  have "list_all isAscii (Join ?new [newline])"
    using new Join_set [of ?new newline] by (fastforce simp: list_all_iff isAscii_def)
  then have "plainText (Join ?new [newline])" using split new by (simp add: plainText_def)
  moreover have "meaning L (Join ?new [newline]) = (meaning L existing)(''token'' \<mapsto> tok)"
    using tokenLines_meaning [OF tok, of ?ls L False Map.empty] ascii by (simp add: meaning_def split)
  ultimately show ?thesis by (simp add: newConfig_def plainText_trimmed meaning_trimmed)
qed

lemma updateConfigToken_env:
  "os_env (snd (updateConfigToken L tok w)) = os_env w"
  by (auto simp: updateConfigToken_def Let_def split: option.split)

lemma sf_token_applySettings: "sf_token (applySettings L m f) = over (setting m ''token'') (sf_token f)"
  by (auto simp: applySettings_def applyMaxBody_def applyInspect_def Let_def split: option.split)

lemma token_reloads:
  assumes up: "updateConfigToken L tok w = (None, w')" and tok: "lineToken tok"
    and plain: "\<And>path content e. configPath w = Some path \<Longrightarrow> os_files w path = Some (content, e) \<Longrightarrow> plainText content"
  shows "loadConfigFile L w' = Some ((case loadConfigFile L w of None \<Rightarrow> Map.empty | Some m \<Rightarrow> m)(''token'' \<mapsto> tok))"
proof -
  obtain path where p: "configPath w = Some path" and ok: "os_mkdir w path = None" "os_write w path = None"
    using up by (auto simp: updateConfigToken_def Let_def split: option.splits)
  define existing where "existing = (case os_files w path of None \<Rightarrow> [] | Some (content, e) \<Rightarrow> content)"
  have w': "w' = w\<lparr>os_files := (os_files w)(path \<mapsto> (newConfig L tok existing, None))\<rparr>"
    using up p ok by (simp add: updateConfigToken_def Let_def existing_def)
  then have "os_env w' = os_env w" "os_home w' = os_home w" "os_configIn w' = os_configIn w" by simp_all
  then have p': "configPath w' = Some path" using p by (simp only: configPath_def Getenv_def)
  have old: "plainText existing"
    using plain [OF p] by (auto simp: existing_def plainText_def MaxScanTokenSize_def split: option.splits)
  have "meaning L existing = (case loadConfigFile L w of None \<Rightarrow> Map.empty | Some m \<Rightarrow> m)"
    using load_meaning [OF old, of L] p by (auto simp: loadConfigFile_def existing_def meaning_def split: option.splits)
  then show ?thesis
    using newConfig_meaning [OF tok old, of L] p' load_meaning [of "newConfig L tok existing" L] by (simp add: loadConfigFile_def w')
qed

text \<open>
  Property C23. A token acquired with \<^verbatim>\<open>munnel token\<close> is saved: when the command ends with 0 after the server answered with a token that fits on a
  line, the configuration file (ASCII text without overlong lines before) reads back with that token and every other setting as it was, and the next
  \<^verbatim>\<open>munnel\<close> starts from that token unless the environment names another; in every other outcome the command does not end
  with 0 unless it was asked for help.
\<close>

theorem token_saved:
  assumes run: "runToken L post prompt (Some t) w = (code, w')" and nohelp: "\<not> tf_help t"
    and plain: "\<And>path content e. configPath w = Some path \<Longrightarrow> os_files w path = Some (content, e) \<Longrightarrow> plainText content"
  shows "(code = 0 \<longleftrightarrow> (\<exists>pw out. tokenPassword w prompt t = Some pw \<and> post (tokenRequest L w pw t) = Some (Some out) \<and>
        to_Error out = [] \<and> to_Token out \<noteq> [] \<and> fst (updateConfigToken L (to_Token out) w) = None)) \<and>
     (\<forall>pw out. tokenPassword w prompt t = Some pw \<and> post (tokenRequest L w pw t) = Some (Some out) \<and> lineToken (to_Token out) \<and> code = 0 \<longrightarrow>
        loadConfigFile L w' = Some ((case loadConfigFile L w of None \<Rightarrow> Map.empty | Some m \<Rightarrow> m)(''token'' \<mapsto> to_Token out)) \<and>
        (\<forall>f. sf_token (applyDefaults L w' f) = over (setting (envSettings w) ''token'') (to_Token out)))"
proof -
  have 0: "code = 0 \<longleftrightarrow> (\<exists>pw out. tokenPassword w prompt t = Some pw \<and> post (tokenRequest L w pw t) = Some (Some out) \<and>
        to_Error out = [] \<and> to_Token out \<noteq> [] \<and> fst (updateConfigToken L (to_Token out) w) = None)"
    using run nohelp by (auto simp: runToken_def split: option.splits if_splits prod.splits)
  moreover have "loadConfigFile L w' = Some ((case loadConfigFile L w of None \<Rightarrow> Map.empty | Some m \<Rightarrow> m)(''token'' \<mapsto> to_Token out)) \<and>
      (\<forall>f. sf_token (applyDefaults L w' f) = over (setting (envSettings w) ''token'') (to_Token out))"
    if prem: "tokenPassword w prompt t = Some pw" "post (tokenRequest L w pw t) = Some (Some out)" "lineToken (to_Token out)" "code = 0" for pw out
  proof -
    have up: "updateConfigToken L (to_Token out) w = (None, w')"
      using run nohelp prem by (auto simp: runToken_def split: option.splits if_splits prod.splits)
    note load = token_reloads [OF up prem(3) plain]
    have "to_Token out \<noteq> []" using prem(3) by (simp add: lineToken_def)
    moreover have "envSettings w' = envSettings w" using updateConfigToken_env [of L "to_Token out" w] up by (simp add: envSettings_def)
    ultimately have "sf_token (applyDefaults L w' f) = over (setting (envSettings w) ''token'') (to_Token out)" for f
      by (simp add: applyDefaults_def load sf_token_applySettings Let_def setting_def over_def)
    with load show ?thesis by simp
  qed
  ultimately show ?thesis by blast
qed

section \<open>Precedence\<close>

text \<open>The settings that are strings, the ways to give one on the command line, and what the command line says of it.\<close>

datatype skey = KSubdomain | KToken | KServer | KInspectAddr | KLocalHost | KTLS | KPin

primrec keyName :: "skey \<Rightarrow> string" where
  "keyName KSubdomain = ''subdomain''"
| "keyName KToken = ''token''"
| "keyName KServer = ''server''"
| "keyName KInspectAddr = ''inspect-addr''"
| "keyName KLocalHost = ''local-host''"
| "keyName KTLS = ''tls''"
| "keyName KPin = ''server-cert-sha256''"

primrec flagOf :: "skey \<Rightarrow> flags \<Rightarrow> string" where
  "flagOf KSubdomain f = sf_subdomain f"
| "flagOf KToken f = sf_token f"
| "flagOf KServer f = sf_server f"
| "flagOf KInspectAddr f = sf_inspectAddr f"
| "flagOf KLocalHost f = sf_localHost f"
| "flagOf KTLS f = sf_tls f"
| "flagOf KPin f = sf_serverCertSHA256 f"

primrec withFlag :: "skey \<Rightarrow> string \<Rightarrow> flags \<Rightarrow> flags" where
  "withFlag KSubdomain v f = f\<lparr>sf_subdomain := v\<rparr>"
| "withFlag KToken v f = f\<lparr>sf_token := v\<rparr>"
| "withFlag KServer v f = f\<lparr>sf_server := v\<rparr>"
| "withFlag KInspectAddr v f = f\<lparr>sf_inspectAddr := v\<rparr>"
| "withFlag KLocalHost v f = f\<lparr>sf_localHost := v\<rparr>"
| "withFlag KTLS v f = f\<lparr>sf_tls := v\<rparr>"
| "withFlag KPin v f = f\<lparr>sf_serverCertSHA256 := v\<rparr>"

datatype opt =
    OEquals skey string
  | ONext skey string
  | OShortSub string
  | OShortTok string
  | OTls
  | OInspect bool
  | OProtect
  | OArg string

primrec render :: "opt \<Rightarrow> string list" where
  "render (OEquals k v) = [''--'' @ keyName k @ ''='' @ v]"
| "render (ONext k v) = [''--'' @ keyName k, v]"
| "render (OShortSub v) = [''-s'', v]"
| "render (OShortTok v) = [''-t'', v]"
| "render OTls = [''--tls'']"
| "render (OInspect b) = [if b then ''--inspect'' else ''--no-inspect'']"
| "render OProtect = [''--protect'']"
| "render (OArg a) = [a]"

primrec sets :: "opt \<Rightarrow> flags \<Rightarrow> flags" where
  "sets (OEquals k v) f = withFlag k v f"
| "sets (ONext k v) f = withFlag k v f"
| "sets (OShortSub v) f = f\<lparr>sf_subdomain := v\<rparr>"
| "sets (OShortTok v) f = f\<lparr>sf_token := v\<rparr>"
| "sets OTls f = f\<lparr>sf_tls := ''true''\<rparr>"
| "sets (OInspect b) f = f\<lparr>fl_inspectSet := True, fl_inspectVal := b\<rparr>"
| "sets OProtect f = f\<lparr>fl_protect := True\<rparr>"
| "sets (OArg a) f = f"

primrec gives :: "skey \<Rightarrow> opt \<Rightarrow> string option" where
  "gives k (OEquals k' v) = (if k' = k then Some v else None)"
| "gives k (ONext k' v) = (if k' = k then Some v else None)"
| "gives k (OShortSub v) = (if k = KSubdomain then Some v else None)"
| "gives k (OShortTok v) = (if k = KToken then Some v else None)"
| "gives k OTls = (if k = KTLS then Some ''true'' else None)"
| "gives k (OInspect b) = None"
| "gives k OProtect = None"
| "gives k (OArg a) = None"

text \<open>The last value given, if any; the arguments that are no flags.\<close>

definition lastGiven :: "skey \<Rightarrow> opt list \<Rightarrow> string option" where
  "lastGiven k os = fold (\<lambda>opt old. case gives k opt of None \<Rightarrow> old | Some v \<Rightarrow> Some v) os None"

primrec argsOf :: "opt \<Rightarrow> string list" where
  "argsOf (OEquals k v) = []" | "argsOf (ONext k v) = []" | "argsOf (OShortSub v) = []" | "argsOf (OShortTok v) = []"
| "argsOf OTls = []" | "argsOf (OInspect b) = []" | "argsOf OProtect = []" | "argsOf (OArg a) = [a]"

fun goodOpt :: "opt \<Rightarrow> bool" where
  "goodOpt (ONext k v) = (k \<noteq> KTLS)"
| "goodOpt (OArg a) = (\<not> HasPrefix a ''-'')"
| "goodOpt _ = True"

lemma parseArgs_Cons:
  "parseArgs f args (a # rest) =
     (case argStep f a of
        ANext g \<Rightarrow> (case rest of [] \<Rightarrow> Inr (g [], args) | v # r \<Rightarrow> parseArgs (g v) args r)
      | ASet f1 \<Rightarrow> parseArgs f1 args rest
      | AHelp \<Rightarrow> Inl 0
      | AUnknown \<Rightarrow> Inl 2
      | APos \<Rightarrow> parseArgs f (args @ [a]) rest)"
  by (cases rest) (simp_all split: argstep.split)

lemma argStep_equals: "argStep f (''--'' @ keyName k @ ''='' @ v) = ASet (withFlag k v f)"
  by (cases k) (simp_all add: argStep_def HasPrefix_def TrimPrefix_def)

lemma argStep_next: "k \<noteq> KTLS \<Longrightarrow> argStep f (''--'' @ keyName k) = ANext (\<lambda>v. withFlag k v f)"
  by (cases k) (simp_all add: argStep_def HasPrefix_def)

lemma argStep_arg: "\<not> HasPrefix a ''-'' \<Longrightarrow> argStep f a = APos"
  by (cases a) (auto simp: argStep_def HasPrefix_def)

lemma parse_render:
  assumes "goodOpt opt"
  shows "parseArgs f args (render opt @ rest) = parseArgs (sets opt f) (args @ argsOf opt) rest"
proof (cases opt)
  case (OEquals k v)
  then show ?thesis using argStep_equals [of f k v] by (simp add: parseArgs_Cons)
next
  case (ONext k v)
  then show ?thesis using argStep_next [of k f] assms by (simp add: parseArgs_Cons)
next
  case (OArg a)
  then show ?thesis using argStep_arg [of a f] assms by (simp add: parseArgs_Cons)
qed (simp_all add: parseArgs_Cons argStep_def HasPrefix_def)

lemma parse_render_all:
  "list_all goodOpt os \<Longrightarrow> parseArgs f args (concat (map render os)) = Inr (fold sets os f, args @ concat (map argsOf os))"
  by (induction os arbitrary: f args) (simp_all add: parse_render)

lemma flagOf_withFlag: "flagOf k (withFlag k' v f) = (if k' = k then v else flagOf k f)"
  by (cases k; cases k') simp_all

lemma flagOf_sets: "flagOf k (sets opt f) = (case gives k opt of None \<Rightarrow> flagOf k f | Some v \<Rightarrow> v)"
  by (cases opt) (cases k, simp_all add: flagOf_withFlag)+

lemma flagOf_fold:
  "flagOf k (fold sets os f) = (case lastGiven k os of None \<Rightarrow> flagOf k f | Some v \<Rightarrow> v)"
proof (induction os rule: rev_induct)
  case (snoc opt os)
  then show ?case by (simp add: lastGiven_def flagOf_sets split: option.split)
qed (simp add: lastGiven_def)

lemma flagOf_applySettings: "flagOf k (applySettings L m f) = over (setting m (keyName k)) (flagOf k f)"
  by (cases k) (auto simp: applySettings_def applyMaxBody_def applyInspect_def Let_def split: option.split)

primrec envName :: "skey \<Rightarrow> string" where
  "envName KSubdomain = ''MUNNEL_SUBDOMAIN''"
| "envName KToken = ''MUNNEL_TOKEN''"
| "envName KServer = ''MUNNEL_SERVER''"
| "envName KInspectAddr = ''MUNNEL_INSPECT_ADDR''"
| "envName KLocalHost = ''MUNNEL_LOCAL_HOST''"
| "envName KTLS = ''MUNNEL_TLS''"
| "envName KPin = ''MUNNEL_SERVER_CERT_SHA256''"

definition envPut :: "os \<Rightarrow> string \<times> string \<Rightarrow> settings \<Rightarrow> settings" where
  "envPut w = (\<lambda>(ev, key) m. case os_env w ev of None \<Rightarrow> m | Some v \<Rightarrow> if v \<noteq> [] then m(key \<mapsto> v) else m)"

lemma envPut_fold:
  assumes "distinct (map snd es)" and "(ev, key) \<in> set es" and "m key = None"
  shows "setting (fold (envPut w) es m) key = Getenv w ev"
  using assms
proof (induction es arbitrary: m)
  case (Cons e es)
  have other: "key \<notin> snd ` set es \<Longrightarrow> fold (envPut w) es m' key = m' key" for m'
    by (induction es arbitrary: m') (auto simp: envPut_def split: option.splits)
  show ?case
  proof (cases "e = (ev, key)")
    case True
    with Cons.prems other show ?thesis
      by (auto simp: setting_def Getenv_def envPut_def split: option.split)
  next
    case False
    then have "(ev, key) \<in> set es" using Cons.prems(2) by simp
    then have "key \<in> snd ` set es" by force
    then have "snd e \<noteq> key" using Cons.prems(1) by auto
    then have "envPut w e m key = None" using Cons.prems by (cases e) (auto simp: envPut_def split: option.split)
    then show ?thesis using Cons False by simp
  qed
qed simp

lemma envSettings_key: "setting (envSettings w) (keyName k) = Getenv w (envName k)"
proof -
  have "distinct (map snd envKeys)" by (simp add: envKeys_def)
  moreover have "(envName k, keyName k) \<in> set envKeys" by (cases k) (simp_all add: envKeys_def)
  ultimately have "setting (fold (envPut w) envKeys Map.empty) (keyName k) = Getenv w (envName k)" by (intro envPut_fold) simp_all
  then show ?thesis by (simp add: envSettings_def envPut_def)
qed

lemma Validate_keeps:
  assumes "Validate c0 = Inr c"
  shows "cc_Token c = cc_Token c0 \<and> cc_Subdomain c = cc_Subdomain c0 \<and> cc_ServerCertSHA256 c = cc_ServerCertSHA256 c0 \<and> cc_TLS c = cc_TLS c0 \<and>
     cc_LocalPort c = cc_LocalPort c0"
proof -
  obtain c2 where c: "c = withRest c2" and pin: "withPin (withAddr (c0\<lparr>cc_LocalHost := orDefault ''127.0.0.1'' (cc_LocalHost c0)\<rparr>)) = Inr c2"
    using assms by (auto simp: Validate_def Let_def split: if_splits sum.splits)
  then show ?thesis by (auto simp: withRest_def withPin_def withAddr_def split: if_splits option.splits)
qed


section \<open>Witnesses\<close>

definition demo_oslib :: oslib where
  "demo_oslib = \<lparr>ol_lower = (\<lambda>s. s), ol_fold = (\<lambda>a b. a = b), ol_runes = length\<rparr>"

text \<open>A configuration file with a server and an old token, the subdomain in the environment.\<close>

definition demo_os :: os where
  "demo_os = \<lparr>os_env = [''MUNNEL_CONFIG'' \<mapsto> ''/c'', ''MUNNEL_SUBDOMAIN'' \<mapsto> ''env''], os_home = None, os_configIn = (\<lambda>h. h),
     os_files = [''/c'' \<mapsto> (''server=s'' @ [newline] @ ''Token=old'' @ [newline] @ ''subdomain=cfg'' @ [newline], None)],
     os_mkdir = (\<lambda>_. None), os_write = (\<lambda>_. None)\<rparr>"

definition demo_tokflags :: tokflags where
  "demo_tokflags = \<lparr>tf_sub = ''blog'', tf_ttl = ''168h'', tf_password = ''pw'', tf_server = [], tf_serverURL = [], tf_help = False\<rparr>"

definition demo_post :: "tokreq \<Rightarrow> tokresp option option" where
  "demo_post q = Some (Some \<lparr>to_Token = ''tok_1'', to_ID = ''1'', to_Sub = [], to_Expires = [], to_Error = []\<rparr>)"

lemma demo_os_path: "configPath demo_os = Some ''/c''"
  by (simp add: configPath_def Getenv_def demo_os_def)

lemma demo_os_plain:
  assumes "configPath demo_os = Some p" and "os_files demo_os p = Some (content, e)"
  shows "plainText content"
proof -
  have "content = ''server=s'' @ [newline] @ ''Token=old'' @ [newline] @ ''subdomain=cfg'' @ [newline]"
    using assms demo_os_path by (simp add: demo_os_def)
  then show ?thesis by (simp add: plainText_def isAscii_def MaxScanTokenSize_def)
qed

theorem token_saved_witness:
  "\<exists>w'. runToken demo_oslib demo_post (Inl ''no terminal'') (Some demo_tokflags) demo_os = (0, w') \<and>
     sf_token (applyDefaults demo_oslib w' builtinFlags) = ''tok_1''"
proof -
  obtain code w' where run: "runToken demo_oslib demo_post (Inl ''no terminal'') (Some demo_tokflags) demo_os = (code, w')" by fastforce
  have pw: "tokenPassword demo_os (Inl ''no terminal'') demo_tokflags = Some ''pw''" by (simp add: tokenPassword_def demo_tokflags_def)
  have "os_mkdir demo_os ''/c'' = None" "os_write demo_os ''/c'' = None" by (simp_all add: demo_os_def)
  then have up: "fst (updateConfigToken demo_oslib ''tok_1'' demo_os) = None" by (simp add: updateConfigToken_def demo_os_path)
  have tok: "lineToken ''tok_1''" by (simp add: lineToken_def graphic_def MaxScanTokenSize_def)
  have env: "setting (envSettings demo_os) ''token'' = []" using envSettings_key [of demo_os KToken] by (simp add: Getenv_def demo_os_def)
  have nohelp: "\<not> tf_help demo_tokflags" by (simp add: demo_tokflags_def)
  from token_saved [OF run nohelp demo_os_plain] pw up tok env run show ?thesis
    by (auto simp: demo_post_def over_def)
qed


end
