(* ===== verification/Flagpkg.thy ===== *)
theory Flagpkg
  imports Cli
begin

text \<open>
  Go's \<^verbatim>\<open>flag\<close> package as the two programs use it: a flag set is a table from names to what setting them does, parsing goes through the
  arguments as \<^verbatim>\<open>FlagSet.parseOne\<close> does and stops at the first that is not a flag. \<^verbatim>\<open>strconv.ParseInt\<close> with base 0 is what an integer flag's value goes
  through.
\<close>

section \<open>Integers with a base prefix\<close>

definition digitVal :: "char \<Rightarrow> nat option" where
  "digitVal c =
     (let n = of_char c :: nat
      in if 48 \<le> n \<and> n \<le> 57 then Some (n - 48)
         else let l = of_char (lowerByte c) :: nat in if 97 \<le> l \<and> l \<le> 122 then Some (l - 87) else None)"

text \<open>The digits of a number in a base, underscores skipped: \<open>None\<close> for a byte that is none.\<close>

primrec baseDigits :: "nat \<Rightarrow> nat \<Rightarrow> string \<Rightarrow> nat option" where
  "baseDigits b acc [] = Some acc"
| "baseDigits b acc (c # cs) =
     (if c = CHR ''_'' then baseDigits b acc cs
      else case digitVal c of None \<Rightarrow> None | Some d \<Rightarrow> if d < b then baseDigits b (acc * b + d) cs else None)"

text \<open>Where an underscore may stand (\<^verbatim>\<open>underscoreOK\<close>); the last byte seen is a digit (\<open>0\<close>), an underscore, or something else.\<close>

primrec underscores :: "bool \<Rightarrow> char \<Rightarrow> string \<Rightarrow> bool" where
  "underscores hex i [] \<longleftrightarrow> i \<noteq> CHR ''_''"
| "underscores hex i (c # cs) \<longleftrightarrow>
     (if isDigit c \<or> hex \<and> c \<in> set ''abcdefABCDEF'' then underscores hex CHR ''0'' cs
      else if c = CHR ''_'' then i = CHR ''0'' \<and> underscores hex CHR ''_'' cs
      else i \<noteq> CHR ''_'' \<and> underscores hex CHR ''!'' cs)"

definition basePrefix :: "string \<Rightarrow> nat \<times> string" where
  "basePrefix s =
     (if s = [] \<or> hd s \<noteq> CHR ''0'' then (10, s)
      else if 3 \<le> length s \<and> lowerByte (s ! 1) = CHR ''b'' then (2, drop 2 s)
      else if 3 \<le> length s \<and> lowerByte (s ! 1) = CHR ''o'' then (8, drop 2 s)
      else if 3 \<le> length s \<and> lowerByte (s ! 1) = CHR ''x'' then (16, drop 2 s)
      else (8, drop 1 s))"

definition underscoreOK :: "string \<Rightarrow> bool" where
  "underscoreOK s =
     (if 2 \<le> length s \<and> hd s = CHR ''0'' \<and> lowerByte (s ! 1) \<in> set ''box''
      then underscores (lowerByte (s ! 1) = CHR ''x'') CHR ''0'' (drop 2 s)
      else underscores False CHR ''^'' s)"

definition ParseUint0 :: "string \<Rightarrow> nat option" where
  "ParseUint0 s =
     (if s = [] then None
      else case basePrefix s of (b, ds) \<Rightarrow>
        (case baseDigits b 0 ds of
           None \<Rightarrow> None
         | Some n \<Rightarrow> if CHR ''_'' \<in> set ds \<and> \<not> underscoreOK s then None else Some n))"

definition ParseInt0 :: "string \<Rightarrow> int option" where
  "ParseInt0 s =
     (let neg = (s \<noteq> [] \<and> hd s = CHR ''-''); body = (if s \<noteq> [] \<and> (hd s = CHR ''-'' \<or> hd s = CHR ''+'') then tl s else s)
      in case ParseUint0 body of
           None \<Rightarrow> None
         | Some n \<Rightarrow> if neg then (if n \<le> 2 ^ 63 then Some (- int n) else None) else if n < 2 ^ 63 then Some (int n) else None)"

section \<open>Flag sets\<close>

datatype 'f flagdef = BoolFlag "bool \<Rightarrow> 'f \<Rightarrow> 'f" | ValueFlag "string \<Rightarrow> 'f \<Rightarrow> 'f option"

datatype flag_err = FlagSyntax string | FlagHelp | FlagUndefined string | FlagValue string string | FlagNeedsArg string

definition stringFlag :: "(string \<Rightarrow> 'f \<Rightarrow> 'f) \<Rightarrow> 'f flagdef" where
  "stringFlag g = ValueFlag (\<lambda>v f. Some (g v f))"

definition intFlag :: "(int \<Rightarrow> 'f \<Rightarrow> 'f) \<Rightarrow> 'f flagdef" where
  "intFlag g = ValueFlag (\<lambda>v f. map_option (\<lambda>n. g n f) (ParseInt0 v))"

definition durationFlag :: "(string \<Rightarrow> int option) \<Rightarrow> (int \<Rightarrow> 'f \<Rightarrow> 'f) \<Rightarrow> 'f flagdef" where
  "durationFlag dur g = ValueFlag (\<lambda>v f. map_option (\<lambda>n. g n f) (dur v))"

text \<open>An argument: not a flag, the terminator, bad syntax, or a name with the value after \<^verbatim>\<open>=\<close>.\<close>

datatype flagarg = NotFlag | Terminator | BadSyntax | FlagArg string "string option"

definition flagArg :: "string \<Rightarrow> flagarg" where
  "flagArg s =
     (if length s < 2 \<or> hd s \<noteq> CHR ''-'' then NotFlag
      else if s = ''--'' then Terminator
      else let name = (if s ! 1 = CHR ''-'' then drop 2 s else drop 1 s)
      in if name = [] \<or> hd name = CHR ''-'' \<or> hd name = CHR ''='' then BadSyntax
         else case Cut name CHR ''='' of Some (n, v) \<Rightarrow> FlagArg n (Some v) | None \<Rightarrow> FlagArg name None)"

function flagParse :: "(string \<times> 'f flagdef) list \<Rightarrow> string list \<Rightarrow> 'f \<Rightarrow> flag_err + 'f \<times> string list" where
  "flagParse defs [] f = Inr (f, [])"
| "flagParse defs (a # rest) f =
     (case flagArg a of
        NotFlag \<Rightarrow> Inr (f, a # rest)
      | Terminator \<Rightarrow> Inr (f, rest)
      | BadSyntax \<Rightarrow> Inl (FlagSyntax a)
      | FlagArg n v \<Rightarrow>
          (case map_of defs n of
             None \<Rightarrow> Inl (if n = ''help'' \<or> n = ''h'' then FlagHelp else FlagUndefined n)
           | Some (BoolFlag g) \<Rightarrow>
               (case v of
                  None \<Rightarrow> flagParse defs rest (g True f)
                | Some w \<Rightarrow> (case ParseBool w of None \<Rightarrow> Inl (FlagValue n w) | Some b \<Rightarrow> flagParse defs rest (g b f)))
           | Some (ValueFlag g) \<Rightarrow>
               (case v of
                  Some w \<Rightarrow> (case g w f of None \<Rightarrow> Inl (FlagValue n w) | Some f1 \<Rightarrow> flagParse defs rest f1)
                | None \<Rightarrow>
                    if rest = [] then Inl (FlagNeedsArg n)
                    else (case g (hd rest) f of
                            None \<Rightarrow> Inl (FlagValue n (hd rest))
                          | Some f1 \<Rightarrow> flagParse defs (tl rest) f1))))"
  by pat_completeness auto
termination by (relation "measure (\<lambda>(defs, args, f). length args)") auto

declare flagParse.simps(2) [simp del]

text \<open>How \<^verbatim>\<open>flag.ExitOnError\<close> ends the program.\<close>

definition exitOnError :: "flag_err \<Rightarrow> int" where
  "exitOnError e = (if e = FlagHelp then 0 else 2)"

section \<open>Arguments that mean what they say\<close>

definition flagName :: "string \<Rightarrow> bool" where
  "flagName n \<longleftrightarrow> n \<noteq> [] \<and> hd n \<noteq> CHR ''-'' \<and> CHR ''='' \<notin> set n"

lemma flagArg_set: "flagName n \<Longrightarrow> flagArg (''--'' @ n @ ''='' @ v) = FlagArg n (Some v)"
proof -
  assume n: "flagName n"
  then have "Cut (n @ ''='' @ v) CHR ''='' = Some (n, v)"
    using IndexByte_append [of "CHR ''=''" n v] by (simp add: Cut_def flagName_def)
  moreover have "hd (n @ ''='' @ v) = hd n" "hd n \<noteq> CHR ''=''" using n by (cases n; auto simp: flagName_def)+
  ultimately show ?thesis using n by (simp add: flagArg_def flagName_def Let_def)
qed

lemma flagArg_bare: "flagName n \<Longrightarrow> flagArg (''--'' @ n) = FlagArg n None"
proof -
  assume n: "flagName n"
  then have "Cut n CHR ''='' = None" using IndexByte_None by (simp add: Cut_def flagName_def)
  moreover have "hd n \<noteq> CHR ''=''" using n by (cases n) (auto simp: flagName_def)
  ultimately show ?thesis using n by (cases n) (auto simp: flagArg_def flagName_def Let_def)
qed

text \<open>Applying settings one after the other.\<close>

definition applyFlag :: "(string \<times> 'f flagdef) list \<Rightarrow> string \<times> string \<Rightarrow> 'f option \<Rightarrow> 'f option" where
  "applyFlag defs kv fo =
     (case fo of
        None \<Rightarrow> None
      | Some f \<Rightarrow>
          (case map_of defs (fst kv) of
             None \<Rightarrow> None
           | Some (BoolFlag g) \<Rightarrow> map_option (\<lambda>b. g b f) (ParseBool (snd kv))
           | Some (ValueFlag g) \<Rightarrow> g (snd kv) f))"

lemma applyFlag_None [simp]: "fold (applyFlag defs) kvs None = None"
  by (induction kvs) (simp_all add: applyFlag_def)

definition settingArg :: "string \<times> string \<Rightarrow> string" where
  "settingArg kv = ''--'' @ fst kv @ ''='' @ snd kv"

lemma flagParse_setting:
  assumes "flagName (fst kv)"
  shows "case applyFlag defs kv (Some f) of
       Some f1 \<Rightarrow> flagParse defs (settingArg kv # rest) f = flagParse defs rest f1
     | None \<Rightarrow> \<exists>e. flagParse defs (settingArg kv # rest) f = Inl e"
  using flagArg_set [OF assms, of "snd kv"]
  by (simp add: settingArg_def flagParse.simps(2) applyFlag_def split: option.split flagdef.split)

lemma flagParse_settings:
  "\<forall>kv \<in> set kvs. flagName (fst kv) \<Longrightarrow>
   (case fold (applyFlag defs) kvs (Some f) of
      Some f1 \<Rightarrow> flagParse defs (map settingArg kvs @ rest) f = flagParse defs rest f1
    | None \<Rightarrow> \<exists>e. flagParse defs (map settingArg kvs @ rest) f = Inl e)"
proof (induction kvs arbitrary: f)
  case (Cons kv kvs)
  have "flagName (fst kv)" using Cons.prems by simp
  note head = flagParse_setting [OF this, where defs = defs and f = f and rest = "map settingArg kvs @ rest"]
  show ?case
  proof (cases "applyFlag defs kv (Some f)")
    case None
    with head show ?thesis by simp
  next
    case (Some f1)
    with head Cons.IH [of f1] Cons.prems show ?thesis by (cases "fold (applyFlag defs) kvs (Some f1)") simp_all
  qed
qed simp

text \<open>Parsing stops at the first argument that is not a flag; what follows it is never looked at.\<close>

lemma flagParse_positional: "flagArg a = NotFlag \<Longrightarrow> flagParse defs (a # rest) f = Inr (f, a # rest)"
  by (simp add: flagParse.simps(2))

end
