(* ===== verification/Dashboard.thy ===== *)
theory Dashboard
  imports Tunnel
begin

text \<open>
  The state of the terminal dashboard, \<^verbatim>\<open>internal/tui/model.go\<close>: how each message changes it and what the next command is. The spinner is a component of
  the Bubbles library with a state of its own (\<open>spin\<close> is its update); colours and the drawing of the frame belong to Lip Gloss and are left
  out, what is drawn of a request (the cut of its path) is kept.
\<close>

record row =
  rw_when :: "int option"
  rw_method :: string
  rw_path :: string
  rw_status :: int
  rw_errored :: bool
  rw_errMsg :: string
  rw_ms :: int

record opts =
  op_ServerAddr :: string
  op_InspectorURL :: string
  op_Target :: string

record model =
  md_opts :: opts
  md_status :: string
  md_url :: string
  md_sub :: string
  md_since :: "int option"
  md_message :: string
  md_rows :: "row list"
  md_requests :: int
  md_failures :: int
  md_spin :: nat
  md_width :: int
  md_height :: int
  md_quitCalls :: nat

datatype tui_msg = WindowSizeMsg int int | KeyMsg string | SpinnerTick | TickMsg | EventMsg event

datatype tui_cmd = NoCmd | QuitCmd | SpinCmd | TickCmd | WaitEvent

definition newModel :: "nat \<Rightarrow> opts \<Rightarrow> model" where
  "newModel spin0 o1 =
     \<lparr>md_opts = o1, md_status = ''connecting'', md_url = [], md_sub = [], md_since = None,
      md_message = ''connecting to '' @ op_ServerAddr o1 @ utf8 [0xE2, 0x80, 0xA6], md_rows = [], md_requests = 0, md_failures = 0,
      md_spin = spin0, md_width = 100, md_height = 24, md_quitCalls = 0\<rparr>"

text \<open>What waiting on the event channel gives: its next event, or the end when it is closed.\<close>

definition waitEvent :: "event option \<Rightarrow> tui_msg" where
  "waitEvent e = EventMsg (case e of None \<Rightarrow> mkEvent EventShuttingDown [] | Some e1 \<Rightarrow> e1)"

definition rowOf :: "irec \<Rightarrow> row" where
  "rowOf r = \<lparr>rw_when = ir_Time r, rw_method = ir_Method r, rw_path = ir_Path r, rw_status = ir_Status r, rw_errored = ir_Errored r,
     rw_errMsg = ir_Error r, rw_ms = ir_Duration r\<rparr>"

definition failed :: "irec \<Rightarrow> bool" where
  "failed r \<longleftrightarrow> ir_Errored r \<or> 400 \<le> ir_Status r"

definition addRow :: "irec \<Rightarrow> model \<Rightarrow> model" where
  "addRow r m =
     (let rows = rowOf r # md_rows m;
          m1 = m\<lparr>md_requests := md_requests m + 1, md_failures := (if failed r then md_failures m + 1 else md_failures m),
                 md_rows := (if 500 < length rows then take 500 rows else rows)\<rparr>
      in if ir_Errored r \<and> ir_Error r \<noteq> [] then m1\<lparr>md_message := ir_Error r\<rparr> else m1)"

definition onEvent :: "int \<Rightarrow> event \<Rightarrow> model \<Rightarrow> model \<times> tui_cmd" where
  "onEvent now e m =
     (case ev_Kind e of
        EventConnecting \<Rightarrow> (m\<lparr>md_status := ''connecting'', md_message := ev_Message e\<rparr>, WaitEvent)
      | EventReconnecting \<Rightarrow> (m\<lparr>md_status := ''reconnecting'', md_message := ev_Message e\<rparr>, WaitEvent)
      | EventConnected \<Rightarrow>
          (m\<lparr>md_status := ''connected'', md_url := ev_PublicURL e, md_sub := ev_Subdomain e, md_since := Some now, md_message := []\<rparr>, WaitEvent)
      | EventDisconnected \<Rightarrow> (m\<lparr>md_status := ''disconnected'', md_message := ev_Message e\<rparr>, WaitEvent)
      | EventShuttingDown \<Rightarrow> (m\<lparr>md_status := ''closed''\<rparr>, QuitCmd)
      | EventRequest \<Rightarrow> (case ev_Record e of None \<Rightarrow> m | Some r \<Rightarrow> addRow r m, WaitEvent))"

definition Update :: "(nat \<Rightarrow> nat) \<Rightarrow> int \<Rightarrow> tui_msg \<Rightarrow> model \<Rightarrow> model \<times> tui_cmd" where
  "Update spin now msg m =
     (case msg of
        WindowSizeMsg wd ht \<Rightarrow> (m\<lparr>md_width := wd, md_height := ht\<rparr>, NoCmd)
      | KeyMsg k \<Rightarrow>
          if k \<in> set [''q'', ''ctrl+c'', ''esc''] then (m\<lparr>md_quitCalls := md_quitCalls m + 1\<rparr>, QuitCmd) else (m, NoCmd)
      | SpinnerTick \<Rightarrow> (m\<lparr>md_spin := spin (md_spin m)\<rparr>, SpinCmd)
      | TickMsg \<Rightarrow> (m, TickCmd)
      | EventMsg e \<Rightarrow> onEvent now e m)"

text \<open>How a path is cut and padded to the width of its column; lengths are in bytes.\<close>

definition padPath :: "string \<Rightarrow> int \<Rightarrow> string" where
  "padPath p w = (if w \<le> int (length p) then p else p @ replicate (nat (w - int (length p))) CHR '' '')"

definition maxPath :: "int \<Rightarrow> int" where
  "maxPath width = (if width - 30 < 12 then 12 else width - 30)"

definition cutPath :: "string \<Rightarrow> int \<Rightarrow> string" where
  "cutPath p width =
     (if maxPath width < int (length p) then take (nat (maxPath width - 1)) p @ utf8 [0xE2, 0x80, 0xA6] else p)"

definition shownRows :: "model \<Rightarrow> int \<Rightarrow> row list" where
  "shownRows m lineHeight =
     (let avail = md_height m - lineHeight - 4; a = (if avail < 3 then 3 else avail)
      in if a < int (length (md_rows m)) then take (nat a) (md_rows m) else md_rows m)"

section \<open>What the dashboard shows of a run\<close>

definition runMsgs :: "(nat \<Rightarrow> nat) \<Rightarrow> (int \<times> tui_msg) list \<Rightarrow> model \<Rightarrow> model" where
  "runMsgs spin ms m = fold (\<lambda>(now, msg) m1. fst (Update spin now msg m1)) ms m"

fun recordOf :: "tui_msg \<Rightarrow> irec option" where
  "recordOf (EventMsg e) = (if ev_Kind e = EventRequest then ev_Record e else None)"
| "recordOf _ = None"

definition records :: "(int \<times> tui_msg) list \<Rightarrow> irec list" where
  "records ms = List.map_filter (\<lambda>x. recordOf (snd x)) ms"

fun statusOf :: "tui_msg \<Rightarrow> string option" where
  "statusOf (EventMsg e) =
     (case ev_Kind e of
        EventConnecting \<Rightarrow> Some ''connecting'' | EventReconnecting \<Rightarrow> Some ''reconnecting'' | EventConnected \<Rightarrow> Some ''connected''
      | EventDisconnected \<Rightarrow> Some ''disconnected'' | EventShuttingDown \<Rightarrow> Some ''closed'' | EventRequest \<Rightarrow> None)"
| "statusOf _ = None"

lemma addRow_fields:
  "md_rows (addRow r m) = take 500 (rowOf r # md_rows m)" "md_requests (addRow r m) = md_requests m + 1"
  "md_failures (addRow r m) = md_failures m + (if failed r then 1 else 0)" "md_status (addRow r m) = md_status m"
  by (simp_all add: addRow_def Let_def)

lemma Update_fields:
  "md_rows (fst (Update spin now msg m)) = (case recordOf msg of None \<Rightarrow> md_rows m | Some r \<Rightarrow> take 500 (rowOf r # md_rows m))"
  "md_requests (fst (Update spin now msg m)) = md_requests m + (case recordOf msg of None \<Rightarrow> 0 | Some r \<Rightarrow> 1)"
  "md_failures (fst (Update spin now msg m)) = md_failures m + (case recordOf msg of None \<Rightarrow> 0 | Some r \<Rightarrow> if failed r then 1 else 0)"
  "md_status (fst (Update spin now msg m)) = (case statusOf msg of None \<Rightarrow> md_status m | Some st \<Rightarrow> st)"
  by (cases msg; simp add: Update_def onEvent_def addRow_fields split: EventKind.split option.split)+

text \<open>
  The dashboard keeps count of exactly what it was told: after any sequence of messages the request and failure counters are the number of
  exchanges and of failed ones, the rows are the newest 500 exchanges with the newest first, and the status line is that of the last event that has
  one.
\<close>

theorem dashboard_faithful:
  "md_requests (runMsgs spin ms (newModel sp o1)) = int (length (records ms)) \<and>
   md_failures (runMsgs spin ms (newModel sp o1)) = int (length (filter failed (records ms))) \<and>
   md_rows (runMsgs spin ms (newModel sp o1)) = take 500 (map rowOf (rev (records ms))) \<and>
   md_status (runMsgs spin ms (newModel sp o1)) = last (''connecting'' # List.map_filter (\<lambda>x. statusOf (snd x)) ms)"
proof (induction ms rule: rev_induct)
  case Nil
  then show ?case by (simp add: runMsgs_def records_def newModel_def map_filter_simps)
next
  case (snoc x ms)
  obtain now msg where x: "x = (now, msg)" by fastforce
  have step: "runMsgs spin (ms @ [x]) (newModel sp o1) = fst (Update spin now msg (runMsgs spin ms (newModel sp o1)))"
    by (simp add: runMsgs_def x)
  have recs: "records (ms @ [x]) = records ms @ (case recordOf msg of None \<Rightarrow> [] | Some r \<Rightarrow> [r])"
    and stats: "List.map_filter (\<lambda>x. statusOf (snd x)) (ms @ [x]) =
      List.map_filter (\<lambda>x. statusOf (snd x)) ms @ (case statusOf msg of None \<Rightarrow> [] | Some st \<Rightarrow> [st])"
    by (simp_all add: records_def List.map_filter_def x split: option.split)
  show ?case
    unfolding step recs stats Update_fields using snoc
    by (auto simp: take_Cons' split: option.split)
qed

end
