(* ===== verification/Dashboard_View.thy ===== *)
theory Dashboard_View
  imports Dashboard Cli
begin

text \<open>
  What the dashboard draws, \<^verbatim>\<open>View\<close>, \<^verbatim>\<open>renderRow\<close> and \<^verbatim>\<open>uptime\<close> in \<^verbatim>\<open>internal/tui/model.go\<close> with the styles of \<^verbatim>\<open>styles.go\<close>. A style is the record of what the
  sources set on it; how Lip Gloss turns a style and a text into what the terminal gets, how high and wide a text is, the spinner's picture and the wall
  clock are the fields of \<open>tuilib\<close>.
\<close>

section \<open>Styles\<close>

record style =
  sy_Bold :: bool
  sy_Foreground :: "string option"
  sy_Background :: "string option"
  sy_BorderTop :: bool
  sy_BorderBottom :: bool
  sy_BorderForeground :: "string option"
  sy_Width :: "int option"

definition NewStyle :: style where
  "NewStyle = \<lparr>sy_Bold = False, sy_Foreground = None, sy_Background = None, sy_BorderTop = False, sy_BorderBottom = False,
     sy_BorderForeground = None, sy_Width = None\<rparr>"

definition cAccent :: string where "cAccent = ''#C8B6FF''"
definition cDim :: string where "cDim = ''#57504A''"
definition cText :: string where "cText = ''#E8E6E3''"
definition cBg :: string where "cBg = ''#0E0C0D''"
definition cGreen :: string where "cGreen = ''#5EEAD4''"
definition cYellow :: string where "cYellow = ''#FACC15''"
definition cRed :: string where "cRed = ''#F87171''"
definition cBlue :: string where "cBlue = ''#93C5FD''"

definition fg :: "string \<Rightarrow> style" where "fg c = NewStyle\<lparr>sy_Foreground := Some c\<rparr>"

definition stBrand :: style where "stBrand = NewStyle\<lparr>sy_Bold := True, sy_Foreground := Some cText\<rparr>"
definition stTag :: style where "stTag = fg cAccent"
definition stDim :: style where "stDim = fg cDim"
definition stOK :: style where "stOK = fg cGreen"
definition stWarn :: style where "stWarn = fg cYellow"
definition stErr :: style where "stErr = fg cRed"
definition stBlue :: style where "stBlue = fg cBlue"
definition stHeaderBar :: style where
  "stHeaderBar = (fg cText)\<lparr>sy_BorderBottom := True, sy_BorderForeground := Some ''#241F1C''\<rparr>"
definition stFooter :: style where
  "stFooter = (fg cDim)\<lparr>sy_BorderTop := True, sy_BorderForeground := Some ''#241F1C''\<rparr>"
definition stRowSel :: style where "stRowSel = NewStyle\<lparr>sy_Background := Some ''#1D1826''\<rparr>"

definition methodStyle :: "string \<Rightarrow> style" where
  "methodStyle m =
     (if m = ''GET'' then stOK\<lparr>sy_Bold := True\<rparr>
      else if m = ''POST'' then NewStyle\<lparr>sy_Bold := True, sy_Foreground := Some ''#A7F3D0''\<rparr>
      else if m = ''PUT'' then stBlue\<lparr>sy_Bold := True\<rparr>
      else if m = ''PATCH'' then stTag\<lparr>sy_Bold := True\<rparr>
      else if m = ''DELETE'' then stErr\<lparr>sy_Bold := True\<rparr>
      else fg cText)"

definition statusStyle :: "int \<Rightarrow> bool \<Rightarrow> style" where
  "statusStyle st errd =
     (if errd \<or> st = 0 then stErr else if 500 \<le> st then stErr else if 400 \<le> st then stWarn
      else if 300 \<le> st then stBlue else stOK)"

record tuilib =
  tl_render :: "style \<Rightarrow> string \<Rightarrow> string"
  tl_height :: "string \<Rightarrow> int"
  tl_cells :: "string \<Rightarrow> int"
  tl_spin :: "nat \<Rightarrow> string"
  tl_clock :: "int option \<Rightarrow> string"
  tl_os :: oslib

section \<open>Drawing\<close>

definition tui_plural :: "int \<Rightarrow> string" where
  "tui_plural n = (if n = 1 then [] else ''s'')"

text \<open>\<^verbatim>\<open>Duration.Round(time.Second)\<close> in seconds, and \<^verbatim>\<open>Duration.String\<close> for whole seconds.\<close>

definition roundSecond :: "int \<Rightarrow> int" where
  "roundSecond d =
     (let r = \<bar>d\<bar> mod 10 ^ 9; q = \<bar>d\<bar> div 10 ^ 9; n = (if r + r < 10 ^ 9 then q else q + 1) in if d < 0 then - n else n)"

definition secondsString :: "int \<Rightarrow> string" where
  "secondsString n =
     (let a = \<bar>n\<bar>
      in (if n < 0 then ''-'' else []) @
         (if 3600 \<le> a then Itoa (a div 3600) @ ''h'' else []) @
         (if 60 \<le> a then Itoa (a div 60 mod 60) @ ''m'' else []) @ Itoa (a mod 60) @ ''s'')"

abbreviation emDash :: string where "emDash \<equiv> utf8 [0xE2, 0x80, 0x94]"
abbreviation midDot :: string where "midDot \<equiv> utf8 [0xC2, 0xB7]"
abbreviation bullet :: string where "bullet \<equiv> utf8 [0xE2, 0x97, 0x8F]"
abbreviation arrow :: string where "arrow \<equiv> utf8 [0xE2, 0x86, 0x92]"

definition uptime :: "int \<Rightarrow> model \<Rightarrow> string" where
  "uptime now m =
     (case md_since m of
        None \<Rightarrow> emDash
      | Some t \<Rightarrow> if md_status m \<noteq> ''connected'' then emDash else secondsString (roundSecond (now - t)))"

definition renderRow :: "tuilib \<Rightarrow> row \<Rightarrow> int \<Rightarrow> string" where
  "renderRow T r width =
     (let ms = tl_render T (methodStyle (rw_method r)) (padRight (tl_os T) 7 (rw_method r));
          st = (if rw_errored r then tl_render T stErr ''ERR''
                else if 0 < rw_status r then tl_render T (statusStyle (rw_status r) False) (padLeft 3 (Itoa (rw_status r)))
                else ''  '' @ emDash @ '' '');
          lat = tl_render T stDim (padLeft 5 (Itoa (rw_ms r)) @ ''ms'');
          tm = tl_render T stDim (tl_clock T (rw_when r))
      in tm @ '' '' @ ms @ ''  '' @ st @ ''  '' @ padPath (cutPath (rw_path r) width) (maxPath width) @ ''  '' @ lat)"

definition headLineOf :: "tuilib \<Rightarrow> model \<Rightarrow> string" where
  "headLineOf T m =
     (let dot = (if md_status m = ''connected'' then tl_render T stOK bullet
                 else if md_status m = ''closed'' then tl_render T stDim bullet else tl_spin T (md_spin m));
          statusText = (if md_status m = ''connected'' then tl_render T stOK ''connected'' else tl_render T stWarn (md_status m));
          title = tl_render T stBrand ''munnel'' @ ''  '' @ dot @ '' '' @ statusText
      in if md_status m = ''connected'' \<and> md_url m \<noteq> []
         then title @ ''  '' @ tl_render T stTag (md_url m) @ '' '' @ tl_render T stDim arrow @ '' '' @
              tl_render T stBlue (op_Target (md_opts m))
         else title @ ''  '' @ tl_render T stDim (''server '' @ op_ServerAddr (md_opts m)))"

definition waitingText :: string where
  "waitingText = ''waiting for requests '' @ emDash @ '' traffic to your public URL appears here live''"

definition bodyOf :: "tuilib \<Rightarrow> model \<Rightarrow> string" where
  "bodyOf T m =
     (if md_rows m = []
      then [newline] @ ''  '' @ tl_render T stDim (if md_status m = ''connected'' then waitingText else md_message m) @ [newline]
      else [newline] @ concat (map (\<lambda>r. ''  '' @ renderRow T r (md_width m - 4) @ [newline])
             (shownRows m (tl_height T (headLineOf T m)))))"

definition footerOf :: "tuilib \<Rightarrow> int \<Rightarrow> model \<Rightarrow> string" where
  "footerOf T now m =
     (let stats = tl_render T stDim (Itoa (md_requests m) @ '' request'' @ tui_plural (md_requests m) @ '' '' @ midDot @ '' '' @
              Itoa (md_failures m) @ '' error'' @ tui_plural (md_failures m) @ '' '' @ midDot @ '' uptime '' @ uptime now m);
          links = (if op_InspectorURL (md_opts m) \<noteq> []
                   then tl_render T stDim ''inspector '' @ tl_render T stTag (op_InspectorURL (md_opts m)) @
                        tl_render T stDim (''  '' @ midDot @ ''  '') else [])
      in '' '' @ links @ stats @ tl_render T stDim (''  '' @ midDot @ ''  q quit''))"

definition View :: "tuilib \<Rightarrow> int \<Rightarrow> model \<Rightarrow> string" where
  "View T now m =
     tl_render T (stHeaderBar\<lparr>sy_Width := Some (md_width m)\<rparr>) ('' '' @ headLineOf T m) @ [newline] @ bodyOf T m @
     [newline] @ tl_render T (stFooter\<lparr>sy_Width := Some (md_width m)\<rparr>) (footerOf T now m)"

section \<open>How high it is\<close>

definition newlines :: "string \<Rightarrow> nat" where
  "newlines s = length (filter (\<lambda>c. c = newline) s)"

lemma newlines_simps [simp]:
  "newlines [] = 0" "newlines (s @ t) = newlines s + newlines t" "newlines (c # s) = (if c = newline then 1 else 0) + newlines s"
  by (simp_all add: newlines_def)

lemma newlines_replicate [simp]: "newlines (replicate n CHR '' '') = 0"
  by (induction n) simp_all

lemma newlines_0: "newlines s = 0 \<longleftrightarrow> newline \<notin> set s"
  by (auto simp: newlines_def filter_empty_conv)

lemma newlines_Itoa [simp]: "newlines (Itoa i) = 0"
proof -
  have "newlines (itoaNat n) = 0" for n using itoaNat_digits [of n] by (auto simp: newlines_0 list_all_iff isDigit_def)
  then show ?thesis by (simp add: Itoa_def)
qed

lemma newlines_take: "newlines s = 0 \<Longrightarrow> newlines (take n s) = 0"
  by (auto simp: newlines_0 dest: in_set_takeD)

lemma newlines_utf8 [simp]:
  "newlines emDash = 0" "newlines midDot = 0" "newlines bullet = 0" "newlines arrow = 0" "newlines (utf8 [0xE2, 0x80, 0xA6]) = 0"
  by (simp_all add: utf8_def char_of_def)

text \<open>
  What the sources rely on of Lip Gloss: a style without border and width does not change the number of lines; the height of a text is its number of
  lines; a bar with one horizontal border adds one line to a single line that fits its width.
\<close>

definition lipgloss :: "tuilib \<Rightarrow> bool" where
  "lipgloss T \<longleftrightarrow>
     (\<forall>st s. \<not> sy_BorderTop st \<and> \<not> sy_BorderBottom st \<and> sy_Width st = None \<longrightarrow> newlines (tl_render T st s) = newlines s) \<and>
     (\<forall>s. tl_height T s = int (newlines s) + 1) \<and>
     (\<forall>st s w. sy_BorderTop st \<noteq> sy_BorderBottom st \<and> sy_Width st = Some w \<and> newlines s = 0 \<and> tl_cells T s \<le> w \<longrightarrow>
        newlines (tl_render T st s) = 1)"

lemma lipgloss_inline:
  assumes "lipgloss T"
  shows "newlines (tl_render T stBrand s) = newlines s" "newlines (tl_render T stTag s) = newlines s"
    "newlines (tl_render T stDim s) = newlines s" "newlines (tl_render T stOK s) = newlines s"
    "newlines (tl_render T stWarn s) = newlines s" "newlines (tl_render T stErr s) = newlines s"
    "newlines (tl_render T stBlue s) = newlines s" "newlines (tl_render T (methodStyle n) s) = newlines s"
    "newlines (tl_render T (statusStyle c e) s) = newlines s"
  using assms
  by (auto simp: lipgloss_def methodStyle_def statusStyle_def stBrand_def stTag_def stDim_def stOK_def stWarn_def stErr_def stBlue_def
      fg_def NewStyle_def)

text \<open>Texts of one line: what the server and the requests bring into the picture.\<close>

definition row_plain :: "tuilib \<Rightarrow> row \<Rightarrow> bool" where
  "row_plain T r \<longleftrightarrow> newlines (rw_method r) = 0 \<and> newlines (rw_path r) = 0 \<and> newlines (tl_clock T (rw_when r)) = 0"

definition model_plain :: "tuilib \<Rightarrow> model \<Rightarrow> bool" where
  "model_plain T m \<longleftrightarrow>
     newlines (md_status m) = 0 \<and> newlines (md_url m) = 0 \<and> newlines (md_message m) = 0 \<and> newlines (op_Target (md_opts m)) = 0 \<and>
     newlines (op_ServerAddr (md_opts m)) = 0 \<and> newlines (op_InspectorURL (md_opts m)) = 0 \<and> newlines (tl_spin T (md_spin m)) = 0 \<and>
     list_all (row_plain T) (md_rows m)"

lemma renderRow_line: "lipgloss T \<Longrightarrow> row_plain T r \<Longrightarrow> newlines (renderRow T r w) = 0"
  by (simp add: renderRow_def row_plain_def Let_def lipgloss_inline padRight_def padLeft_def padPath_def cutPath_def newlines_take)

lemma headLine_line: "lipgloss T \<Longrightarrow> model_plain T m \<Longrightarrow> newlines (headLineOf T m) = 0"
  by (simp add: headLineOf_def model_plain_def Let_def lipgloss_inline)

lemma footer_line: "lipgloss T \<Longrightarrow> model_plain T m \<Longrightarrow> newlines (footerOf T now m) = 0"
  by (simp add: footerOf_def model_plain_def Let_def lipgloss_inline tui_plural_def uptime_def secondsString_def split: option.split)

lemma shownRows_subset: "set (shownRows m h) \<subseteq> set (md_rows m)"
  by (auto simp: shownRows_def Let_def dest: in_set_takeD)

lemma newlines_rows:
  "\<forall>r \<in> set rs. newlines (f r) = 0 \<Longrightarrow> newlines (concat (map (\<lambda>r. CHR '' '' # CHR '' '' # f r @ [newline]) rs)) = length rs"
  by (induction rs) simp_all

lemma body_lines:
  assumes "lipgloss T" and "model_plain T m"
  shows "newlines (bodyOf T m) = 1 + max 1 (length (shownRows m 1))"
proof (cases "md_rows m = []")
  case True
  then show ?thesis
    using assms by (simp add: bodyOf_def lipgloss_inline waitingText_def model_plain_def shownRows_def Let_def)
next
  case False
  have h: "tl_height T (headLineOf T m) = 1" using assms headLine_line by (simp add: lipgloss_def)
  have "shownRows m 1 \<noteq> []" using False by (auto simp: shownRows_def Let_def)
  moreover have "\<forall>r \<in> set (shownRows m 1). newlines (renderRow T r (md_width m - 4)) = 0"
    using assms shownRows_subset [of m 1] renderRow_line by (auto simp: model_plain_def list_all_iff)
  ultimately show ?thesis using False h by (cases "shownRows m 1") (simp_all add: bodyOf_def newlines_rows)
qed


definition plain_tuilib :: tuilib where
  "plain_tuilib = \<lparr>tl_render = (\<lambda>st s. if sy_BorderTop st \<or> sy_BorderBottom st then s @ [newline] else s),
     tl_height = (\<lambda>s. int (newlines s) + 1), tl_cells = (\<lambda>s. int (length s)), tl_spin = (\<lambda>n. ''*''), tl_clock = (\<lambda>t. ''12:00:00''),
     tl_os = \<lparr>ol_lower = id, ol_fold = (=), ol_runes = length\<rparr>\<rparr>"

definition full_model :: model where
  "full_model = (newModel 0 \<lparr>op_ServerAddr = ''h:1'', op_InspectorURL = [], op_Target = ''t''\<rparr>)\<lparr>md_message := [], md_height := 8,
     md_rows := replicate 3 \<lparr>rw_when = None, rw_method = ''GET'', rw_path = ''/'', rw_status = 200, rw_errored = False, rw_errMsg = [], rw_ms = 1\<rparr>\<rparr>"


end
