(* ===== verification/Client_Main.thy ===== *)
theory Client_Main
  imports Cli_Props Flagpkg Dashboard_View Inspector_Props
begin

text \<open>
  The client program from its arguments to its exit code, \<^verbatim>\<open>run\<close>, \<^verbatim>\<open>runToken\<close> and the usage texts of \<^verbatim>\<open>cmd/client/main.go\<close>, with the dashboard's
  program loop (\<^verbatim>\<open>internal/tui/tui.go\<close>). What goes to standard output is kept, what goes to standard error is not. A run is given by what it meets: whether
  standard output is a terminal, the messages the dashboard gets or the events of the tunnel, the randomness for the inspector's token.
\<close>

section \<open>Usage\<close>

definition version :: string where "version = ''dev''"

definition usageLines :: "string list" where
  "usageLines =
    [''munnel '' @ utf8 [0xE2, 0x80, 0x94] @ '' expose localhost to the public internet'',
     [],
     ''usage:'',
     ''  munnel <port> [flags]'',
     ''  munnel token --sub <name>   acquire a token (saved to ~/.munnel/config)'',
     [],
     ''flags:'',
     ''  -s, --subdomain <name>    request a specific subdomain'',
     ''  -t, --token <token>       auth token for protected servers'',
     ''      --server <host:port>  control server address          (default \"localhost:7001\", port 7001 assumed; 7002 with --tls)'',
     ''      --tls                 connect to the server's TLS control port (verifies the certificate)'',
     ''      --server-cert-sha256 <hex>  pin the server certificate (SHA-256 of its DER); needs --tls'',
     ''      --local-host <host>   local service host              (default \"127.0.0.1\")'',
     ''      --inspect             run the web inspector           (default true)'',
     ''      --inspect-addr <addr> inspector listen address        (default \"127.0.0.1:4040\")'',
     ''      --max-body-mb <n>     max request body in megabytes   (default 32)'',
     ''      --protect             require viewer login (forward-auth) on this tunnel'',
     ''  -v, --version             print version'',
     ''  -h, --help                show this help'',
     [],
     ''defaults:'',
     ''  every flag above can be set in ~/.munnel/config (KEY=VAL, one per line) or'',
     ''  via MUNNEL_* env vars (MUNNEL_SERVER, MUNNEL_TOKEN, MUNNEL_SUBDOMAIN,'',
     ''  MUNNEL_INSPECT_ADDR, MUNNEL_LOCAL_HOST, MUNNEL_MAX_BODY_MB, MUNNEL_INSPECT,'',
     ''  MUNNEL_TLS, MUNNEL_SERVER_CERT_SHA256).'',
     ''  precedence: flag > env > config file > builtin default.'',
     [],
     ''examples:'',
     ''  munnel 3000                       # random subdomain, defaults from config'',
     ''  munnel 3000 -s myapp              # claim myapp.<domain>'',
     ''  munnel 8080 -s myapp -t token --server tunnels.example.com:7001'',
     ''  munnel 3000 -s myapp --tls --server tunnels.example.com:7002'']"

definition usage :: string where
  "usage = concat (map (\<lambda>l. l @ [newline]) usageLines)"

definition tokenUsageLines :: "string list" where
  "tokenUsageLines =
    [''munnel token '' @ utf8 [0xE2, 0x80, 0x94] @ '' acquire a tunnel token (self-service)'',
     [],
     ''usage:'',
     ''  munnel token --sub <name> [flags]'',
     [],
     ''flags:'',
     ''  --sub <name>         subdomain to scope the token to (empty = any free subdomain)'',
     ''  --ttl <duration>     token lifetime (default \"168h\"; server caps at 720h)'',
     ''  --password <pw>      enrollment password (or MUNNEL_ENROLL_PASSWORD; prompted if unset)'',
     ''  --server <host:port> control server address (default from ~/.munnel/config)'',
     ''  --server-url <url>   proxy base URL (default: https://<server-host>, or http://localhost:8080)'',
     ''  -h, --help           show this help'',
     [],
     ''the acquired token is saved to ~/.munnel/config and used automatically by'',
     ''`munnel <port>`. when it expires, re-run this command.'',
     [],
     ''examples:'',
     ''  munnel token --sub alice          # token scoped to alice.<domain>'',
     ''  munnel token                      # token for any free subdomain'']"

definition tokenUsage :: string where
  "tokenUsage = concat (map (\<lambda>l. l @ [newline]) tokenUsageLines)"

section \<open>munnel token\<close>

definition defaultTokFlags :: tokflags where
  "defaultTokFlags = \<lparr>tf_sub = [], tf_ttl = ''168h'', tf_password = [], tf_server = [], tf_serverURL = [], tf_help = False\<rparr>"

definition tokFlagDefs :: "(string \<times> tokflags flagdef) list" where
  "tokFlagDefs =
     [(''sub'', stringFlag (\<lambda>v f. f\<lparr>tf_sub := v\<rparr>)), (''ttl'', stringFlag (\<lambda>v f. f\<lparr>tf_ttl := v\<rparr>)),
      (''password'', stringFlag (\<lambda>v f. f\<lparr>tf_password := v\<rparr>)), (''server'', stringFlag (\<lambda>v f. f\<lparr>tf_server := v\<rparr>)),
      (''server-url'', stringFlag (\<lambda>v f. f\<lparr>tf_serverURL := v\<rparr>)), (''help'', BoolFlag (\<lambda>b f. f\<lparr>tf_help := b\<rparr>))]"

definition tokenReport :: "tokresp \<Rightarrow> string" where
  "tokenReport out =
     utf8 [0xE2, 0x9C, 0x93] @ '' token acquired (id '' @ to_ID out @ '')'' @ [newline] @
     (if to_Sub out \<noteq> [] then ''  subdomain: '' @ to_Sub out else ''  subdomain: any (unscoped)'') @ [newline] @
     (if to_Expires out \<noteq> [] then ''  expires:   '' @ to_Expires out else ''  expires:   never'') @ [newline] @
     ''  saved to:  ~/.munnel/config'' @ [newline] @
     [newline] @ ''ready:  munnel 3000 -s '' @ (if to_Sub out \<noteq> [] then to_Sub out else ''myapp'') @ [newline]"

text \<open>The exit code, what is printed, and the files afterwards.\<close>

definition tokenMain ::
  "oslib \<Rightarrow> (tokreq \<Rightarrow> tokresp option option) \<Rightarrow> (string + string) \<Rightarrow> string list \<Rightarrow> os \<Rightarrow> int \<times> string \<times> os" where
  "tokenMain L post prompt args w =
     (case flagParse tokFlagDefs args defaultTokFlags of
        Inl e \<Rightarrow> (2, [], w)
      | Inr (t, left) \<Rightarrow>
          if tf_help t then (0, tokenUsage, w)
          else case runToken L post prompt (Some t) w of
            (code, w1) \<Rightarrow>
              (code,
               (if code \<noteq> 0 then []
                else case tokenPassword w prompt t of
                  None \<Rightarrow> []
                | Some pw \<Rightarrow> (case post (tokenRequest L w pw t) of Some (Some out) \<Rightarrow> tokenReport out | _ \<Rightarrow> [])), w1))"

section \<open>The dashboard's program\<close>

definition Init :: "tui_cmd list" where
  "Init = [TickCmd, SpinCmd, WaitEvent]"

text \<open>Messages are handled until a command quits.\<close>

primrec tui_Run :: "(nat \<Rightarrow> nat) \<Rightarrow> (int \<times> tui_msg) list \<Rightarrow> model \<Rightarrow> bool \<times> model" where
  "tui_Run spin [] m = (False, m)"
| "tui_Run spin (x # xs) m =
     (case Update spin (fst x) (snd x) m of (m1, c) \<Rightarrow> if c = QuitCmd then (True, m1) else tui_Run spin xs m1)"

text \<open>The messages that end it: three keys, and the end of the tunnel's events.\<close>

fun quits :: "tui_msg \<Rightarrow> bool" where
  "quits (KeyMsg k) \<longleftrightarrow> k \<in> set [''q'', ''ctrl+c'', ''esc'']"
| "quits (EventMsg e) \<longleftrightarrow> ev_Kind e = EventShuttingDown"
| "quits _ \<longleftrightarrow> False"

lemma Update_quits: "snd (Update spin now msg m) = QuitCmd \<longleftrightarrow> quits msg"
  by (cases msg) (auto simp: Update_def onEvent_def split: EventKind.split)

lemma tui_Run_ends: "fst (tui_Run spin ms m) \<longleftrightarrow> (\<exists>x \<in> set ms. quits (snd x))"
proof (induction ms arbitrary: m)
  case (Cons x xs)
  then show ?case using Update_quits [of spin "fst x" "snd x" m] by (auto split: prod.split)
qed simp

section \<open>munnel\<close>

text \<open>Which argument ended the parsing: help, or an unknown flag.\<close>

fun stopArg :: "flags \<Rightarrow> string list \<Rightarrow> argstep option" where
  "stopArg f [] = None"
| "stopArg f [a] = (case argStep f a of AHelp \<Rightarrow> Some AHelp | AUnknown \<Rightarrow> Some AUnknown | _ \<Rightarrow> None)"
| "stopArg f (a # b # rest) =
     (case argStep f a of
        AHelp \<Rightarrow> Some AHelp
      | AUnknown \<Rightarrow> Some AUnknown
      | ANext g \<Rightarrow> stopArg (g b) rest
      | ASet f1 \<Rightarrow> stopArg f1 (b # rest)
      | APos \<Rightarrow> stopArg f (b # rest))"

record run_in =
  ri_terminal :: bool
  ri_messages :: "(int \<times> tui_msg) list"
  ri_spin :: "nat \<Rightarrow> nat"
  ri_tuiErr :: "string option"
  ri_events :: "event list"
  ri_random :: "string option"
  ri_replayer :: "(irec \<Rightarrow> string + irec) option"

datatype run_end = Exit int string | StillRunning string | RunPanic

definition banner :: "cconfig \<Rightarrow> string \<Rightarrow> string \<Rightarrow> string" where
  "banner c local url =
     ''munnel '' @ version @ '' '' @ emDash @ '' forwarding http://'' @ local @ '' (server '' @ cc_ServerAddr c @ '')'' @ [newline] @
     (if url \<noteq> [] then ''inspector: '' @ url @ [newline] else [])"

text \<open>The part of \<^verbatim>\<open>run\<close> after the configuration: the tunnel and the inspector exist, then the dashboard or the plain log.\<close>

definition runTunnel :: "oslib \<Rightarrow> ilib \<Rightarrow> run_in \<Rightarrow> cconfig \<Rightarrow> run_end" where
  "runTunnel L IL inp c =
     (case tn_New c of
        Inl e \<Rightarrow> Exit 2 []
      | Inr t \<Rightarrow>
          (case (if cc_Inspect c
                 then map_option (\<lambda>i. URLFor IL i (cc_InspectAddr c)) (in_New (ri_random inp) (NewStore 0) (ri_replayer inp) (Some (Status t)))
                 else Some []) of
             None \<Rightarrow> RunPanic
           | Some url \<Rightarrow>
               if ri_terminal inp
               then (case tui_Run (ri_spin inp) (ri_messages inp)
                       (newModel 0 \<lparr>op_ServerAddr = cc_ServerAddr c, op_InspectorURL = url, op_Target = ''http://'' @ LocalAddr (tn_fwd t)\<rparr>) of
                       (ended, m) \<Rightarrow>
                         (case ri_tuiErr inp of
                            Some e \<Rightarrow> Exit 1 []
                          | None \<Rightarrow> if ended then Exit 0 [] else StillRunning []))
               else case headless L (ri_events inp) of
                      (out, fin) \<Rightarrow>
                        let o1 = banner c (LocalAddr (tn_fwd t)) url @ out in if fin then Exit 0 o1 else StillRunning o1))"

definition clientRun ::
  "oslib \<Rightarrow> ilib \<Rightarrow> (tokreq \<Rightarrow> tokresp option option) \<Rightarrow> (string + string) \<Rightarrow> run_in \<Rightarrow> string list \<Rightarrow> os \<Rightarrow> run_end \<times> os" where
  "clientRun L IL post prompt inp argv w =
     (if argv \<noteq> [] \<and> hd argv = ''token''
      then (case tokenMain L post prompt (tl argv) w of (code, out, w1) \<Rightarrow> (Exit code out, w1))
      else case runConfig L w argv of
        Inr c \<Rightarrow> (runTunnel L IL inp c, w)
      | Inl code \<Rightarrow>
          (Exit code
             (if code \<noteq> 0 then []
              else if stopArg (applyDefaults L w builtinFlags) argv = Some AHelp then usage
              else ''munnel '' @ version @ [newline]), w))"

section \<open>What is printed\<close>

lemma stopArg_parse:
  "(case parseArgs f args argv of
      Inl code \<Rightarrow> (code = 0 \<and> stopArg f argv = Some AHelp) \<or> (code = 2 \<and> stopArg f argv = Some AUnknown)
    | Inr x \<Rightarrow> stopArg f argv = None)"
proof (induction f args argv rule: parseArgs.induct)
  case (3 f args a b rest)
  then show ?case by (cases "argStep f a") (simp_all split: sum.splits)
qed (simp_all split: argstep.split)

text \<open>The flags a line of a usage text names.\<close>

definition flagWords :: "string \<Rightarrow> string list" where
  "flagWords l = filter (\<lambda>w. HasPrefix w ''-'' \<and> w \<noteq> ''-'')
     (map (takeWhile (\<lambda>c. isDigit c \<or> 97 \<le> (of_char c :: nat) \<and> (of_char c :: nat) \<le> 122 \<or> c = CHR ''-'')) (Split l CHR '' ''))"

definition documentedFlags :: "string list" where
  "documentedFlags = concat (map flagWords (take 12 (drop 7 usageLines)))"

lemma documentedFlags_eq:
  "documentedFlags = [''-s'', ''--subdomain'', ''-t'', ''--token'', ''--server'', ''--tls'', ''--tls'', ''--server-cert-sha256'', ''--tls'', ''--local-host'',
     ''--inspect'', ''--inspect-addr'', ''--max-body-mb'', ''--protect'', ''-v'', ''--version'', ''-h'', ''--help'']"
  by code_simp

text \<open>Every flag the usage text lists is one the program knows.\<close>

lemma usage_known: "\<forall>a \<in> set documentedFlags. argStep f a \<noteq> AUnknown"
  by (simp add: documentedFlags_eq argStep_def HasPrefix_def)

text \<open>The usage text of \<^verbatim>\<open>munnel token\<close> lists \<^verbatim>\<open>-h\<close>, but only \<^verbatim>\<open>help\<close> is defined: \<^verbatim>\<open>munnel token -h\<close> fails.\<close>

lemma token_h_fails: "tokenMain L post prompt [''-h''] w = (2, [], w)"
  by (simp add: tokenMain_def flagParse.simps(2) flagArg_def Cut_def tokFlagDefs_def)

section \<open>Properties\<close>

text \<open>A request without what follows the question mark in its path.\<close>

definition withoutQuery :: "event \<Rightarrow> event" where
  "withoutQuery e = e\<lparr>ev_Record := map_option (\<lambda>r. r\<lparr>ir_Path := logPath (ir_Path r)\<rparr>) (ev_Record e)\<rparr>"

lemma logPath_idem: "logPath (logPath p) = logPath p"
proof (cases "IndexByte p CHR ''?''")
  case (Some i)
  then have "IndexByte (take i p) CHR ''?'' = None" using IndexByte_Some [OF Some] by (simp add: IndexByte_None)
  with Some show ?thesis by (simp add: logPath_def)
qed (simp add: logPath_def)

lemma headless_query: "headless L (map withoutQuery es) = headless L es"
proof (induction es)
  case (Cons e es)
  have "logLine L (withoutQuery e) = logLine L e"
    by (simp add: logLine_def withoutQuery_def logRequest_def logPath_idem Let_def split: EventKind.split option.split)
  with Cons show ?case by (simp add: withoutQuery_def)
qed simp


text \<open>A run that has seen one request with a token in its query.\<close>

definition demo_run :: run_in where
  "demo_run = \<lparr>ri_terminal = False, ri_messages = [], ri_spin = Suc, ri_tuiErr = None,
     ri_events = [(mkEvent EventRequest [])\<lparr>ev_Record := Some ((newRec 0)\<lparr>ir_Method := ''GET'', ir_Path := ''/x?key=secret'', ir_Status := 200\<rparr>)\<rparr>],
     ri_random = Some ''a'', ri_replayer = None\<rparr>"


end
