(* ===== verification/Certfile.thy ===== *)
theory Certfile
  imports Go_Std
begin

text \<open>
  The certificate of the TLS control port, \<^verbatim>\<open>internal/server/certfile.go\<close>: a pair of files that is looked at again at most every ten seconds
  and loaded again when it has changed. What a handshake sees of the disk is a \<open>disk\<close>: what \<^verbatim>\<open>os.Stat\<close> says of a path (the modification time in
  nanoseconds, the size and whether it is a directory) and what \<^verbatim>\<open>tls.LoadX509KeyPair\<close> makes of the two files. Every operation runs under the
  mutex, so that one after the other is the whole story; \<open>now\<close> is the clock in nanoseconds.
\<close>

section \<open>The operations\<close>

record fileinfo =
  fi_ModTime :: int
  fi_Size :: int
  fi_IsDir :: bool

record disk =
  dk_stat :: "string \<Rightarrow> string + fileinfo"
  dk_load :: "string \<Rightarrow> string \<Rightarrow> string + string"

record certfile =
  cf_certPath :: string
  cf_keyPath :: string
  cf_cert :: "string option"
  cf_stamp :: string
  cf_checked :: int
  cf_lastErr :: "string option"
  cf_interval :: int

definition certCheckInterval :: int where "certCheckInterval = 10 * 10 ^ 9"

primrec fileStampFrom :: "disk \<Rightarrow> string \<Rightarrow> string list \<Rightarrow> string + string" where
  "fileStampFrom d stamp [] = Inr stamp"
| "fileStampFrom d stamp (p # ps) =
     (case dk_stat d p of
        Inl e \<Rightarrow> Inl e
      | Inr fi \<Rightarrow>
          if fi_IsDir fi then Inl (p @ '' is a directory'')
          else fileStampFrom d (stamp @ Itoa (fi_ModTime fi) @ ''/'' @ Itoa (fi_Size fi) @ '';'') ps)"

definition fileStamp :: "disk \<Rightarrow> string list \<Rightarrow> string + string" where
  "fileStamp d paths = fileStampFrom d [] paths"

definition refreshLocked :: "disk \<Rightarrow> int \<Rightarrow> bool \<Rightarrow> certfile \<Rightarrow> string option \<times> certfile" where
  "refreshLocked d now force c =
     (let c1 = c\<lparr>cf_checked := now\<rparr>
      in case fileStamp d [cf_certPath c, cf_keyPath c] of
           Inl e \<Rightarrow> (Some e, c1\<lparr>cf_lastErr := Some e\<rparr>)
         | Inr stamp \<Rightarrow>
             if \<not> force \<and> stamp = cf_stamp c \<and> cf_cert c \<noteq> None then (None, c1)
             else let c2 = c1\<lparr>cf_stamp := stamp\<rparr>
                  in case dk_load d (cf_certPath c) (cf_keyPath c) of
                       Inl e \<Rightarrow> (Some e, c2\<lparr>cf_lastErr := Some e\<rparr>)
                     | Inr cert \<Rightarrow> (None, c2\<lparr>cf_cert := Some cert, cf_lastErr := None\<rparr>))"

definition NewCertFile :: "disk \<Rightarrow> int \<Rightarrow> string \<Rightarrow> string \<Rightarrow> string option \<times> certfile" where
  "NewCertFile d now certPath keyPath =
     refreshLocked d now True
       \<lparr>cf_certPath = certPath, cf_keyPath = keyPath, cf_cert = None, cf_stamp = [], cf_checked = 0, cf_lastErr = None,
        cf_interval = certCheckInterval\<rparr>"

definition GetCertificate :: "disk \<Rightarrow> int \<Rightarrow> certfile \<Rightarrow> (string option + string) \<times> certfile" where
  "GetCertificate d now c =
     (let c1 = (if cf_cert c = None \<or> cf_interval c \<le> now - cf_checked c then snd (refreshLocked d now False c) else c)
      in (case cf_cert c1 of None \<Rightarrow> Inl (cf_lastErr c1) | Some cert \<Rightarrow> Inr cert, c1))"

text \<open>A sequence of handshakes, each with the clock and the disk it finds.\<close>

definition handshakes :: "(int \<times> disk) list \<Rightarrow> certfile \<Rightarrow> certfile" where
  "handshakes hs c = fold (\<lambda>h c1. snd (GetCertificate (snd h) (fst h) c1)) hs c"

section \<open>Stamps\<close>

lemma Itoa_no: "c \<in> set (Itoa i) \<Longrightarrow> c = CHR ''-'' \<or> isDigit c"
  using itoaNat_digits by (auto simp: Itoa_def list_all_iff split: if_splits)

lemma sep_cancel: "c \<notin> set a \<Longrightarrow> c \<notin> set b \<Longrightarrow> a @ c # x = b @ c # y \<longleftrightarrow> a = b \<and> x = y"
proof (induction a arbitrary: b)
  case Nil then show ?case by (cases b) auto
next
  case (Cons z a) then show ?case by (cases b) auto
qed

lemma Itoa_sep: "\<not> isDigit c \<Longrightarrow> c \<noteq> CHR ''-'' \<Longrightarrow> Itoa i @ c # x = Itoa j @ c # y \<longleftrightarrow> i = j \<and> x = y"
  using Itoa_no [of c] by (subst sep_cancel) (auto dest: Itoa_inject)

text \<open>The stamp of a pair of regular files tells apart any two states of them that differ in a time or a size.\<close>

definition pairInfo :: "disk \<Rightarrow> certfile \<Rightarrow> (int \<times> int \<times> int \<times> int) option" where
  "pairInfo d c =
     (case (dk_stat d (cf_certPath c), dk_stat d (cf_keyPath c)) of
        (Inr a, Inr b) \<Rightarrow> if fi_IsDir a \<or> fi_IsDir b then None else Some (fi_ModTime a, fi_Size a, fi_ModTime b, fi_Size b)
      | _ \<Rightarrow> None)"

definition stampText :: "int \<times> int \<times> int \<times> int \<Rightarrow> string" where
  "stampText x = (case x of (t, n, u, m) \<Rightarrow> Itoa t @ ''/'' @ Itoa n @ '';'' @ Itoa u @ ''/'' @ Itoa m @ '';'')"

lemma stampText_inject: "stampText x = stampText y \<longleftrightarrow> x = y"
  by (cases x, cases y) (auto simp: stampText_def Itoa_sep isDigit_def dest: Itoa_inject)

lemma fileStamp_pair:
  "case pairInfo d c of None \<Rightarrow> \<exists>e. fileStamp d [cf_certPath c, cf_keyPath c] = Inl e
   | Some x \<Rightarrow> fileStamp d [cf_certPath c, cf_keyPath c] = Inr (stampText x)"
  by (auto simp: pairInfo_def fileStamp_def stampText_def split: sum.splits)

section \<open>What is served\<close>

text \<open>
  What a pair of regular files loads to is a function \<open>F\<close> of their times and sizes: the assumption behind comparing stamps. The paths and the
  interval never change; the certificate held is one that some disk gave, and the one of the pair the stamp stands for if that one loads.
\<close>

definition stamped :: "(int \<times> int \<times> int \<times> int \<Rightarrow> string + string) \<Rightarrow> certfile \<Rightarrow> disk \<Rightarrow> bool" where
  "stamped F c d \<longleftrightarrow>
     (case pairInfo d c of None \<Rightarrow> True | Some x \<Rightarrow> dk_load d (cf_certPath c) (cf_keyPath c) = F x)"

definition certInv :: "(int \<times> int \<times> int \<times> int \<Rightarrow> string + string) \<Rightarrow> certfile \<Rightarrow> bool" where
  "certInv F c \<longleftrightarrow>
     (case cf_cert c of
        None \<Rightarrow> cf_lastErr c \<noteq> None
      | Some cert \<Rightarrow> \<exists>x. F x = Inr cert) \<and>
     (\<forall>x cert. cf_stamp c = stampText x \<and> F x = Inr cert \<longrightarrow> cf_cert c = Some cert)"

definition sameFiles :: "certfile \<Rightarrow> certfile \<Rightarrow> bool" where
  "sameFiles c c' \<longleftrightarrow> cf_certPath c' = cf_certPath c \<and> cf_keyPath c' = cf_keyPath c \<and> cf_interval c' = cf_interval c"

lemma sameFiles_pairInfo: "sameFiles c c' \<Longrightarrow> pairInfo d c' = pairInfo d c \<and> (stamped F c' d \<longleftrightarrow> stamped F c d)"
  by (auto simp: sameFiles_def pairInfo_def stamped_def split: sum.splits)

lemma refresh_files: "sameFiles c (snd (refreshLocked d now force c))"
  by (simp add: sameFiles_def refreshLocked_def Let_def split: sum.split)

lemma refresh_cases:
  assumes "stamped F c d"
  obtains (gone) e where "pairInfo d c = None" "refreshLocked d now force c = (Some e, c\<lparr>cf_checked := now, cf_lastErr := Some e\<rparr>)"
  | (kept) x where "pairInfo d c = Some x" "\<not> force" "cf_stamp c = stampText x" "cf_cert c \<noteq> None"
      "refreshLocked d now force c = (None, c\<lparr>cf_checked := now\<rparr>)"
  | (bad) x e where "pairInfo d c = Some x" "F x = Inl e"
      "refreshLocked d now force c = (Some e, c\<lparr>cf_checked := now, cf_stamp := stampText x, cf_lastErr := Some e\<rparr>)"
  | (good) x cert where "pairInfo d c = Some x" "F x = Inr cert"
      "refreshLocked d now force c = (None, c\<lparr>cf_checked := now, cf_stamp := stampText x, cf_cert := Some cert, cf_lastErr := None\<rparr>)"
proof (cases "pairInfo d c")
  case None
  then obtain e where "fileStamp d [cf_certPath c, cf_keyPath c] = Inl e" using fileStamp_pair [of d c] by auto
  with None gone show thesis by (simp add: refreshLocked_def Let_def)
next
  case (Some x)
  then have st: "fileStamp d [cf_certPath c, cf_keyPath c] = Inr (stampText x)" and ld: "dk_load d (cf_certPath c) (cf_keyPath c) = F x"
    using fileStamp_pair [of d c] assms by (simp_all add: stamped_def)
  show thesis
  proof (cases "\<not> force \<and> stampText x = cf_stamp c \<and> cf_cert c \<noteq> None")
    case True
    with st kept [OF Some] show thesis by (simp add: refreshLocked_def Let_def)
  next
    case False
    have "refreshLocked d now force c = (case F x of
        Inl e \<Rightarrow> (Some e, c\<lparr>cf_checked := now, cf_stamp := stampText x, cf_lastErr := Some e\<rparr>)
      | Inr cert \<Rightarrow> (None, c\<lparr>cf_checked := now, cf_stamp := stampText x, cf_cert := Some cert, cf_lastErr := None\<rparr>))"
      unfolding refreshLocked_def Let_def st sum.case ld if_not_P [OF False] by (cases "F x") simp_all
    then show thesis using bad [OF Some] good [OF Some] by (cases "F x") simp_all
  qed
qed

lemma refresh_inv:
  assumes "stamped F c d" and "certInv F c"
  shows "certInv F (snd (refreshLocked d now force c))"
  using assms(1)
  by (cases rule: refresh_cases [where now = now and force = force])
    (use assms(2) in \<open>auto simp: certInv_def stampText_inject split: option.splits\<close>)

lemma GetCertificate_inv:
  assumes "stamped F c d" and "certInv F c"
  shows "certInv F (snd (GetCertificate d now c)) \<and> sameFiles c (snd (GetCertificate d now c))"
  using refresh_inv [OF assms, of now False] refresh_files [of c d now False] assms(2)
  by (simp add: GetCertificate_def Let_def sameFiles_def)

lemma handshakes_inv:
  assumes "\<forall>h \<in> set hs. stamped F c (snd h)" and "certInv F c"
  shows "certInv F (handshakes hs c) \<and> sameFiles c (handshakes hs c)"
  using assms
proof (induction hs arbitrary: c)
  case Nil
  then show ?case by (simp add: handshakes_def sameFiles_def)
next
  case (Cons h hs)
  let ?c = "snd (GetCertificate (snd h) (fst h) c)"
  have c: "certInv F ?c" "sameFiles c ?c" using GetCertificate_inv [of F c "snd h"] Cons.prems by simp_all
  then have "certInv F (handshakes hs ?c) \<and> sameFiles ?c (handshakes hs ?c)"
    using Cons sameFiles_pairInfo [OF c(2)] by (intro Cons.IH) simp_all
  with c(2) show ?case by (auto simp: handshakes_def sameFiles_def)
qed

definition freshCert :: "string \<Rightarrow> string \<Rightarrow> certfile" where
  "freshCert cp kp = \<lparr>cf_certPath = cp, cf_keyPath = kp, cf_cert = None, cf_stamp = [], cf_checked = 0, cf_lastErr = None,
     cf_interval = certCheckInterval\<rparr>"

lemma NewCertFile_fresh: "NewCertFile d now cp kp = refreshLocked d now True (freshCert cp kp)"
  by (simp add: NewCertFile_def freshCert_def)

lemma stampText_nonempty [simp]: "[] \<noteq> stampText x" "stampText x \<noteq> []"
  by (cases x; simp add: stampText_def)+

lemma NewCertFile_inv:
  assumes "stamped F (freshCert cp kp) d"
  shows "certInv F (snd (NewCertFile d now cp kp)) \<and> sameFiles (freshCert cp kp) (snd (NewCertFile d now cp kp))"
  using assms unfolding NewCertFile_fresh
  by (cases rule: refresh_cases [where now = now and force = True])
    (auto simp: certInv_def stampText_inject sameFiles_def freshCert_def)


text \<open>
  The price of comparing stamps: a changed pair that could not be loaded is not tried again while its times and sizes stay as they are, even
  if it would load by now (a renewal the server was not yet allowed to read, say), and the old certificate stays.
\<close>

lemma failed_reload_not_retried:
  assumes "pairInfo d c = Some x" "cf_stamp c = stampText x" "cf_cert c = Some old"
  shows "fst (GetCertificate d now c) = Inr old"
  using assms fileStamp_pair [of d c] by (simp add: GetCertificate_def refreshLocked_def Let_def)

definition demo_disk :: "int \<Rightarrow> string + string \<Rightarrow> disk" where
  "demo_disk t r = \<lparr>dk_stat = (\<lambda>_. Inr \<lparr>fi_ModTime = t, fi_Size = 1, fi_IsDir = False\<rparr>), dk_load = (\<lambda>_ _. r)\<rparr>"


end
