(* ===== verification/Server_Main.thy ===== *)
theory Server_Main
  imports Cli_Props Certfile
begin

text \<open>
  The server's command line, \<^verbatim>\<open>cmd/server/main.go\<close>: from the flags (as the \<^verbatim>\<open>flag\<close> package parsed them) and the environment to the server that
  listens, and \<^verbatim>\<open>munnel-server mint\<close>. The operating system is that of theory \<^verbatim>\<open>Cli\<close>; what is printed is left out but for the minted token and its id.
\<close>

section \<open>Keys\<close>

datatype key_err = KeyFile string | KeyEmpty | KeyRandom

text \<open>\<^verbatim>\<open>os.ReadFile\<close>\<close>

definition readFileText :: "os \<Rightarrow> string \<Rightarrow> string option" where
  "readFileText w path = (case os_files w path of Some (content, None) \<Rightarrow> Some content | _ \<Rightarrow> None)"

text \<open>\<open>Inr []\<close> is the nil key.\<close>

definition loadSigningKey :: "os \<Rightarrow> string \<Rightarrow> key_err + string" where
  "loadSigningKey w path =
     (if path \<noteq> [] then
        (case readFileText w path of
           None \<Rightarrow> Inl (KeyFile path)
         | Some b \<Rightarrow> let k = TrimSpace b in if k = [] then Inl KeyEmpty else Inr k)
      else Inr (TrimSpace (Getenv w ''MUNNEL_SIGNING_KEY'')))"

definition loadSessionKey :: "os \<Rightarrow> string option \<Rightarrow> string \<Rightarrow> key_err + string" where
  "loadSessionKey w rnd path =
     (if path \<noteq> [] then
        (case readFileText w path of
           None \<Rightarrow> Inl (KeyFile path)
         | Some b \<Rightarrow> let k = TrimSpace b in if k = [] then Inl KeyEmpty else Inr k)
      else let v = TrimSpace (Getenv w ''MUNNEL_SESSION_KEY'')
      in if v \<noteq> [] then Inr v
         else case rnd of None \<Rightarrow> Inl KeyRandom | Some b \<Rightarrow> Inr (hexEncode b))"

section \<open>Starting the server\<close>

record srvflags =
  vf_domain :: string
  vf_controlAddr :: string
  vf_controlTLSAddr :: string
  vf_tlsCertFile :: string
  vf_tlsKeyFile :: string
  vf_proxyAddr :: string
  vf_askAddr :: string
  vf_authTokens :: string
  vf_authFile :: string
  vf_signingKeyFile :: string
  vf_revokedFile :: string
  vf_reservedFile :: string
  vf_authStub :: bool
  vf_sessionKeyFile :: string
  vf_enrollPassword :: string
  vf_scheme :: string
  vf_publicPort :: string
  vf_maxBodyMB :: int
  vf_showVersion :: bool

definition defaultSrvFlags :: srvflags where
  "defaultSrvFlags = \<lparr>vf_domain = ''localhost'', vf_controlAddr = '':7001'', vf_controlTLSAddr = '':7002'', vf_tlsCertFile = [],
     vf_tlsKeyFile = [], vf_proxyAddr = '':8080'', vf_askAddr = [], vf_authTokens = [], vf_authFile = [], vf_signingKeyFile = [],
     vf_revokedFile = [], vf_reservedFile = [], vf_authStub = False, vf_sessionKeyFile = [], vf_enrollPassword = [], vf_scheme = ''http'',
     vf_publicPort = [], vf_maxBodyMB = 32, vf_showVersion = False\<rparr>"

definition sessionTTL :: int where "sessionTTL = 7 * 24 * 3600 * 10 ^ 9"

definition authOptionsOf :: "os \<Rightarrow> srvflags \<Rightarrow> string \<Rightarrow> authOptions" where
  "authOptionsOf w v key =
     \<lparr>ao_Tokens = vf_authTokens v, ao_AuthFile = vf_authFile v, ao_SigningKey = key, ao_RevokedFile = vf_revokedFile v,
      ao_ReservedFile = vf_reservedFile v,
      ao_Reserved = (if vf_reservedFile v = [] then TrimSpace (Getenv w ''MUNNEL_RESERVED'') else [])\<rparr>"

text \<open>The certificate of the TLS control port: an error, none, or the \<open>certfile\<close> (whether it could be loaded yet or not).\<close>

definition controlCert :: "disk \<Rightarrow> int \<Rightarrow> srvflags \<Rightarrow> unit + certfile option" where
  "controlCert d now v =
     (if (vf_tlsCertFile v = []) \<noteq> (vf_tlsKeyFile v = []) then Inl ()
      else if vf_tlsCertFile v \<noteq> [] \<and> vf_controlTLSAddr v \<noteq> []
           then Inr (Some (snd (NewCertFile d now (vf_tlsCertFile v) (vf_tlsKeyFile v))))
      else Inr None)"

definition forwardAuth :: "os \<Rightarrow> string option \<Rightarrow> srvflags \<Rightarrow> key_err + manager option" where
  "forwardAuth w rnd v =
     (if \<not> vf_authStub v then Inr None
      else bindE (loadSessionKey w rnd (vf_sessionKeyFile v)) (\<lambda>k. Inr (Some (NewManager k (Some stubAuthenticate) sessionTTL))))"

definition srvConfig :: "os \<Rightarrow> srvflags \<Rightarrow> authenticator \<Rightarrow> certfile option \<Rightarrow> manager option \<Rightarrow> config" where
  "srvConfig w v auth cert fa =
     \<lparr>cfg_Domain = vf_domain v, cfg_ControlAddr = vf_controlAddr v, cfg_ProxyAddr = vf_proxyAddr v, cfg_AskAddr = vf_askAddr v,
      cfg_ControlTLSAddr = vf_controlTLSAddr v, cfg_ControlTLS = (cert \<noteq> None), cfg_PublicPort = vf_publicPort v,
      cfg_PublicScheme = vf_scheme v, cfg_MaxRequestBody = shl20 (vf_maxBodyMB v), cfg_Auth = Some auth, cfg_FA = fa,
      cfg_EnrollPassword = (if vf_enrollPassword v = [] then TrimSpace (Getenv w ''MUNNEL_ENROLL_PASSWORD'') else vf_enrollPassword v),
      cfg_ResponseHeaderTimeout = 0, cfg_MuxPingInterval = 0, cfg_MuxIdleTimeout = 0\<rparr>"

text \<open>\<^verbatim>\<open>run\<close> up to \<^verbatim>\<open>ListenAndServe\<close>: the exit code, or the server and its certificate.\<close>

definition srvRun ::
  "'x lib_scheme \<Rightarrow> (string \<Rightarrow> (string \<times> string) list option) \<Rightarrow> os \<Rightarrow> disk \<Rightarrow> int \<Rightarrow> string option \<Rightarrow> srvflags \<Rightarrow>
     int + server \<times> certfile option" where
  "srvRun L json w d now rnd v =
     (if vf_showVersion v then Inl 0
      else if vf_scheme v \<noteq> ''http'' \<and> vf_scheme v \<noteq> ''https'' then Inl 2
      else case loadSigningKey w (vf_signingKeyFile v) of
        Inl e \<Rightarrow> Inl 2
      | Inr key \<Rightarrow>
          (case NewAuthenticatorWith L (os_files w) json (authOptionsOf w v key) of
             Inl e \<Rightarrow> Inl 2
           | Inr auth \<Rightarrow>
               (case controlCert d now v of
                  Inl u \<Rightarrow> Inl 2
                | Inr cert \<Rightarrow>
                    (case forwardAuth w rnd v of
                       Inl e \<Rightarrow> Inl 2
                     | Inr fa \<Rightarrow>
                         (case New L (os_files w) json (srvConfig w v auth cert fa) of
                            Inl e \<Rightarrow> Inl 2
                          | Inr srv \<Rightarrow> Inr (srv, cert))))))"

section \<open>Minting\<close>

text \<open>The exit code, or the id and the token that are printed.\<close>

definition runMint ::
  "'x lib_scheme \<Rightarrow> os \<Rightarrow> int \<Rightarrow> string option \<Rightarrow> string \<Rightarrow> mintOpts \<Rightarrow> int + string \<times> string" where
  "runMint L w now rnd keyFile opts =
     (case loadSigningKey w keyFile of
        Inl e \<Rightarrow> Inl 2
      | Inr key \<Rightarrow>
          if key = [] then Inl 2
          else case MintWith L now rnd key opts of Inl e \<Rightarrow> Inl 1 | Inr tok \<Rightarrow> Inr (IDOf L tok, tok))"

section \<open>What starts\<close>

lemma srvRun_Inr:
  assumes "srvRun L json w d now rnd v = Inr (srv, cert)"
  obtains key auth fa where "vf_scheme v = ''http'' \<or> vf_scheme v = ''https''" and "loadSigningKey w (vf_signingKeyFile v) = Inr key"
    and "NewAuthenticatorWith L (os_files w) json (authOptionsOf w v key) = Inr auth" and "controlCert d now v = Inr cert"
    and "forwardAuth w rnd v = Inr fa" and "New L (os_files w) json (srvConfig w v auth cert fa) = Inr srv"
  using assms by (auto simp: srvRun_def split: if_splits sum.splits)

lemma New_Inr:
  assumes "New L fs json cfg = Inr srv" and "cfg_Auth cfg = Some a"
  shows "sv_auth srv = a \<and> sv_reg srv = NewRegistry \<and> cfg_PublicScheme (sv_cfg srv) = orDefault ''http'' (cfg_PublicScheme cfg) \<and>
     cfg_ControlTLS (sv_cfg srv) = cfg_ControlTLS cfg \<and> cfg_ControlTLSAddr (sv_cfg srv) = cfg_ControlTLSAddr cfg \<and>
     cfg_FA (sv_cfg srv) = cfg_FA cfg \<and> 0 < cfg_MaxRequestBody (sv_cfg srv)"
  using assms by (auto simp: New_def Let_def bindE_def)

lemma controlCert_Inr:
  assumes "controlCert d now v = Inr cert"
  shows "cert \<noteq> None \<longleftrightarrow> vf_tlsCertFile v \<noteq> [] \<and> vf_tlsKeyFile v \<noteq> [] \<and> vf_controlTLSAddr v \<noteq> []"
  using assms by (auto simp: controlCert_def split: if_splits)

lemma forwardAuth_Inr:
  assumes "forwardAuth w rnd v = Inr fa" and "rnd \<noteq> Some []"
  shows "(fa \<noteq> None \<longleftrightarrow> vf_authStub v) \<and> (\<forall>m. fa = Some m \<longrightarrow> fm_key m \<noteq> [])"
proof -
  have "k \<noteq> []" if "loadSessionKey w rnd (vf_sessionKeyFile v) = Inr k" for k
    using that assms(2) by (auto simp: loadSessionKey_def hexEncode_def Let_def split: if_splits option.splits)
  then show ?thesis using assms(1) by (auto simp: forwardAuth_def bindE_def NewManager_def split: if_splits sum.splits)
qed

text \<open>
  A server that starts is what was asked for: its URLs are http or https; the TLS control port is configured exactly when a certificate, a key and an
  address are given; viewers can log in exactly when the stub provider was asked for, and sessions are then signed with a key
  that is not empty; anyone may connect only if there is neither a static token nor a signing key; reserved names need a signing key; no
  client is registered.
\<close>

theorem server_starts:
  assumes "srvRun L json w d now rnd v = Inr (srv, cert)" and "rnd \<noteq> Some []"
  shows "cfg_PublicScheme (sv_cfg srv) \<in> {''http'', ''https''} \<and>
     (tlsEnabled (sv_cfg srv) \<longleftrightarrow> vf_tlsCertFile v \<noteq> [] \<and> vf_tlsKeyFile v \<noteq> [] \<and> vf_controlTLSAddr v \<noteq> []) \<and>
     (Enabled (cfg_FA (sv_cfg srv)) \<longleftrightarrow> vf_authStub v) \<and> (\<forall>m. cfg_FA (sv_cfg srv) = Some m \<longrightarrow> fm_key m \<noteq> []) \<and>
     (Open (sv_auth srv) \<longleftrightarrow> StaticTokenCount (sv_auth srv) = 0 \<and> \<not> SignedEnabled (sv_auth srv)) \<and>
     (\<forall>name. IsReserved (sv_auth srv) name \<longrightarrow> SignedEnabled (sv_auth srv)) \<and> sv_reg srv = NewRegistry \<and> 0 < cfg_MaxRequestBody (sv_cfg srv)"
proof -
  from assms(1) obtain key auth fa where scheme: "vf_scheme v = ''http'' \<or> vf_scheme v = ''https''"
    and auth: "NewAuthenticatorWith L (os_files w) json (authOptionsOf w v key) = Inr auth" and cert: "controlCert d now v = Inr cert"
    and fa: "forwardAuth w rnd v = Inr fa" and srv: "New L (os_files w) json (srvConfig w v auth cert fa) = Inr srv"
    by (rule srvRun_Inr)
  note n = New_Inr [OF srv, of auth] and a = NewAuthenticatorWith_Inr [OF auth] and f = forwardAuth_Inr [OF fa assms(2)]
  have "Enabled fa \<longleftrightarrow> fa \<noteq> None" using fa by (auto simp: forwardAuth_def Enabled_def NewManager_def bindE_def split: if_splits sum.splits)
  then show ?thesis
    using n a f scheme controlCert_Inr [OF cert]
    by (auto simp: srvConfig_def tlsEnabled_def orDefault_def IsReserved_def)
qed

text \<open>
  Property C24. A minted token is good at the server that has the same key: whatever white space the key file ends with, a token that \<^verbatim>\<open>munnel-server mint\<close> prints for a
  key file is let in by the server started with that file (and the same environment) until the second it expires, unless its printed id is
  revoked.
\<close>

theorem minted_accepted:
  assumes mint: "runMint L w t0 rnd0 (vf_signingKeyFile v) opts = Inr (tid, tok)"
    and start: "srvRun L json w d now rnd v = Inr (srv, cert)"
    and json: "json_claims L" and sub: "list_all isAscii (mo_Sub opts)" and range: "0 \<le> t0" "t0 + mo_TTL opts < 2 ^ 63"
    and time: "mo_TTL opts \<le> 0 \<or> unix t \<le> unix (t0 + mo_TTL opts)"
  shows "Check L t (sv_auth srv) tok = (if tid \<in> set (au_revoked (sv_auth srv)) then Some ErrRevoked else None) \<and>
     ReservedSubdomain L t (sv_auth srv) tok = mo_Sub opts \<and> ProtectedByToken L t (sv_auth srv) tok = mo_Prot opts"
proof -
  obtain key where key: "loadSigningKey w (vf_signingKeyFile v) = Inr key" "key \<noteq> []" and m: "MintWith L t0 rnd0 key opts = Inr tok"
    and tid: "tid = IDOf L tok"
    using mint by (auto simp: runMint_def split: sum.splits if_splits)
  from start obtain key' auth fa where k: "loadSigningKey w (vf_signingKeyFile v) = Inr key'"
    and auth: "NewAuthenticatorWith L (os_files w) json (authOptionsOf w v key') = Inr auth"
    and srv: "New L (os_files w) json (srvConfig w v auth cert fa) = Inr srv"
    by (rule srvRun_Inr)
  have a: "sv_auth srv = auth" using New_Inr [OF srv, of auth] by (simp add: srvConfig_def)
  have s: "au_signing auth = key" "\<not> au_open auth"
    using NewAuthenticatorWith_Inr [OF auth] key k by (simp_all add: authOptionsOf_def Open_def SignedEnabled_def)
  obtain c where c: "c_Sub c = mo_Sub opts" "c_Prot c = mo_Prot opts" "IDOf L tok = c_ID c" "Parse L t key tok = Inr c"
    using minted_token [OF m \<open>json_claims L\<close> sub range, of t] time by auto
  have "isSigned auth tok" "tok \<noteq> []"
    using m s key(2) by (auto simp: isSigned_def MintWith_def Prefix_def HasPrefix_def Let_def split: if_splits option.splits)
  then show ?thesis
    using a s c tid by (simp add: Check_def ReservedSubdomain_def ProtectedByToken_def)
qed

section \<open>Witnesses\<close>

text \<open>A key file that ends with a newline, and a server started with it.\<close>

definition demo_keyos :: os where
  "demo_keyos = \<lparr>os_env = Map.empty, os_home = None, os_configIn = (\<lambda>h. h), os_files = [''/k'' \<mapsto> (''k'' @ [newline], None)],
     os_mkdir = (\<lambda>_. None), os_write = (\<lambda>_. None)\<rparr>"

definition demo_nodisk :: disk where
  "demo_nodisk = \<lparr>dk_stat = (\<lambda>_. Inl ''no such file''), dk_load = (\<lambda>_ _. Inl ''no such file'')\<rparr>"

definition demo_srvflags :: srvflags where
  "demo_srvflags = defaultSrvFlags\<lparr>vf_signingKeyFile := ''/k'', vf_scheme := ''https'', vf_tlsCertFile := ''/c'', vf_tlsKeyFile := ''/p''\<rparr>"

lemma demo_key: "loadSigningKey demo_keyos ''/k'' = Inr ''k''"
proof -
  have "TrimSpace (''k'' @ [newline]) = ''k''" by (simp add: TrimSpace_ascii isAscii_def asciiSpace_def)
  then show ?thesis by (simp add: loadSigningKey_def readFileText_def demo_keyos_def)
qed

lemma demo_starts: "\<exists>srv cert. srvRun demo_lib (\<lambda>_. None) demo_keyos demo_nodisk 0 None demo_srvflags = Inr (srv, cert) \<and> au_revoked (sv_auth srv) = []"
proof -
  have v: "vf_signingKeyFile demo_srvflags = ''/k''" "vf_scheme demo_srvflags = ''https''" "vf_authStub demo_srvflags = False"
    "vf_showVersion demo_srvflags = False" "vf_authFile demo_srvflags = []" "vf_revokedFile demo_srvflags = []" "vf_reservedFile demo_srvflags = []"
    "vf_authTokens demo_srvflags = []" "vf_tlsCertFile demo_srvflags = ''/c''" "vf_tlsKeyFile demo_srvflags = ''/p''"
    "vf_controlTLSAddr demo_srvflags = '':7002''"
    by (simp_all add: demo_srvflags_def defaultSrvFlags_def)
  have o: "authOptionsOf demo_keyos demo_srvflags ''k'' = \<lparr>ao_Tokens = [], ao_AuthFile = [], ao_SigningKey = ''k'', ao_RevokedFile = [],
      ao_ReservedFile = [], ao_Reserved = []\<rparr>"
    by (simp add: authOptionsOf_def v Getenv_def demo_keyos_def)
  define auth where "auth = \<lparr>au_tokens = [], au_reserved = [], au_reservedNames = [], au_signing = ''k'', au_revoked = [], au_open = False\<rparr>"
  have "staticTokens [] = []" by (simp add: staticTokens_def)
  then have "NewAuthenticatorWith demo_lib (os_files demo_keyos) (\<lambda>_. None) (authOptionsOf demo_keyos demo_srvflags ''k'') = Inr auth"
    unfolding o by (simp add: NewAuthenticatorWith_def withAuthFile_def withRevoked_def withReservedFile_def withReserved_def
        checkHolders_def setOpen_def bindE_def auth_def)
  then show ?thesis
    by (simp add: srvRun_def v demo_key controlCert_def forwardAuth_def New_def srvConfig_def bindE_def Let_def auth_def)
qed

theorem server_starts_witness:
  "\<exists>srv cert. srvRun demo_lib (\<lambda>_. None) demo_keyos demo_nodisk 0 None demo_srvflags = Inr (srv, cert) \<and>
     tlsEnabled (sv_cfg srv) \<and> \<not> Enabled (cfg_FA (sv_cfg srv)) \<and> sv_reg srv = NewRegistry"
proof -
  obtain srv cert where s: "srvRun demo_lib (\<lambda>_. None) demo_keyos demo_nodisk 0 None demo_srvflags = Inr (srv, cert)" using demo_starts by blast
  have "vf_tlsCertFile demo_srvflags = ''/c''" "vf_tlsKeyFile demo_srvflags = ''/p''" "vf_controlTLSAddr demo_srvflags = '':7002''"
    "\<not> vf_authStub demo_srvflags"
    by (simp_all add: demo_srvflags_def defaultSrvFlags_def)
  with server_starts [OF s] s show ?thesis by auto
qed

theorem minted_accepted_witness:
  "\<exists>tid tok srv cert. runMint demo_lib demo_keyos 0 (Some [CHR ''A'']) ''/k'' \<lparr>mo_Sub = ''hop'', mo_TTL = 60 * 10 ^ 9, mo_Prot = True\<rparr> = Inr (tid, tok) \<and>
     srvRun demo_lib (\<lambda>_. None) demo_keyos demo_nodisk 0 None demo_srvflags = Inr (srv, cert) \<and>
     Check demo_lib 0 (sv_auth srv) tok = None \<and> ReservedSubdomain demo_lib 0 (sv_auth srv) tok = ''hop''"
proof -
  let ?o = "\<lparr>mo_Sub = ''hop'', mo_TTL = 60 * 10 ^ 9, mo_Prot = True\<rparr>"
  have "\<exists>tok. MintWith demo_lib 0 (Some [CHR ''A'']) ''k'' ?o = Inr tok"
    by (simp add: MintWith_def randomID_def hexEncode_def hex_digit_def demo_lib_def demo_claims_def unix_def char_of_def bit_0)
  then obtain tid tok where m: "runMint demo_lib demo_keyos 0 (Some [CHR ''A'']) ''/k'' ?o = Inr (tid, tok)"
    by (auto simp: runMint_def demo_key)
  obtain srv cert where s: "srvRun demo_lib (\<lambda>_. None) demo_keyos demo_nodisk 0 None demo_srvflags = Inr (srv, cert)" and r: "au_revoked (sv_auth srv) = []"
    using demo_starts by blast
  have f: "vf_signingKeyFile demo_srvflags = ''/k''" by (simp add: demo_srvflags_def)
  have "list_all isAscii (mo_Sub ?o)" "(0 :: int) \<le> 0" "0 + mo_TTL ?o < 2 ^ 63" "mo_TTL ?o \<le> 0 \<or> unix 0 \<le> unix (0 + mo_TTL ?o)"
    by (simp_all add: isAscii_def unix_def)
  from minted_accepted [OF m [folded f] s demo_lib_json this] m s r show ?thesis by auto
qed

end
