(* ===== verification/Listen.thy ===== *)
theory Listen
  imports Control_Props "HOL-Library.List_Lexorder" "HOL-Library.Char_ord"
begin

text \<open>
  The life of a running server, \<^verbatim>\<open>ListenAndServe\<close> in \<^verbatim>\<open>internal/server/control.go\<close>: up to four listeners, each served by a goroutine that
  reports exactly one error when its listener fails or is closed; a main goroutine that waits for the first such error or for the
  cancellation of its context, closes all listeners, collects the remaining reports and returns. Accepted control
  connections run their handshake in goroutines of their own, so they are pending here until a step serves them. The goroutines'
  interleavings are the runs of the step relation \<open>sg_step\<close>.
\<close>

section \<open>What the server says when it is up\<close>

definition ReservedNames :: "authenticator \<Rightarrow> string list" where
  "ReservedNames a = sort (map fst (au_reservedNames a))"

definition plural :: "int \<Rightarrow> string" where
  "plural n = (if n = 1 then [] else ''s'')"

definition authMode :: "authenticator \<Rightarrow> string" where
  "authMode a =
     (if Open a then ''open (no auth)''
      else let n = int (StaticTokenCount a)
           in ''token auth ('' @ Itoa n @ '' static token'' @ plural n @ (if SignedEnabled a then '' + signed tokens'' else []) @ '')'') @
     (if ReservedNames a \<noteq> [] then '' reserved='' @ Join (ReservedNames a) '','' else [])"

datatype lname = LControl | LProxy | LControlTLS | LAsk

definition listenersOf :: "listeners \<Rightarrow> lname list" where
  "listenersOf ln = [LControl, LProxy] @ (if ln_controlTLS ln then [LControlTLS] else []) @ (if ln_ask ln then [LAsk] else [])"

text \<open>The line it logs; \<open>addr\<close> is the address each listener was bound to.\<close>

definition upLine :: "(lname \<Rightarrow> string) \<Rightarrow> server \<Rightarrow> listeners \<Rightarrow> string" where
  "upLine addr s ln =
     ''munnel-server up '' @ utf8 [0xE2, 0x80, 0x94] @ '' domain='' @ cfg_Domain (sv_cfg s) @
     '' control='' @ addr LControl @ (if ln_controlTLS ln then '' control-tls='' @ addr LControlTLS else []) @
     '' proxy='' @ addr LProxy @ (if ln_ask ln then '' ask='' @ addr LAsk else []) @ '' auth='' @ authMode (sv_auth s)"

section \<open>The goroutines\<close>

datatype serve_err = ControlAccept string | HttpServe string

datatype phase = Selecting | Draining nat "serve_err option" | Ended "serve_err option"

record serving =
  sg_srv :: server
  sg_listeners :: "lname list"
  sg_open :: "lname list"
  sg_running :: "lname list"
  sg_errCh :: "serve_err list"
  sg_conns :: "bool list"
  sg_ctx :: bool
  sg_phase :: phase

text \<open>\<^verbatim>\<open>strings.Contains\<close>; \<^verbatim>\<open>serveProxyHTTP\<close> inspects the error and returns it in either case.\<close>

definition Contains :: "string \<Rightarrow> string \<Rightarrow> bool" where
  "Contains s sub \<longleftrightarrow> list_ex (\<lambda>i. HasPrefix (drop i s) sub) [0..<Suc (length s)]"

definition isClosedErr :: "string \<Rightarrow> bool" where
  "isClosedErr e \<longleftrightarrow> Contains e ''closed''"

definition serveProxyHTTP :: "string \<Rightarrow> serve_err" where
  "serveProxyHTTP e = (if e = ''http: Server closed'' \<or> isClosedErr e then HttpServe e else HttpServe e)"

definition serveAsk :: "string \<Rightarrow> serve_err" where
  "serveAsk e = HttpServe e"

definition startServing :: "server \<Rightarrow> listeners \<Rightarrow> serving" where
  "startServing s ln =
     \<lparr>sg_srv = s, sg_listeners = listenersOf ln, sg_open = listenersOf ln, sg_running = listenersOf ln, sg_errCh = [],
      sg_conns = [], sg_ctx = False, sg_phase = Selecting\<rparr>"

definition ListenAndServe :: "(string \<Rightarrow> bool) \<Rightarrow> server \<Rightarrow> listeners \<Rightarrow> bind_err + serving" where
  "ListenAndServe can s ln =
     (case Bind can (sv_cfg s) ln of
        (Some e, ln1) \<Rightarrow> Inl e
      | (None, ln1) \<Rightarrow> Inr (startServing s ln1))"

text \<open>
  One goroutine's steps: \<^verbatim>\<open>acceptLoop\<close> gets a connection and leaves it to a new goroutine; a loop over a listener ends and its error goes
  to the channel, which has room for all of them.
\<close>

definition acceptConn :: "lname \<Rightarrow> serving \<Rightarrow> serving" where
  "acceptConn l g = g\<lparr>sg_conns := sg_conns g @ [l = LControlTLS]\<rparr>"

definition loopError :: "lname \<Rightarrow> string \<Rightarrow> serve_err" where
  "loopError l e = (case l of LControl \<Rightarrow> ControlAccept e | LControlTLS \<Rightarrow> ControlAccept e | LProxy \<Rightarrow> serveProxyHTTP e | LAsk \<Rightarrow> serveAsk e)"

definition loopEnds :: "lname \<Rightarrow> string \<Rightarrow> serving \<Rightarrow> serving" where
  "loopEnds l e g = g\<lparr>sg_running := remove1 l (sg_running g), sg_errCh := sg_errCh g @ [loopError l e]\<rparr>"

definition closeAll :: "serving \<Rightarrow> serving" where
  "closeAll g = g\<lparr>sg_open := []\<rparr>"

text \<open>The two cases of the main goroutine's \<^verbatim>\<open>select\<close>, then its collecting loop.\<close>

definition takeError :: "serve_err \<Rightarrow> serve_err list \<Rightarrow> serving \<Rightarrow> serving" where
  "takeError e es g = (closeAll g)\<lparr>sg_errCh := es, sg_phase := Draining (length (sg_listeners g) - 1) (Some e)\<rparr>"

definition takeDone :: "serving \<Rightarrow> serving" where
  "takeDone g = (closeAll g)\<lparr>sg_phase := Draining (length (sg_listeners g)) None\<rparr>"

definition drainOne :: "nat \<Rightarrow> serve_err option \<Rightarrow> serve_err list \<Rightarrow> serving \<Rightarrow> serving" where
  "drainOne k r es g = g\<lparr>sg_errCh := es, sg_phase := Draining k r\<rparr>"

section \<open>Steps\<close>

text \<open>The steps that take a server to its end (\<open>sg_down\<close>) and the life of its tunnels.\<close>

inductive sg_down :: "serving \<Rightarrow> serving \<Rightarrow> bool" where
  sd_loop: "l \<in> set (sg_running g) \<Longrightarrow> sg_down g (loopEnds l e g)"
| sd_err: "sg_phase g = Selecting \<Longrightarrow> sg_errCh g = e # es \<Longrightarrow> sg_down g (takeError e es g)"
| sd_done: "sg_phase g = Selecting \<Longrightarrow> sg_ctx g \<Longrightarrow> sg_down g (takeDone g)"
| sd_drain: "sg_phase g = Draining (Suc k) r \<Longrightarrow> sg_errCh g = e # es \<Longrightarrow> sg_down g (drainOne k r es g)"
| sd_return: "sg_phase g = Draining 0 r \<Longrightarrow> sg_down g (g\<lparr>sg_phase := Ended r\<rparr>)"

inductive_cases sg_downE: "sg_down g h"

inductive sg_step :: "serving \<Rightarrow> serving \<Rightarrow> bool" where
  ss_down: "sg_down g h \<Longrightarrow> sg_step g h"
| ss_cancel: "sg_step g (g\<lparr>sg_ctx := True\<rparr>)"
| ss_accept: "l \<in> set (sg_open g) \<Longrightarrow> l \<in> set (sg_running g) \<Longrightarrow> l = LControl \<or> l = LControlTLS \<Longrightarrow> sg_step g (acceptConn l g)"
| ss_conn: "i < length (sg_conns g) \<Longrightarrow> \<not> w_closed w \<Longrightarrow>
     handshake (L :: ctl_lib) clk rnd (sg_conns g ! i) remote rd w (sg_srv g) = (hs, w', s') \<Longrightarrow>
     sg_step g (g\<lparr>sg_srv := s', sg_conns := take i (sg_conns g) @ drop (Suc i) (sg_conns g)\<rparr>)"
| ss_tunnelDown: "sg_step g (g\<lparr>sg_srv := tunnelDown c (sg_srv g)\<rparr>)"
| ss_session: "i < length (sv_sess (sg_srv g)) \<Longrightarrow> mux_op (sv_sess (sg_srv g) ! i) x \<Longrightarrow>
     sg_step g (g\<lparr>sg_srv := (sg_srv g)\<lparr>sv_sess := (sv_sess (sg_srv g))[i := x]\<rparr>\<rparr>)"

lemmas sg_ops = acceptConn_def loopEnds_def closeAll_def takeError_def takeDone_def drainOne_def

section \<open>Shutting down\<close>

text \<open>Of the reports the channel can get, each is still to come, in the channel, or already taken.\<close>

definition dueReports :: "serving \<Rightarrow> nat" where
  "dueReports g = (case sg_phase g of Selecting \<Rightarrow> length (sg_listeners g) | Draining k r \<Rightarrow> k | Ended r \<Rightarrow> 0)"

definition result :: "serving \<Rightarrow> serve_err option option" where
  "result g = (case sg_phase g of Selecting \<Rightarrow> None | Draining k r \<Rightarrow> Some r | Ended r \<Rightarrow> Some r)"

definition serving_ok :: "serving \<Rightarrow> bool" where
  "serving_ok g \<longleftrightarrow>
     length (sg_running g) + length (sg_errCh g) = dueReports g \<and>
     dueReports g \<le> length (sg_listeners g) \<and> (result g \<noteq> None \<longrightarrow> sg_open g = []) \<and> (result g = Some None \<longrightarrow> sg_ctx g)"

lemma Suc_length_remove1: "x \<in> set xs \<Longrightarrow> Suc (length (remove1 x xs)) = length xs"
  by (induction xs) auto

lemma startServing_ok: "serving_ok (startServing s ln)"
  by (simp add: serving_ok_def startServing_def dueReports_def result_def)

lemma sg_down_ok: "sg_down g h \<Longrightarrow> serving_ok g \<Longrightarrow> serving_ok h"
  by (induction rule: sg_down.induct)
     (auto simp: serving_ok_def sg_ops dueReports_def result_def split: phase.splits dest!: Suc_length_remove1)

lemma sg_step_ok: "sg_step g h \<Longrightarrow> serving_ok g \<Longrightarrow> serving_ok h"
proof (induction rule: sg_step.induct)
  case (ss_down g h)
  then show ?case by (rule sg_down_ok)
qed (auto simp: serving_ok_def sg_ops dueReports_def result_def split: phase.splits)

interpretation serv: invariant_system "\<lambda>g. g = startServing s ln" sg_step serving_ok
  by unfold_locales (auto simp: startServing_ok intro: sg_step_ok)

text \<open>How many such steps are left, and whether the server has a reason to stop.\<close>

definition work :: "serving \<Rightarrow> nat" where
  "work g = 2 * length (sg_running g) + length (sg_errCh g) +
     (case sg_phase g of Selecting \<Rightarrow> 2 | Draining k r \<Rightarrow> 1 | Ended r \<Rightarrow> 0)"

definition stopping :: "serving \<Rightarrow> bool" where
  "stopping g \<longleftrightarrow> sg_ctx g \<or> sg_errCh g \<noteq> [] \<or> sg_phase g \<noteq> Selecting"

lemma sg_down_work: "sg_down g h \<Longrightarrow> work h < work g"
proof (induction rule: sg_down.induct)
  case (sd_loop l g e)
  from Suc_length_remove1 [OF this] show ?case by (simp add: work_def loopEnds_def split: phase.split)
qed (simp_all add: work_def takeError_def takeDone_def closeAll_def drainOne_def)

lemma sg_down_stopping: "sg_down g h \<Longrightarrow> stopping g \<Longrightarrow> stopping h"
  by (induction rule: sg_down.induct) (auto simp: stopping_def sg_ops)

lemma sg_down_progress:
  assumes "serving_ok g" and "stopping g" and "\<And>r. sg_phase g \<noteq> Ended r"
  shows "\<exists>h. sg_down g h"
proof (cases "sg_phase g")
  case Selecting
  with assms(2) show ?thesis by (cases "sg_errCh g") (auto simp: stopping_def intro: sg_down.intros)
next
  case (Draining k r)
  show ?thesis
  proof (cases k)
    case 0
    with Draining show ?thesis by (auto intro: sg_down.sd_return)
  next
    case (Suc j)
    with Draining assms(1) have "sg_running g \<noteq> [] \<or> sg_errCh g \<noteq> []" by (auto simp: serving_ok_def dueReports_def)
    then show ?thesis
    proof
      assume "sg_running g \<noteq> []"
      then have "hd (sg_running g) \<in> set (sg_running g)" by simp
      then show ?thesis by (blast intro: sg_down.sd_loop)
    next
      assume "sg_errCh g \<noteq> []"
      with Draining Suc show ?thesis by (cases "sg_errCh g") (auto intro: sg_down.sd_drain)
    qed
  qed
next
  case (Ended r)
  with assms(3) [of r] show ?thesis by blast
qed

interpretation down: settling_system sg_down "\<lambda>g. serving_ok g \<and> stopping g" work "\<lambda>g. \<exists>r. sg_phase g = Ended r"
  by unfold_locales (auto intro: sg_down_ok sg_down_stopping sg_down_work sg_down_progress)

lemma returned_clean:
  assumes "serving_ok g" and "sg_phase g = Ended r"
  shows "sg_open g = [] \<and> sg_running g = [] \<and> sg_errCh g = [] \<and> (r = None \<longrightarrow> sg_ctx g)"
  using assms by (auto simp: serving_ok_def dueReports_def result_def)

section \<open>Names over plaintext\<close>

lemma finishHandshake_Get:
  assumes "finishHandshake L name c ev i protected s0 = (hs, s')" and "Get m (sv_reg s') = Some k"
  shows "Get m (sv_reg s0) = Some k"
  using assms
  by (auto simp: finishHandshake_def Let_def reg_sim_Get [OF reg_sims(1)] reg_sim_Get [OF reg_sims(2)] Get_Unregister
      split: prod.splits option.splits if_splits)

lemma openTunnel_Get:
  assumes "openTunnel L clk rnd remote tok sub protected w s = (hs, w', s')" and "Get m (sv_reg s') = Some k"
    and "Get m (sv_reg s) = None"
  shows "if sub = [] then \<not> IsReserved (sv_auth s) m else m = sub"
proof (cases rule: openTunnel_cases [of L clk rnd remote tok sub protected w s])
  case (1 why)
  with assms show ?thesis by (auto simp: reject_def rejectCode_def)
next
  case (2 name c ev j r1 hs2 s2)
  have "Get m r1 = Some k" using finishHandshake_Get [OF 2(3)] assms(1,2) 2(4) by simp
  then have "m = name" using Register_Some(4) [OF 2(1)] assms(3) by (auto simp: Get_def go_map_simps split: if_splits)
  with 2(2) show ?thesis by (auto split: if_splits)
qed

text \<open>A handshake over the plaintext port never makes anyone the holder of a reserved name.\<close>

lemma plaintext_handshake:
  assumes "handshake L clk rnd False remote rd w s = (hs, w', s')" and "Get m (sv_reg s') = Some k" and "IsReserved (sv_auth s) m"
  shows "\<exists>k'. Get m (sv_reg s) = Some k'"
proof (rule ccontr)
  assume new: "\<nexists>k'. Get m (sv_reg s) = Some k'"
  obtain h where h: "fst (ReadMessage (k_hello L) rd) = Inr h"
    using assms(1,2) new by (cases "fst (ReadMessage (k_hello L) rd)") (auto simp: handshake_def)
  show False
  proof (cases "hs_admitted L clk False s h")
    case True
    have "m = hs_sub L clk s h \<and> hs_sub L clk s h \<noteq> []"
      using openTunnel_Get [OF assms(1) [unfolded handshake_admitted [OF h True]] assms(2)] new assms(3) by (auto split: if_splits)
    with True assms(3) show False by (auto simp: hs_admitted_def CheckReserved_def IsReserved_def Let_def split: option.splits if_splits)
  next
    case False
    with handshake_not_admitted [OF h, of clk False s rnd remote w] assms(1,2) new show False by (auto simp: rejectCode_def)
  qed
qed

definition plain_only :: "authenticator \<Rightarrow> serving \<Rightarrow> bool" where
  "plain_only a g \<longleftrightarrow>
     sv_auth (sg_srv g) = a \<and> server_ok (sg_srv g) \<and> LControlTLS \<notin> set (sg_open g) \<and> (\<forall>b \<in> set (sg_conns g). \<not> b) \<and>
     (\<forall>m k. Get m (sv_reg (sg_srv g)) = Some k \<longrightarrow> \<not> IsReserved a m)"

lemma sg_down_plain: "sg_down g h \<Longrightarrow> sg_srv h = sg_srv g \<and> sg_conns h = sg_conns g \<and> set (sg_open h) \<subseteq> set (sg_open g)"
  by (induction rule: sg_down.induct) (simp_all add: sg_ops)

lemma sg_step_plain: "sg_step g h \<Longrightarrow> plain_only a g \<Longrightarrow> plain_only a h"
proof (induction rule: sg_step.induct)
  case (ss_down g h)
  from sg_down_plain [OF this(1)] this(2) show ?case by (auto simp: plain_only_def)
next
  case (ss_conn i g w L clk rnd remote rd hs w' s')
  have ok: "server_ok (sg_srv g)" and a: "sv_auth (sg_srv g) = a" and "\<not> sg_conns g ! i"
    using ss_conn.prems nth_mem [OF ss_conn.hyps(1)] unfolding plain_only_def by blast+
  then have hs: "handshake L clk rnd False remote rd w (sg_srv g) = (hs, w', s')" using ss_conn.hyps(3) by simp
  have "server_ok s'" "sv_auth s' = a" using handshake_ok [OF ok ss_conn.hyps(2) hs] a by simp_all
  moreover have "\<not> IsReserved a m" if "Get m (sv_reg s') = Some k" for m k
    using plaintext_handshake [OF hs that] ss_conn.prems a by (auto simp: plain_only_def)
  moreover have "\<forall>b \<in> set (take i (sg_conns g) @ drop (Suc i) (sg_conns g)). \<not> b"
    using ss_conn.prems by (auto simp: plain_only_def dest: in_set_takeD in_set_dropD)
  ultimately show ?case using ss_conn.prems by (simp add: plain_only_def)
next
  case (ss_tunnelDown g c)
  then show ?case
    by (simp add: plain_only_def tunnelDown_def server_ok_Unregister Get_Unregister split: option.splits) blast
next
  case (ss_session i g x)
  then have "sess_ok x" using mux_op_ok server_ok_nth by (auto simp: plain_only_def)
  with ss_session show ?case by (simp add: plain_only_def server_ok_sess) blast
qed (auto simp: plain_only_def acceptConn_def)

lemma reach_mono: "reach i st g \<Longrightarrow> (\<And>x. i x \<Longrightarrow> j x) \<Longrightarrow> reach j st g"
  by (induction rule: reach.induct) (auto intro: reach.intros)

definition plainStart :: "authenticator \<Rightarrow> serving \<Rightarrow> bool" where
  "plainStart a g \<longleftrightarrow> (\<exists>s ln. g = startServing s ln \<and> srv_init a s \<and> \<not> ln_controlTLS ln)"

interpretation plain: invariant_system "plainStart a" sg_step "plain_only a"
proof
  fix g
  assume "plainStart a g"
  then obtain s ln where g: "g = startServing s ln" "srv_init a s" "\<not> ln_controlTLS ln" by (auto simp: plainStart_def)
  then have "server_ok s" using srv.inv_init by blast
  with g show "plain_only a g"
    by (simp add: plain_only_def startServing_def listenersOf_def srv_init_def NewRegistry_def Get_def)
qed (rule sg_step_plain)

section \<open>Properties\<close>



text \<open>
  Without a TLS listener nobody holds a reserved name: on a server whose TLS control port is not bound, no run of accepts, handshakes,
  tunnels going down and sessions working leads to a state in which a reserved name belongs to a client.
\<close>

theorem reserved_need_tls_port:
  assumes "reach (plainStart a) sg_step g" and "IsReserved a name"
  shows "Get name (sv_reg (sg_srv g)) = None"
  using plain.reach_inv [OF assms(1)] assms(2) by (cases "Get name (sv_reg (sg_srv g))") (auto simp: plain_only_def)

theorem reserved_need_tls_port_witness:
  "Get ''hop'' (sv_reg (sg_srv (acceptConn LControl (startServing demo_srv \<lparr>ln_control = True, ln_controlTLS = False, ln_proxy = True, ln_ask = True\<rparr>)))) = None"
proof -
  let ?g = "startServing demo_srv \<lparr>ln_control = True, ln_controlTLS = False, ln_proxy = True, ln_ask = True\<rparr>"
  have "srv_init demo_auth demo_srv" by (simp add: srv_init_def demo_srv_def)
  then have "plainStart demo_auth ?g" unfolding plainStart_def by (intro exI conjI) (rule refl, simp_all)
  moreover have "sg_step ?g (acceptConn LControl ?g)"
    by (rule sg_step.ss_accept) (simp_all add: startServing_def listenersOf_def)
  ultimately have "reach (plainStart demo_auth) sg_step (acceptConn LControl ?g)"
    by (rule reach.reach_step [where step = sg_step, OF reach.reach_init [where init = "plainStart demo_auth"]])
  moreover have "IsReserved demo_auth ''hop''" by (simp add: IsReserved_def demo_auth_def)
  ultimately show ?thesis by (rule reserved_need_tls_port)
qed

end
