(* ===== verification/Server_Prog.thy ===== *)
theory Server_Prog
  imports Server_Main Listen Flagpkg
begin

text \<open>
  The server program from its arguments to its exit code: \<^verbatim>\<open>run\<close> and \<^verbatim>\<open>runMint\<close> of \<^verbatim>\<open>cmd/server/main.go\<close> with their flag sets, what they print, and the
  life of the server between (theory \<^verbatim>\<open>Listen\<close>). How a time is printed and a string quoted, and the parser of durations, are the fields of \<open>prlib\<close>.
\<close>

section \<open>Flags\<close>

definition srvFlagDefs :: "(string \<times> srvflags flagdef) list" where
  "srvFlagDefs =
     [(''domain'', stringFlag (\<lambda>v f. f\<lparr>vf_domain := v\<rparr>)), (''control-addr'', stringFlag (\<lambda>v f. f\<lparr>vf_controlAddr := v\<rparr>)),
      (''control-tls-addr'', stringFlag (\<lambda>v f. f\<lparr>vf_controlTLSAddr := v\<rparr>)), (''tls-cert-file'', stringFlag (\<lambda>v f. f\<lparr>vf_tlsCertFile := v\<rparr>)),
      (''tls-key-file'', stringFlag (\<lambda>v f. f\<lparr>vf_tlsKeyFile := v\<rparr>)), (''proxy-addr'', stringFlag (\<lambda>v f. f\<lparr>vf_proxyAddr := v\<rparr>)),
      (''ask-addr'', stringFlag (\<lambda>v f. f\<lparr>vf_askAddr := v\<rparr>)), (''auth-tokens'', stringFlag (\<lambda>v f. f\<lparr>vf_authTokens := v\<rparr>)),
      (''auth-file'', stringFlag (\<lambda>v f. f\<lparr>vf_authFile := v\<rparr>)), (''signing-key-file'', stringFlag (\<lambda>v f. f\<lparr>vf_signingKeyFile := v\<rparr>)),
      (''revoked-file'', stringFlag (\<lambda>v f. f\<lparr>vf_revokedFile := v\<rparr>)), (''reserved-file'', stringFlag (\<lambda>v f. f\<lparr>vf_reservedFile := v\<rparr>)),
      (''auth-stub'', BoolFlag (\<lambda>b f. f\<lparr>vf_authStub := b\<rparr>)), (''session-key-file'', stringFlag (\<lambda>v f. f\<lparr>vf_sessionKeyFile := v\<rparr>)),
      (''enroll-password'', stringFlag (\<lambda>v f. f\<lparr>vf_enrollPassword := v\<rparr>)), (''public-scheme'', stringFlag (\<lambda>v f. f\<lparr>vf_scheme := v\<rparr>)),
      (''public-port'', stringFlag (\<lambda>v f. f\<lparr>vf_publicPort := v\<rparr>)), (''max-body-mb'', intFlag (\<lambda>n f. f\<lparr>vf_maxBodyMB := n\<rparr>)),
      (''version'', BoolFlag (\<lambda>b f. f\<lparr>vf_showVersion := b\<rparr>))]"

record mintflags =
  mf_sub :: string
  mf_ttl :: int
  mf_protect :: bool
  mf_keyFile :: string

definition defaultMintFlags :: mintflags where
  "defaultMintFlags = \<lparr>mf_sub = [], mf_ttl = 0, mf_protect = False, mf_keyFile = []\<rparr>"

record prlib =
  pr_duration :: "string \<Rightarrow> int option"
  pr_rfc3339 :: "int \<Rightarrow> string"
  pr_quote :: "string \<Rightarrow> string"

definition mintFlagDefs :: "prlib \<Rightarrow> (string \<times> mintflags flagdef) list" where
  "mintFlagDefs P =
     [(''sub'', stringFlag (\<lambda>v f. f\<lparr>mf_sub := v\<rparr>)), (''ttl'', durationFlag (pr_duration P) (\<lambda>n f. f\<lparr>mf_ttl := n\<rparr>)),
      (''protect'', BoolFlag (\<lambda>b f. f\<lparr>mf_protect := b\<rparr>)), (''key-file'', stringFlag (\<lambda>v f. f\<lparr>mf_keyFile := v\<rparr>))]"

section \<open>Minting\<close>

text \<open>\<open>later\<close> is the clock when the expiry is printed.\<close>

definition mintText :: "prlib \<Rightarrow> int \<Rightarrow> mintflags \<Rightarrow> string \<Rightarrow> string \<Rightarrow> string" where
  "mintText P later f tid tok =
     ''token: '' @ tid @ [newline] @ tok @ [newline] @
     (if 0 < mf_ttl f then ''expires: '' @ pr_rfc3339 P (later + mf_ttl f) else ''expires: never'') @ [newline] @
     (if mf_protect f then ''protect: forward-auth mandated on this tunnel'' @ [newline] else []) @
     [newline] @ ''To revoke, add the token id above to --revoked-file and restart.'' @ [newline] @
     (if mf_sub f \<noteq> []
      then ''To reserve '' @ pr_quote P (mf_sub f) @ '' for this token only (TLS only), add '' @ [CHR 34] @ mf_sub f @ '' '' @ tid @ [CHR 34] @
           '' to --reserved-file and restart.'' @ [newline] else [])"

definition mintMain :: "'x lib_scheme \<Rightarrow> prlib \<Rightarrow> os \<Rightarrow> int \<Rightarrow> int \<Rightarrow> string option \<Rightarrow> string list \<Rightarrow> int \<times> string" where
  "mintMain L P w now later rnd args =
     (case flagParse (mintFlagDefs P) args defaultMintFlags of
        Inl e \<Rightarrow> (exitOnError e, [])
      | Inr (f, left) \<Rightarrow>
          (case runMint L w now rnd (mf_keyFile f) \<lparr>mo_Sub = mf_sub f, mo_TTL = mf_ttl f, mo_Prot = mf_protect f\<rparr> of
             Inl code \<Rightarrow> (code, [])
           | Inr (tid, tok) \<Rightarrow> (0, mintText P later f tid tok)))"

section \<open>The server\<close>

datatype server_end = ServerExit int string | Serving serving "certfile option"

definition noListeners :: listeners where
  "noListeners = \<lparr>ln_control = False, ln_controlTLS = False, ln_proxy = False, ln_ask = False\<rparr>"

definition serverMain ::
  "'x lib_scheme \<Rightarrow> prlib \<Rightarrow> (string \<Rightarrow> (string \<times> string) list option) \<Rightarrow> os \<Rightarrow> disk \<Rightarrow> (string \<Rightarrow> bool) \<Rightarrow> int \<Rightarrow> int \<Rightarrow> string option \<Rightarrow>
     string list \<Rightarrow> server_end" where
  "serverMain L P json w d can now later rnd args =
     (if args \<noteq> [] \<and> hd args = ''mint'' then (case mintMain L P w now later rnd (tl args) of (code, out) \<Rightarrow> ServerExit code out)
      else case flagParse srvFlagDefs args defaultSrvFlags of
        Inl e \<Rightarrow> ServerExit (exitOnError e) []
      | Inr (v, left) \<Rightarrow>
          (case srvRun L json w d now rnd v of
             Inl code \<Rightarrow> ServerExit code (if vf_showVersion v then ''munnel-server dev'' @ [newline] else [])
           | Inr (srv, cert) \<Rightarrow>
               (case ListenAndServe can srv noListeners of
                  Inl e \<Rightarrow> ServerExit 1 []
                | Inr g \<Rightarrow> Serving g cert)))"

text \<open>The exit code once \<^verbatim>\<open>ListenAndServe\<close> has returned.\<close>

definition serverExit :: "serving \<Rightarrow> int option" where
  "serverExit g = (case sg_phase g of Ended None \<Rightarrow> Some 0 | Ended (Some e) \<Rightarrow> Some 1 | _ \<Rightarrow> None)"

section \<open>What starts from a command line\<close>

lemma Bind_listeners:
  assumes "Bind can c noListeners = (None, ln)"
  shows "ln_control ln \<and> ln_proxy ln \<and> (ln_controlTLS ln \<longleftrightarrow> tlsEnabled c) \<and> (ln_ask ln \<longleftrightarrow> cfg_AskAddr c \<noteq> [])"
  using assms by (auto simp: Bind_def noListeners_def Let_def split: if_splits)

lemma New_ask: "New L fs json cfg = Inr srv \<Longrightarrow> cfg_AskAddr (sv_cfg srv) = cfg_AskAddr cfg \<and> sv_sess srv = []"
  by (auto simp: New_def Let_def bindE_def split: option.splits sum.splits)

lemma serverMain_Serving:
  assumes "serverMain L P json w d can now later rnd args = Serving g cert"
  obtains v left srv ln where "flagParse srvFlagDefs args defaultSrvFlags = Inr (v, left)" and "srvRun L json w d now rnd v = Inr (srv, cert)"
    and "Bind can (sv_cfg srv) noListeners = (None, ln)" and "g = startServing srv ln" and "srv_init (sv_auth srv) srv"
proof -
  from assms obtain v left srv ln where r: "flagParse srvFlagDefs args defaultSrvFlags = Inr (v, left)" "srvRun L json w d now rnd v = Inr (srv, cert)"
    "Bind can (sv_cfg srv) noListeners = (None, ln)" "g = startServing srv ln"
    by (auto simp: serverMain_def ListenAndServe_def split: if_splits sum.splits prod.splits option.splits)
  obtain key auth fa where n: "New L (os_files w) json (srvConfig w v auth cert fa) = Inr srv" by (rule srvRun_Inr [OF r(2)])
  have "srv_init (sv_auth srv) srv"
    using New_Inr [OF n, of auth] New_ask [OF n] by (simp add: srv_init_def srvConfig_def)
  with r that show ?thesis by blast
qed

text \<open>
  Property C14. What a command line opens: a server that starts from its arguments listens on the control port and the public port, on the TLS control port exactly if a certificate, a
  key and an address for it were given, and on the certificate check's port exactly if one was given. As long as no certificate is given, no run of
  the server ever reaches a state in which someone holds a reserved name. When it has returned, the exit code is 0 only after a
  cancellation.
\<close>

theorem command_line_server:
  assumes start: "serverMain L P json w d can now later rnd args = Serving g0 cert"
    and run: "reach (\<lambda>g. g = g0) sg_step g"
  shows "\<exists>v left. flagParse srvFlagDefs args defaultSrvFlags = Inr (v, left) \<and>
     set (sg_listeners g0) = {LControl, LProxy} \<union> (if vf_tlsCertFile v \<noteq> [] \<and> vf_tlsKeyFile v \<noteq> [] \<and> vf_controlTLSAddr v \<noteq> [] then {LControlTLS} else {}) \<union>
       (if vf_askAddr v \<noteq> [] then {LAsk} else {}) \<and>
     (vf_tlsCertFile v = [] \<longrightarrow> (\<forall>name. IsReserved (sv_auth (sg_srv g0)) name \<longrightarrow> Get name (sv_reg (sg_srv g)) = None)) \<and>
     (serverExit g = Some 0 \<longrightarrow> sg_ctx g)"
proof -
  from start obtain v left srv ln where v: "flagParse srvFlagDefs args defaultSrvFlags = Inr (v, left)"
    and srv: "srvRun L json w d now rnd v = Inr (srv, cert)" and ln: "Bind can (sv_cfg srv) noListeners = (None, ln)"
    and g0: "g0 = startServing srv ln" and init: "srv_init (sv_auth srv) srv"
    by (rule serverMain_Serving)
  obtain key auth fa where c: "controlCert d now v = Inr cert" and n: "New L (os_files w) json (srvConfig w v auth cert fa) = Inr srv"
    by (rule srvRun_Inr [OF srv])
  have tls: "ln_controlTLS ln \<longleftrightarrow> vf_tlsCertFile v \<noteq> [] \<and> vf_tlsKeyFile v \<noteq> [] \<and> vf_controlTLSAddr v \<noteq> []"
    using Bind_listeners [OF ln] New_Inr [OF n, of auth] controlCert_Inr [OF c] by (auto simp: tlsEnabled_def srvConfig_def)
  have ask: "ln_ask ln \<longleftrightarrow> vf_askAddr v \<noteq> []" using Bind_listeners [OF ln] New_ask [OF n] by (simp add: srvConfig_def)
  have "Get name (sv_reg (sg_srv g)) = None" if "vf_tlsCertFile v = []" "IsReserved (sv_auth srv) name" for name
  proof -
    have "plainStart (sv_auth srv) g0" using g0 init tls that(1) by (auto simp: plainStart_def)
    then have "reach (plainStart (sv_auth srv)) sg_step g" using run by (auto intro: reach_mono)
    then show ?thesis using plain.reach_inv that(2) by (cases "Get name (sv_reg (sg_srv g))") (auto simp: plain_only_def)
  qed
  moreover have "sg_ctx g" if e: "serverExit g = Some 0"
  proof -
    have "serving_ok g" using serv.reach_inv run g0 by blast
    moreover have "sg_phase g = Ended None" using e by (auto simp: serverExit_def split: phase.splits option.splits)
    ultimately show ?thesis using returned_clean by blast
  qed
  moreover have "sg_srv g0 = srv" "sg_listeners g0 = listenersOf ln" by (simp_all add: g0 startServing_def)
  ultimately show ?thesis using v tls ask by (intro exI [of _ v] exI [of _ left]) (auto simp: listenersOf_def)
qed

text \<open>
  An argument that is not a flag hides all that follow it, and the server starts without them: nothing tells the operator of \<^verbatim>\<open>munnel-server serve --auth-tokens x\<close> that
  the server is open to everyone.
\<close>

lemma stray_argument:
  assumes "flagArg a = NotFlag" and "a \<noteq> ''mint''"
  shows "serverMain L P json w d can now later rnd (a # rest) = serverMain L P json w d can now later rnd []"
  using assms by (simp add: serverMain_def flagParse_positional)

section \<open>A server started from its arguments\<close>

definition demo_args :: "string list" where
  "demo_args = map settingArg [(''signing-key-file'', ''/k''), (''public-scheme'', ''https''), (''tls-cert-file'', ''/c''), (''tls-key-file'', ''/p'')]"

lemma demo_args_parse: "flagParse srvFlagDefs demo_args defaultSrvFlags = Inr (demo_srvflags, [])"
  using flagParse_settings [where defs = srvFlagDefs and f = defaultSrvFlags and rest = "[]" and
      kvs = "[(''signing-key-file'', ''/k''), (''public-scheme'', ''https''), (''tls-cert-file'', ''/c''), (''tls-key-file'', ''/p'')]"]
  by (simp add: demo_args_def demo_srvflags_def applyFlag_def srvFlagDefs_def stringFlag_def flagName_def)

theorem command_line_server_witness:
  "\<exists>g0 cert. serverMain demo_lib \<lparr>pr_duration = (\<lambda>_. None), pr_rfc3339 = (\<lambda>_. []), pr_quote = (\<lambda>s. s)\<rparr> (\<lambda>_. None) demo_keyos demo_nodisk
       (\<lambda>_. True) 0 0 None demo_args = Serving g0 cert \<and> set (sg_listeners g0) = {LControl, LProxy, LControlTLS}"
proof -
  let ?P = "\<lparr>pr_duration = (\<lambda>_. None), pr_rfc3339 = (\<lambda>_. []), pr_quote = (\<lambda>s. s)\<rparr>"
  have "hd demo_args \<noteq> ''mint''" by (simp add: demo_args_def settingArg_def)
  moreover obtain srv cert where s: "srvRun demo_lib (\<lambda>_. None) demo_keyos demo_nodisk 0 None demo_srvflags = Inr (srv, cert)"
    using demo_starts by blast
  moreover have "\<exists>g. ListenAndServe (\<lambda>_. True) srv noListeners = Inr g"
    by (simp add: ListenAndServe_def Bind_def noListeners_def Let_def)
  ultimately obtain g0 where g: "serverMain demo_lib ?P (\<lambda>_. None) demo_keyos demo_nodisk (\<lambda>_. True) 0 0 None demo_args = Serving g0 cert"
    by (auto simp: serverMain_def demo_args_parse)
  have f: "vf_tlsCertFile demo_srvflags = ''/c''" "vf_tlsKeyFile demo_srvflags = ''/p''" "vf_controlTLSAddr demo_srvflags = '':7002''"
    "vf_askAddr demo_srvflags = []"
    by (simp_all add: demo_srvflags_def defaultSrvFlags_def)
  have "reach (\<lambda>g. g = g0) sg_step g0" by (rule reach.reach_init) simp
  from command_line_server [OF g this] have "set (sg_listeners g0) = {LControl, LProxy, LControlTLS}"
    by (auto simp: demo_args_parse f)
  with g show ?thesis by blast
qed

end
