(* ===== verification/Spec2Isabelle.thy ===== *)
theory Spec2Isabelle
  imports Upgrade Session_Run Cancel Feed Exchange Tunnel_Props Pages Client_Main Server_Prog
begin

text \<open>
  Verification of munnel, a self-hosted tunnel: a server accepts public HTTP traffic and relays each request over one multiplexed control
  connection to a client, which forwards it to a service on the user's machine. This theory imports the whole development and holds the property that
  spans the two command-line programs; the others stand with their components.

  \<^bold>\<open>The parts and how they interact.\<close> A client dials the server's control port (\<^verbatim>\<open>internal/client/tunnel.go\<close>), sends a hello line and gets an ack
  (\<^verbatim>\<open>internal/proto\<close>); the server checks the token (\<^verbatim>\<open>internal/server/auth.go\<close>, \<^verbatim>\<open>internal/token\<close>), registers the name (\<^verbatim>\<open>registry.go\<close>) and from
  then on both run a multiplexed session on that connection (\<^verbatim>\<open>internal/mux\<close>). A public request (\<^verbatim>\<open>proxy.go\<close>), after forward auth
  (\<^verbatim>\<open>internal/forwardauth\<close>), becomes a stream of that session; the client's forwarder (\<^verbatim>\<open>forwarder.go\<close>) serves the stream, and records the exchange in the
  inspector's store (\<^verbatim>\<open>internal/inspection\<close>), which the user sees in a local web page or in the terminal (\<^verbatim>\<open>internal/tui\<close>).

  \<^bold>\<open>The theories.\<close>
  \<^item> \<open>Prelude\<close>: machine types, collections, reachable states with the locale \<open>invariant_system\<close>, components that come to rest with the locale
    \<open>settling_system\<close>, wire formats with the locale \<open>prefix_codec\<close>.
    \<open>Go_Std\<close>: the parts of Go's strings, strconv, net, bufio, base64 that the sources use, as functions on byte strings.
  \<^item> \<open>Frame\<close> (\<^verbatim>\<open>frame.go\<close>): the 9-byte header, coalesced and split writes, reading; connections as a record of the calls made and a plan of failures.
    Round trip and truncation; \<open>prefix_codec\<close> interpreted on the frames.
  \<^item> \<open>Mux\<close> (\<^verbatim>\<open>session.go\<close>, \<^verbatim>\<open>stream.go\<close>): a session is a record with a heap of streams; every method is a function on it, a call that can block returns
    \<open>None\<close> or a waiting state; what the Go runtime would make of a double close is a counter. \<open>Mux_Inv\<close>: the invariant \<open>sess_ok\<close> and that each operation keeps it,
    \<open>mux_op\<close> with its reachable states. \<open>Mux_Props\<close>, \<open>Mux_Live\<close>: delivery of what was written, closing, aborting, flow control, heartbeat.
    \<open>Link\<close>, \<open>Link_Fifo\<close>: both sessions of a connection with the bytes between them, all interleavings, and a stream as a FIFO. \<open>Session_Run\<close>: \<^verbatim>\<open>Run\<close> with its heartbeat goroutines, to their end. \<open>Pipe\<close>: the two copying goroutines of an upgraded connection;
    \<open>Upgrade\<close>: such a pipe on each side, and the bytes from one network connection to the other. \<open>Cancel\<close>: a viewer who leaves, and the call of the local service.
  \<^item> \<open>Proto\<close> (\<^verbatim>\<open>message.go\<close>), \<open>Token\<close> (\<^verbatim>\<open>token.go\<close>), \<open>Auth\<close> (\<^verbatim>\<open>auth.go\<close>), \<open>Registry\<close> (\<^verbatim>\<open>registry.go\<close>, with the locale \<open>name_service\<close>): the
    pieces of the control plane; \<open>Control\<close>, \<open>Control_Props\<close> (\<^verbatim>\<open>control.go\<close>, \<^verbatim>\<open>ask.go\<close>): the handshake as one step of the server and the
    invariant of all reachable servers; \<open>Listen\<close>: the running server, its listeners' goroutines and its shutdown. \<open>Certfile\<close> (\<^verbatim>\<open>certfile.go\<close>): the reloaded certificate.
  \<^item> \<open>Http\<close>: requests, headers, replies. \<open>Forwardauth\<close> (\<^verbatim>\<open>forwardauth.go\<close>): signed sessions and the login routes. \<open>Proxy\<close>, \<open>Proxy_Props\<close> (\<^verbatim>\<open>proxy.go\<close>): routing, token
    issuance, what is written on a stream. \<open>Pages\<close> (\<^verbatim>\<open>landing.go\<close>, the templates): the HTML of the landing, error, login and denial pages. \<open>Wire\<close>: the bytes of a request on the tunnel and their delivery at the client.
  \<^item> \<open>Forwarder\<close>, \<open>Forwarder_Props\<close> (\<^verbatim>\<open>forwarder.go\<close>); \<open>Exchange\<close>: a request there and its response back, through both sessions.
    \<open>Tunnel\<close>, \<open>Tunnel_Props\<close> (\<^verbatim>\<open>config.go\<close>, \<^verbatim>\<open>tunnel.go\<close>): configuration, handshake, reconnecting, the event channel.
  \<^item> \<open>Store\<close> (\<^verbatim>\<open>store.go\<close>, with the locale \<open>bounded_log\<close>), \<open>Inspector\<close>, \<open>Inspector_Props\<close> (\<^verbatim>\<open>inspection/server.go\<close>, \<^verbatim>\<open>hub.go\<close>): the ring buffer, the guard, the
    routes, the feed; \<open>Feed\<close>: the running inspector and its tabs.
  \<^item> \<open>Cli\<close>, \<open>Cli_Props\<close> (\<^verbatim>\<open>cmd/client\<close>), \<open>Server_Main\<close> (\<^verbatim>\<open>cmd/server\<close>): configuration and the pieces of the two commands; \<open>Flagpkg\<close>: Go's \<^verbatim>\<open>flag\<close> package as far as
    they use it; \<open>Client_Main\<close>, \<open>Server_Prog\<close>: the two programs from their arguments to their exit status and output.
    \<open>Dashboard\<close>, \<open>Dashboard_View\<close> (\<^verbatim>\<open>internal/tui\<close>): the dashboard's state, its styles and the text it draws.

  \<^bold>\<open>How state and effects are modelled.\<close> Structs are records, enums and error values datatypes, a method a function from the state to its result and the new state;
  a failed call is a value of a sum or option type. Frame fields and stream ids are machine words, Go's \<^verbatim>\<open>int\<close> and \<^verbatim>\<open>int64\<close> are integers with the wrap-around
  written out where a value can reach it. Time is a parameter in nanoseconds. Goroutines are interleaved at the granularity of calls: the steps of
  \<open>mux_op\<close>, \<open>srv_op\<close> and \<open>tn_op\<close> are whole calls in any order, the goroutines of a connection, a pipe, a session, a visit, the server and the inspector have step relations of their own
  (\<open>lk_step\<close>, \<open>pipe_step\<close>, \<open>ug_step\<close>, \<open>sr_step\<close>, \<open>vs_step\<close>, \<open>sg_step\<close>, \<open>fd_step\<close>), and where a call runs beside the rest of a session (\<open>Serve\<close>) the session may
  change arbitrarily between its steps through a parameter. JSON, HMAC, SHA-256, Unicode case mapping, URL and certificate handling, \<^verbatim>\<open>net/http\<close>'s transport and
  parsers are fields of the library records (\<open>lib\<close>, \<open>ctl_lib\<close>, \<open>falib\<close>, \<open>plib\<close>, \<open>fwlib\<close>, \<open>clib\<close>, \<open>ilib\<close>, \<open>oslib\<close>, \<open>disk\<close>), with what a property needs of
  them as its hypotheses.

  \<^bold>\<open>Loops.\<close> Every loop is a total function: the read loop decreases the input, copying decreases the limit or the input, writing decreases the data, the
  reconnect loop runs over the list of what its attempts meet (a prefix of an endless run is a list, so that statements about all lists are statements about
  all runs). No fuel is used.

  \<^bold>\<open>Not modelled.\<close> \<^verbatim>\<open>net/http\<close>'s own serving of a connection around the handlers; socket options, deadlines and what goes to standard error; the
  inspector's web page (a JavaScript asset) and the websocket library under its feed; Bubble Tea's and Lip Gloss's rendering, whose laws are hypotheses of the property on
  the drawn height; the version string a release build links in (the model has the source's default).
\<close>

section \<open>The refusal that ends the client's attempts\<close>

lemma WriteMessage_open:
  assumes "enc v = Some j" and "w_plan w = []" and "\<not> w_closed w"
  shows "\<exists>w'. WriteMessage enc v w = (None, w') \<and> w_bytes w' = w_bytes w @ line_bytes j"
  using assms by (simp add: WriteMessage_def w_write_def w_bytes_def line_bytes_def)

lemma ReadMessage_line:
  assumes "line_ok j" and "dec (j @ [newline]) = Some v" and "r_bytes r = line_bytes j @ rest"
  shows "fst (ReadMessage dec r) = Inr v"
proof -
  have "bytesStr (line_bytes j) = j @ [newline]" unfolding line_bytes_def by (rule bytesStr_strBytes)
  then show ?thesis using ReadSlice_line [OF assms(1,3)] assms(2) by (simp only: ReadMessage_def prod.case sum.case option.case fst_conv)
qed

text \<open>
  Property C8. A token that needs TLS is sent in the clear at most once: when the server refuses a client's plaintext handshake because the name is reserved for TLS, over a working
  connection and with a message that JSON carries, the client makes no further attempt, whatever would come after; it stays
  down until the user quits, and says so.
\<close>

theorem plaintext_refusal_final:
  assumes hs: "handshake L clk rnd overTLS remote rdS wS s = (HsRejected (RefAuth (ErrTLSRequired name)), wS', s')"
    and up: "w_plan wS = []" "\<not> w_closed wS"
    and json: "k_ack L (refusalAck L (RefAuth (ErrTLSRequired name)) CodeTLSRequired) = Some j" "line_ok j"
      "c_ack CL (j @ [newline]) = Some (refusalAck L (RefAuth (ErrTLSRequired name)) CodeTLSRequired)"
    and dial: "at_dial a = Inr (w, rd)" "r_bytes rd = drop (length (w_bytes wS)) (w_bytes wS')"
    and sent: "fst (WriteMessage (c_hello CL) (helloOf (tn_cfg t)) w) = None" and live: "\<not> at_cancelled a"
    and run: "tn_Run CL (a # as) t = (waits, attempts, st, t')"
  shows "waits = [] \<and> attempts = 1 \<and> st = (if at_waitCancelled a then Returned else StayingDown) \<and>
     fst (connectOnce CL a t) = Rejected (k_text L (RefAuth (ErrTLSRequired name))) ''tls_required''"
proof -
  let ?why = "RefAuth (ErrTLSRequired name)"
  let ?ack = "refusalAck L ?why CodeTLSRequired"
  obtain w1 where w1: "WriteMessage (k_ack L) ?ack wS = (None, w1)" "w_bytes w1 = w_bytes wS @ line_bytes j"
    using WriteMessage_open [where enc = "k_ack L" and v = ?ack, OF json(1) up] by blast
  have "w_bytes wS' = w_bytes w1"
    using handshake_rejected [OF hs] w1(1) by (simp add: CodeTLSRequired_def)
  then have "r_bytes rd = line_bytes j @ []" using dial(2) w1(2) by simp
  then have ack: "fst (ReadMessage (c_ack CL) rd) = Inr ?ack" by (rule ReadMessage_line [where dec = "c_ack CL", OF json(2) json(3)])
  obtain w2 where "WriteMessage (c_hello CL) (helloOf (tn_cfg t)) w = (None, w2)" using sent by (metis prod.collapse)
  then have c: "fst (connectOnce CL a t) = Rejected (k_text L ?why) ''tls_required''"
    using dial(1) ack by (simp add: connectOnce_def refusalAck_def CodeTLSRequired_def)
  then have no: "\<not> retried CL t a" by (simp add: retried_def tlsRequired_def CodeTLSRequired_def)
  obtain u where r: "runLoop CL second (a # as) t = (waits, attempts, st, u)" using run by (auto simp: tn_Run_def split: prod.splits)
  from runLoop_schedule [OF r] no have "length waits = 0" by simp
  with runLoop_schedule [OF r] live c show ?thesis by (simp add: stopState_def)
qed

text \<open>A client that knows the one message it is sent.\<close>

theorem plaintext_refusal_final_witness:
  "\<exists>wS' s' waits attempts t t'. handshake demo_ctl (\<lambda>_. 0) (\<lambda>_. 0) False ''9.9.9.9:9'' demo_rd fresh_conn demo_srv =
       (HsRejected (RefAuth (ErrTLSRequired ''hop'')), wS', s') \<and>
     tn_Run (demo_clib\<lparr>c_ack := \<lambda>_. Some (refusalAck demo_ctl (RefAuth (ErrTLSRequired ''hop'')) CodeTLSRequired)\<rparr>)
       [demo_attempt\<lparr>at_dial := Inr (fresh_conn, \<lparr>r_bytes = w_bytes wS', r_end = EOF\<rparr>)\<rparr>, demo_attempt] t = (waits, attempts, StayingDown, t') \<and>
     waits = [] \<and> attempts = 1"
proof -
  let ?why = "RefAuth (ErrTLSRequired ''hop'')"
  let ?CL = "demo_clib\<lparr>c_ack := \<lambda>_. Some (refusalAck demo_ctl ?why CodeTLSRequired)\<rparr>"
  obtain wS' s' where hs: "handshake demo_ctl (\<lambda>_. 0) (\<lambda>_. 0) False ''9.9.9.9:9'' demo_rd fresh_conn demo_srv = (HsRejected ?why, wS', s')"
    by (simp add: demo_refused rejectCode_def)
  let ?a = "demo_attempt\<lparr>at_dial := Inr (fresh_conn, \<lparr>r_bytes = w_bytes wS', r_end = EOF\<rparr>)\<rparr>"
  obtain t where "tn_New demo_cc = Inr t" by (simp add: tn_New_def demo_cc_validated Let_def)
  obtain waits attempts st t' where run: "tn_Run ?CL [?a, demo_attempt] t = (waits, attempts, st, t')" by (metis prod.exhaust)
  have up: "w_plan fresh_conn = []" "\<not> w_closed fresh_conn" "w_bytes fresh_conn = []" by (simp_all add: fresh_conn_def w_bytes_def)
  have json: "k_ack demo_ctl (refusalAck demo_ctl ?why CodeTLSRequired) = Some ''{}''" "line_ok ''{}''"
    "c_ack ?CL (''{}'' @ [newline]) = Some (refusalAck demo_ctl ?why CodeTLSRequired)"
    by (simp_all add: demo_ctl_def line_ok_def bufSize_def)
  have dial: "at_dial ?a = Inr (fresh_conn, \<lparr>r_bytes = w_bytes wS', r_end = EOF\<rparr>)" "\<not> at_cancelled ?a" "\<not> at_waitCancelled ?a"
    by (simp_all add: demo_attempt_def)
  have "r_bytes \<lparr>r_bytes = w_bytes wS', r_end = EOF\<rparr> = drop (length (w_bytes fresh_conn)) (w_bytes wS')" by (simp add: up)
  moreover have "fst (WriteMessage (c_hello ?CL) (helloOf (tn_cfg t)) fresh_conn) = None"
    by (simp add: WriteMessage_def w_write_def demo_clib_def fresh_conn_def)
  ultimately have "waits = [] \<and> attempts = 1 \<and> st = StayingDown"
    using plaintext_refusal_final [OF hs up(1,2) json dial(1) _ _ dial(2) run] dial(3) by simp
  then show ?thesis using hs run by blast
qed

end
